(* ===== verification/Prelude.thy ===== *)
theory Prelude
  imports Complex_Main "HOL-Library.AList" "HOL-Library.Char_ord" "HOL-Library.List_Lexorder"
begin

text \<open>
  What every component shares: the kernel's exception classes, computations that
  thread a state and may raise, Python's dictionaries (association lists in insertion
  order), its strings and the object values that travel in payloads. A string is a
  list of characters, one character per code point up to U+00FF.
\<close>

named_theorems py_simps \<open>evaluation of computations that thread a state and may raise\<close>
named_theorems dict_simps \<open>lookups and key lists of dictionaries\<close>

section \<open>Exceptions\<close>

text \<open>
  The exception classes of the kernel, with the base class each one declares, and two
  stand-ins for classes the kernel does not define: subclasses of \<open>Exception\<close>
  and exceptions outside it (\<open>KeyboardInterrupt\<close>, \<open>SystemExit\<close>). The provider
  adapters declare the same five classes each, a base and its four kinds:
  \<open>AdapterError Claude Timeout\<close> is \<open>ClaudeTimeoutError\<close>.
\<close>

datatype adapter = Claude | OpenAI | Gemini | Local

datatype adapter_failure = AnyFailure | Authentication | Timeout | Connection | Response

datatype exn_class =
    KernelError
  | ConfigurationError | ServiceRegistrationError | StartupError
  | ToolError | ToolRegistrationError | ToolValidationError
  | ProviderError | ProviderConfigurationError | ProviderRegistrationError | ToolCallingError
  | ExecutionError | ExecutionValidationError | DispatchError
  | ToolLoopError | ProviderCapabilityError
  | AuthorizationError | EventDispatchError
  | MemoryError | VectorStoreError
  | WorkflowError | AgentError
  | PluginError | PluginValidationError | PluginRegistrationError | PluginLoadError
  | PluginLifecycleError
  | SecurityError | SecureConfigurationError | SecretNotFoundError | SecretValueError
  | SecretConfigurationError
  | BootstrapError | AIEngineError
  | PluginDiscoveryError | ManifestNotFoundError | ManifestParseError | EntryPointError
  | EmbeddingError | AdapterError adapter adapter_failure
  | ForeignException string
  | ForeignBaseException string

fun exn_base :: "exn_class \<Rightarrow> exn_class option" where
  "exn_base KernelError = None"
| "exn_base (ForeignException _) = None"
| "exn_base (ForeignBaseException _) = None"
| "exn_base ToolRegistrationError = Some ToolError"
| "exn_base ToolValidationError = Some ToolError"
| "exn_base ProviderConfigurationError = Some ProviderError"
| "exn_base ProviderRegistrationError = Some ProviderError"
| "exn_base ToolCallingError = Some ProviderError"
| "exn_base ExecutionValidationError = Some ExecutionError"
| "exn_base DispatchError = Some ExecutionError"
| "exn_base ToolLoopError = Some ExecutionError"
| "exn_base ProviderCapabilityError = Some ToolLoopError"
| "exn_base VectorStoreError = Some MemoryError"
| "exn_base PluginValidationError = Some PluginError"
| "exn_base PluginRegistrationError = Some PluginError"
| "exn_base PluginLoadError = Some PluginError"
| "exn_base PluginLifecycleError = Some PluginError"
| "exn_base SecureConfigurationError = Some SecurityError"
| "exn_base SecretNotFoundError = Some SecurityError"
| "exn_base SecretValueError = Some SecurityError"
| "exn_base SecretConfigurationError = Some SecurityError"
| "exn_base ManifestNotFoundError = Some PluginDiscoveryError"
| "exn_base ManifestParseError = Some PluginDiscoveryError"
| "exn_base EntryPointError = Some PluginDiscoveryError"
| "exn_base EmbeddingError = Some ProviderError"
| "exn_base (AdapterError a AnyFailure) = Some ProviderError"
| "exn_base (AdapterError a _) = Some (AdapterError a AnyFailure)"
| "exn_base _ = Some KernelError"

text \<open>The depth of a class below \<open>KernelError\<close>: why the walk up the bases ends.\<close>

fun exn_depth :: "exn_class \<Rightarrow> nat" where
  "exn_depth KernelError = 0"
| "exn_depth ProviderCapabilityError = 3"
| "exn_depth (AdapterError _ f) = (if f = AnyFailure then 2 else 3)"
| "exn_depth c = (case exn_base c of None \<Rightarrow> 0 | Some KernelError \<Rightarrow> 1 | Some _ \<Rightarrow> 2)"

lemma exn_base_adapter [simp]:
  "f \<noteq> AnyFailure \<Longrightarrow> exn_base (AdapterError a f) = Some (AdapterError a AnyFailure)"
  by (cases f) simp_all

lemma exn_depth_base: "exn_base c = Some b \<Longrightarrow> exn_depth b < exn_depth c"
proof (cases c)
  case (AdapterError a f)
  then show "exn_base c = Some b \<Longrightarrow> exn_depth b < exn_depth c" by (cases f) auto
qed auto

function exn_mro :: "exn_class \<Rightarrow> exn_class list" where
  "exn_mro c = c # (case exn_base c of None \<Rightarrow> [] | Some b \<Rightarrow> exn_mro b)"
  by pat_completeness auto
termination
  by (relation "measure exn_depth") (auto dest: exn_depth_base)

declare exn_mro.simps [simp del]

lemma exn_mro_step [simp]:
  "exn_base c = None \<Longrightarrow> exn_mro c = [c]"
  "exn_base c = Some b \<Longrightarrow> exn_mro c = c # exn_mro b"
  by (subst exn_mro.simps; simp)+

lemma exn_mro_adapter [simp]:
  "exn_mro (AdapterError a f) = (if f = AnyFailure then [] else [AdapterError a f])
     @ [AdapterError a AnyFailure, ProviderError, KernelError]"
  by (cases "f = AnyFailure") simp_all

lemma exn_mro_self [simp]: "c \<in> set (exn_mro c)"
  by (subst exn_mro.simps) simp

text \<open>A raised exception: its class and the text \<open>str\<close> gives, or an exception group.\<close>

datatype exn = Exn exn_class string | ExnGroup string "exn list"

text \<open>\<open>except C\<close> catches an exception whose class has \<open>C\<close> among its bases.\<close>

fun exn_isa :: "exn_class \<Rightarrow> exn \<Rightarrow> bool" where
  "exn_isa c (Exn d _) = (c \<in> set (exn_mro d))"
| "exn_isa c (ExnGroup _ _) = False"

text \<open>\<open>except Exception\<close> catches everything but the classes outside \<open>Exception\<close>.\<close>

fun exn_is_exception :: "exn \<Rightarrow> bool" where
  "exn_is_exception (Exn (ForeignBaseException _) _) = False"
| "exn_is_exception _ = True"

lemma exn_isa_self [simp]: "exn_isa c (Exn c m)"
  by simp

lemma exn_mro_kernel [simp]:
  "KernelError \<in> set (exn_mro c) \<longleftrightarrow> (\<forall>n. c \<noteq> ForeignException n) \<and> (\<forall>n. c \<noteq> ForeignBaseException n)"
  by (cases c) simp_all

lemma exn_mro_leaf [simp]:
  "ToolValidationError \<in> set (exn_mro c) \<longleftrightarrow> c = ToolValidationError"
  "ToolRegistrationError \<in> set (exn_mro c) \<longleftrightarrow> c = ToolRegistrationError"
  "ProviderRegistrationError \<in> set (exn_mro c) \<longleftrightarrow> c = ProviderRegistrationError"
  by (cases c; simp)+

lemma exn_mro_security [simp]:
  "SecurityError \<in> set (exn_mro c) \<longleftrightarrow> c \<in> {SecurityError, SecureConfigurationError,
     SecretNotFoundError, SecretValueError, SecretConfigurationError}"
  by (cases c; simp)

section \<open>Computations\<close>

text \<open>
  A pure computation that may raise is a value of \<^typ>\<open>exn + 'a\<close>. A computation with
  effects threads a state and keeps it when it raises, as Python does.
\<close>

type_synonym 'a res = "exn + 'a"
type_synonym ('w, 'a) py = "'w \<Rightarrow> (exn + 'a) \<times> 'w"

definition rbind :: "'a res \<Rightarrow> ('a \<Rightarrow> 'b res) \<Rightarrow> 'b res" where
  "rbind r f = (case r of Inl e \<Rightarrow> Inl e | Inr x \<Rightarrow> f x)"

definition ret :: "'a \<Rightarrow> ('w, 'a) py" where
  "ret x = (\<lambda>w. (Inr x, w))"

definition throw :: "exn \<Rightarrow> ('w, 'a) py" where
  "throw e = (\<lambda>w. (Inl e, w))"

definition lift_res :: "'a res \<Rightarrow> ('w, 'a) py" where
  "lift_res r = (\<lambda>w. (r, w))"

definition bnd :: "('w, 'a) py \<Rightarrow> ('a \<Rightarrow> ('w, 'b) py) \<Rightarrow> ('w, 'b) py" where
  "bnd m f = (\<lambda>w. case m w of (Inl e, w') \<Rightarrow> (Inl e, w') | (Inr x, w') \<Rightarrow> f x w')"

text \<open>\<open>andthen m k\<close> runs \<open>m\<close> for its effect and goes on with \<open>k\<close>.\<close>

definition andthen :: "('w, unit) py \<Rightarrow> ('w, 'a) py \<Rightarrow> ('w, 'a) py" where
  "andthen m k = bnd m (\<lambda>_. k)"

text \<open>
  \<open>attempt m h k\<close> is \<open>try: x = m; except ...: h; else: k x\<close>: the handler sees every
  exception and decides by its class, rethrowing what it does not catch.
\<close>

definition attempt ::
  "('w, 'a) py \<Rightarrow> (exn \<Rightarrow> ('w, 'b) py) \<Rightarrow> ('a \<Rightarrow> ('w, 'b) py) \<Rightarrow> ('w, 'b) py" where
  "attempt m h k = (\<lambda>w. case m w of (Inl e, w') \<Rightarrow> h e w' | (Inr x, w') \<Rightarrow> k x w')"

lemma rbind_simps [simp]:
  "rbind (Inl e) f = Inl e" "rbind (Inr x) f = f x"
  by (simp_all add: rbind_def)

lemma rbind_Inr_iff: "rbind r f = Inr y \<longleftrightarrow> (\<exists>x. r = Inr x \<and> f x = Inr y)"
  by (cases r) auto

lemma rbind_InrE: "rbind r f = Inr y \<Longrightarrow> (\<And>x. r = Inr x \<Longrightarrow> f x = Inr y \<Longrightarrow> P) \<Longrightarrow> P"
  by (cases r) auto

text \<open>A comprehension whose element may raise.\<close>

fun rmap :: "('a \<Rightarrow> 'b res) \<Rightarrow> 'a list \<Rightarrow> 'b list res" where
  "rmap f [] = Inr []"
| "rmap f (x # xs) = rbind (f x) (\<lambda>y. rbind (rmap f xs) (\<lambda>ys. Inr (y # ys)))"

lemma rmap_Inr_iff: "rmap f xs = Inr ys \<longleftrightarrow> list_all2 (\<lambda>x y. f x = Inr y) xs ys"
  by (induction xs arbitrary: ys) (auto simp: rbind_Inr_iff list_all2_Cons1)

lemma list_all2_right: "list_all2 P xs ys \<Longrightarrow> (\<And>x y. x \<in> set xs \<Longrightarrow> P x y \<Longrightarrow> Q y) \<Longrightarrow> list_all Q ys"
  by (induction rule: list_all2_induct) auto

lemma list_all2_source: "list_all2 P xs ys \<Longrightarrow> y \<in> set ys \<Longrightarrow> \<exists>x \<in> set xs. P x y"
  by (induction rule: list_all2_induct) auto

lemma rmap_map: "(\<And>x. x \<in> set xs \<Longrightarrow> f x = Inr (g x)) \<Longrightarrow> rmap f xs = Inr (map g xs)"
  by (induction xs) simp_all

lemma rmap_error: "rmap f xs = Inl e \<Longrightarrow> \<exists>x \<in> set xs. f x = Inl e"
  by (induction xs) (auto simp: rbind_def split: sum.splits)

lemma ret_apply [simp, py_simps]: "ret x w = (Inr x, w)"
  by (simp add: ret_def)

lemma throw_apply [simp, py_simps]: "throw e w = (Inl e, w)"
  by (simp add: throw_def)

lemma lift_res_apply [simp, py_simps]: "lift_res r w = (r, w)"
  by (simp add: lift_res_def)

lemma bnd_Inl [py_simps]: "m w = (Inl e, w') \<Longrightarrow> bnd m f w = (Inl e, w')"
  by (simp add: bnd_def)

lemma bnd_Inr [py_simps]: "m w = (Inr x, w') \<Longrightarrow> bnd m f w = f x w'"
  by (simp add: bnd_def)

lemma andthen_Inl [py_simps]: "m w = (Inl e, w') \<Longrightarrow> andthen m k w = (Inl e, w')"
  by (simp add: andthen_def bnd_Inl)

lemma andthen_Inr [py_simps]: "m w = (Inr x, w') \<Longrightarrow> andthen m k w = k w'"
  by (simp add: andthen_def bnd_Inr)

lemma attempt_Inl [py_simps]: "m w = (Inl e, w') \<Longrightarrow> attempt m h k w = h e w'"
  by (simp add: attempt_def)

lemma attempt_Inr [py_simps]: "m w = (Inr x, w') \<Longrightarrow> attempt m h k w = k x w'"
  by (simp add: attempt_def)

lemma bnd_InrD: "bnd m f w = (Inr y, w') \<Longrightarrow> \<exists>x v. m w = (Inr x, v) \<and> f x v = (Inr y, w')"
  by (auto simp: bnd_def split: prod.splits sum.splits)

lemma andthen_InrD: "andthen m k w = (Inr y, w') \<Longrightarrow> \<exists>v. m w = (Inr (), v) \<and> k v = (Inr y, w')"
  unfolding andthen_def by (drule bnd_InrD) auto

lemma bnd_cong_run:
  "(\<And>x v. m w = (Inr x, v) \<Longrightarrow> f x v = g x v) \<Longrightarrow> bnd m f w = bnd m g w"
  by (auto simp: bnd_def split: prod.splits sum.splits)

lemma andthen_cong_run:
  "(\<And>v. m w = (Inr (), v) \<Longrightarrow> k v = k' v) \<Longrightarrow> andthen m k w = andthen m k' w"
  unfolding andthen_def by (rule bnd_cong_run) simp

lemma bnd_ret [simp]: "bnd m ret = m"
  by (rule ext) (auto simp: bnd_def split: prod.splits sum.splits)

lemma bnd_assoc: "bnd (bnd m f) g = bnd m (\<lambda>x. bnd (f x) g)"
  by (rule ext) (auto simp: bnd_def split: prod.splits sum.splits)

text \<open>A computation keeps a predicate on the state, however it ends.\<close>

definition keeps :: "('w \<Rightarrow> bool) \<Rightarrow> ('w, 'a) py \<Rightarrow> bool" where
  "keeps P m = (\<forall>w. P w \<longrightarrow> P (snd (m w)))"

lemma keepsI: "(\<And>w. P w \<Longrightarrow> P (snd (m w))) \<Longrightarrow> keeps P m"
  by (simp add: keeps_def)

lemma keepsD: "keeps P m \<Longrightarrow> P w \<Longrightarrow> m w = (r, w') \<Longrightarrow> P w'"
  by (metis keeps_def snd_conv)

lemma keeps_ret [intro, simp]: "keeps P (ret x)"
  by (simp add: keeps_def)

lemma keeps_throw [intro, simp]: "keeps P (throw e)"
  by (simp add: keeps_def)

lemma keeps_lift_res [intro, simp]: "keeps P (lift_res r)"
  by (simp add: keeps_def)

lemma keeps_bnd [intro]: "keeps P m \<Longrightarrow> (\<And>x. keeps P (f x)) \<Longrightarrow> keeps P (bnd m f)"
  unfolding keeps_def bnd_def by (auto split: prod.splits sum.splits)

lemma keeps_andthen [intro]: "keeps P m \<Longrightarrow> keeps P k \<Longrightarrow> keeps P (andthen m k)"
  by (auto simp: andthen_def)

lemma keeps_attempt [intro]:
  "keeps P m \<Longrightarrow> (\<And>e. keeps P (h e)) \<Longrightarrow> (\<And>x. keeps P (k x)) \<Longrightarrow> keeps P (attempt m h k)"
  unfolding keeps_def attempt_def by (auto split: prod.splits sum.splits)

section \<open>Strings\<close>

text \<open>
  \<open>str.isspace\<close> for the code points modelled: tab to carriage return, the four
  separators, space, next line and no-break space.
\<close>

definition py_isspace :: "char \<Rightarrow> bool" where
  "py_isspace c = (let n = of_char c :: nat in
     9 \<le> n \<and> n \<le> 13 \<or> 28 \<le> n \<and> n \<le> 32 \<or> n = 133 \<or> n = 160)"

definition strip :: "string \<Rightarrow> string" where
  "strip s = rev (dropWhile py_isspace (rev (dropWhile py_isspace s)))"

text \<open>\<open>not s.strip()\<close>, the kernel's test for a blank string.\<close>

definition blank :: "string \<Rightarrow> bool" where
  "blank s = (strip s = [])"

lemma all_dropWhile: "(\<forall>x \<in> set (dropWhile P s). P x) \<longleftrightarrow> (\<forall>x \<in> set s. P x)"
  by (induction s) auto

lemma blank_iff: "blank s \<longleftrightarrow> (\<forall>c \<in> set s. py_isspace c)"
  unfolding blank_def strip_def by (simp add: dropWhile_eq_Nil_conv all_dropWhile)

lemma blank_Nil [simp]: "blank []"
  by (simp add: blank_iff)

lemma blank_Cons [simp]: "blank (c # s) \<longleftrightarrow> py_isspace c \<and> blank s"
  by (simp add: blank_iff)

lemma blank_append [simp]: "blank (s @ t) \<longleftrightarrow> blank s \<and> blank t"
  by (auto simp: blank_iff)

text \<open>\<open>sep.join(parts)\<close> and the decimal text of an integer.\<close>

fun join :: "string \<Rightarrow> string list \<Rightarrow> string" where
  "join sep [] = []"
| "join sep [s] = s"
| "join sep (s # ss) = s @ sep @ join sep ss"

definition digit_char :: "nat \<Rightarrow> char" where
  "digit_char n = char_of (48 + n mod 10)"

fun nat_str :: "nat \<Rightarrow> string" where
  "nat_str n = (if n < 10 then [digit_char n] else nat_str (n div 10) @ [digit_char n])"

declare nat_str.simps [simp del]

definition int_str :: "int \<Rightarrow> string" where
  "int_str i = (if i < 0 then CHR ''-'' # nat_str (nat (- i)) else nat_str (nat i))"

text \<open>\<open>str\<close> of an exception.\<close>

fun exn_text :: "exn \<Rightarrow> string" where
  "exn_text (Exn _ m) = m"
| "exn_text (ExnGroup m es) = m @ '' ('' @ nat_str (length es) @ '' sub-exception''
     @ (if length es = 1 then [] else ''s'') @ '')''"

text \<open>
  \<open>repr\<close> of a string: single quotes unless the text holds a single and no double
  quote, with the quote, the backslash and what does not print escaped.
\<close>

definition hex_digit :: "nat \<Rightarrow> char" where
  "hex_digit n = (if n < 10 then char_of (48 + n) else char_of (87 + n))"

definition repr_char :: "char \<Rightarrow> char \<Rightarrow> string" where
  "repr_char q c = (let n = of_char c :: nat in
     if c = q \<or> c = CHR 0x5C then [CHR 0x5C, c]
     else if n = 9 then [CHR 0x5C, CHR ''t'']
     else if n = 10 then [CHR 0x5C, CHR ''n'']
     else if n = 13 then [CHR 0x5C, CHR ''r'']
     else if n < 32 \<or> 127 \<le> n \<and> n \<le> 160 \<or> n = 173
       then [CHR 0x5C, CHR ''x'', hex_digit (n div 16), hex_digit (n mod 16)]
     else [c])"

definition repr_str :: "string \<Rightarrow> string" where
  "repr_str s =
     (let q = (if CHR 0x27 \<in> set s \<and> CHR 0x22 \<notin> set s then CHR 0x22 else CHR 0x27)
      in q # concat (map (repr_char q) s) @ [q])"

lemma repr_str_not_blank [simp]: "\<not> blank (repr_str s)"
  by (simp add: repr_str_def py_isspace_def Let_def)

text \<open>\<open>x or y\<close> on an optional string: \<open>None\<close> and the empty string are false.\<close>

definition str_or :: "string option \<Rightarrow> string \<Rightarrow> string" where
  "str_or x y = (case x of None \<Rightarrow> y | Some s \<Rightarrow> if s = [] then y else s)"

lemma str_or_simps [simp]:
  "str_or None y = y" "str_or (Some []) y = y" "s \<noteq> [] \<Longrightarrow> str_or (Some s) y = s"
  by (simp_all add: str_or_def)

text \<open>The test \<open>error and error.strip()\<close> that result types make of their message.\<close>

definition has_message :: "string option \<Rightarrow> bool" where
  "has_message x = (case x of None \<Rightarrow> False | Some s \<Rightarrow> \<not> blank s)"

lemma has_message_simps [simp]:
  "\<not> has_message None" "has_message (Some s) \<longleftrightarrow> \<not> blank s"
  by (simp_all add: has_message_def)

lemma has_message_str_or [simp]: "has_message x \<Longrightarrow> str_or x y = the x"
  by (cases x) (auto simp: str_or_def)

section \<open>Dictionaries\<close>

text \<open>
  A \<open>frozenset\<close> is the list of its elements in the order an iteration visits them,
  which the code may not rely on: statements hold for every order.
\<close>

type_synonym 'a frozenset = "'a list"

text \<open>
  A dictionary is an association list in insertion order with distinct keys.
  \<^const>\<open>AList.update\<close> is item assignment (an existing key keeps its place, a new one
  goes to the end), \<^const>\<open>AList.delete\<close> is \<open>del\<close> and \<^const>\<open>map_of\<close> is \<open>get\<close>.
\<close>

type_synonym ('k, 'v) dict = "('k \<times> 'v) list"

abbreviation keys :: "('k, 'v) dict \<Rightarrow> 'k list" where
  "keys d \<equiv> map fst d"

definition dict_ok :: "('k, 'v) dict \<Rightarrow> bool" where
  "dict_ok d = distinct (keys d)"

text \<open>\<open>k in d\<close>, as the code tests it.\<close>

definition has_key :: "'k \<Rightarrow> ('k, 'v) dict \<Rightarrow> bool" where
  "has_key k d = (map_of d k \<noteq> None)"

lemma has_key_iff [dict_simps]: "has_key k d \<longleftrightarrow> k \<in> set (keys d)"
  by (simp add: has_key_def map_of_eq_None_iff)

lemma map_of_update [simp, dict_simps]: "map_of (AList.update k v d) = (map_of d)(k \<mapsto> v)"
  by (rule update_conv')

lemma map_of_delete [simp, dict_simps]: "map_of (AList.delete k d) = (map_of d)(k := None)"
  by (rule delete_conv')

lemma keys_update_new [dict_simps]:
  "k \<notin> set (keys d) \<Longrightarrow> keys (AList.update k v d) = keys d @ [k]"
  by (simp add: update_keys)

lemma update_new: "k \<notin> set (keys d) \<Longrightarrow> AList.update k v d = d @ [(k, v)]"
  by (induction d) auto

lemma set_delete [simp]: "set (AList.delete k d) = {p \<in> set d. fst p \<noteq> k}"
  by (auto simp: AList.delete_eq)

lemma set_update_cases: "p \<in> set (AList.update k v d) \<Longrightarrow> p = (k, v) \<or> p \<in> set d"
  by (induction d) (auto split: if_splits)

lemma keys_delete [dict_simps]: "keys (AList.delete k d) = filter (\<lambda>j. j \<noteq> k) (keys d)"
  by (simp add: delete_keys removeAll_filter_not_eq eq_commute)

lemma dict_ok_Nil [simp]: "dict_ok []"
  by (simp add: dict_ok_def)

lemma dict_ok_update [intro]: "dict_ok d \<Longrightarrow> dict_ok (AList.update k v d)"
  by (simp add: dict_ok_def distinct_update)

lemma dict_ok_delete [intro]: "dict_ok d \<Longrightarrow> dict_ok (AList.delete k d)"
  by (simp add: dict_ok_def distinct_delete)

lemma dict_ok_append_new: "dict_ok d \<Longrightarrow> k \<notin> set (keys d) \<Longrightarrow> dict_ok (d @ [(k, v)])"
  by (simp add: dict_ok_def)

lemma map_of_append_new [simp]:
  "k \<notin> set (keys d) \<Longrightarrow> map_of (d @ [(k, v)]) = (map_of d)(k \<mapsto> v)"
  by (metis update_new map_of_update)

text \<open>\<open>d.update(e)\<close>: the items of \<open>e\<close> assigned one by one.\<close>

fun dict_update :: "('k, 'v) dict \<Rightarrow> ('k, 'v) dict \<Rightarrow> ('k, 'v) dict" where
  "dict_update d [] = d"
| "dict_update d ((k, v) # e) = dict_update (AList.update k v d) e"

lemma dict_update_ok [intro]: "dict_ok d \<Longrightarrow> dict_ok (dict_update d e)"
  by (induction d e rule: dict_update.induct) auto

lemma map_of_dict_update [dict_simps]:
  "dict_ok e \<Longrightarrow> map_of (dict_update d e) k = (case map_of e k of None \<Rightarrow> map_of d k | Some v \<Rightarrow> Some v)"
proof (induction d e rule: dict_update.induct)
  case (1 d)
  then show ?case by simp
next
  case (2 d k' v e)
  then have "dict_ok e" and new: "map_of e k' = None"
    by (simp_all add: dict_ok_def map_of_eq_None_iff)
  then show ?case using "2.IH" by (simp split: option.splits)
qed

lemma dict_update_disjoint:
  "dict_ok e \<Longrightarrow> set (keys d) \<inter> set (keys e) = {} \<Longrightarrow> dict_update d e = d @ e"
  by (induction d e rule: dict_update.induct) (auto simp: dict_ok_def update_new)

end
