(* ===== verification/Values.thy ===== *)
theory Values
  imports Prelude
begin

text \<open>
  The Python objects that travel through the kernel: the values of payload and metadata
  mappings with Python's \<open>==\<close>, truth value and the \<open>isinstance\<close> tests the code
  makes, and \<open>datetime\<close> values with comparison and \<open>isoformat\<close>.
\<close>

section \<open>Objects\<close>

datatype pyfloat = Fin real | PosInf | NegInf | NaN

text \<open>
  \<open>PToolCall\<close> and \<open>PToolSpec\<close> are instances of the two classes of
  \<open>providers/tool_calling.py\<close> inside a payload; \<open>PObject\<close> is an instance of a
  class of the consumer, which is none of the types the kernel tests for.
\<close>

datatype pyval =
    PNone
  | PBool bool
  | PInt int
  | PFloat pyfloat
  | PStr string
  | PBytes string
  | PTuple "pyval list"
  | PList "pyval list"
  | PDict "(string \<times> pyval) list"
  | PToolCall string string "(string \<times> pyval) list"
  | PToolSpec string string "(string \<times> pyval) list"
  | PObject string

type_synonym payload = "(string, pyval) dict"

fun is_pystr :: "pyval \<Rightarrow> bool" where
  "is_pystr (PStr _) = True"
| "is_pystr _ = False"

fun is_mapping :: "pyval \<Rightarrow> bool" where
  "is_mapping (PDict _) = True"
| "is_mapping _ = False"

text \<open>\<open>isinstance(x, Sequence) and not isinstance(x, str | bytes)\<close>, with its items.\<close>

fun sequence_items :: "pyval \<Rightarrow> pyval list option" where
  "sequence_items (PTuple xs) = Some xs"
| "sequence_items (PList xs) = Some xs"
| "sequence_items _ = None"

fun num_of :: "pyval \<Rightarrow> pyfloat option" where
  "num_of (PBool b) = Some (Fin (if b then 1 else 0))"
| "num_of (PInt i) = Some (Fin (of_int i))"
| "num_of (PFloat f) = Some f"
| "num_of _ = None"

fun float_eq :: "pyfloat \<Rightarrow> pyfloat \<Rightarrow> bool" where
  "float_eq NaN _ = False"
| "float_eq _ NaN = False"
| "float_eq a b = (a = b)"

text \<open>
  Python's \<open>==\<close>: numbers compare by value across \<open>bool\<close>, \<open>int\<close> and \<open>float\<close>,
  dictionaries ignore order, tuples and lists differ.
\<close>

fun py_eq :: "pyval \<Rightarrow> pyval \<Rightarrow> bool"
  and py_eq_list :: "pyval list \<Rightarrow> pyval list \<Rightarrow> bool"
  and py_eq_items :: "(string \<times> pyval) list \<Rightarrow> (string \<times> pyval) list \<Rightarrow> bool" where
  "py_eq PNone y = (y = PNone)"
| "py_eq (PBool b) y = (case num_of y of None \<Rightarrow> False | Some f \<Rightarrow> float_eq (Fin (if b then 1 else 0)) f)"
| "py_eq (PInt i) y = (case num_of y of None \<Rightarrow> False | Some f \<Rightarrow> float_eq (Fin (of_int i)) f)"
| "py_eq (PFloat x) y = (case num_of y of None \<Rightarrow> False | Some f \<Rightarrow> float_eq x f)"
| "py_eq (PStr s) y = (y = PStr s)"
| "py_eq (PBytes s) y = (y = PBytes s)"
| "py_eq (PTuple xs) y = (case y of PTuple ys \<Rightarrow> py_eq_list xs ys | _ \<Rightarrow> False)"
| "py_eq (PList xs) y = (case y of PList ys \<Rightarrow> py_eq_list xs ys | _ \<Rightarrow> False)"
| "py_eq (PDict d) y = (case y of PDict e \<Rightarrow> length d = length e \<and> py_eq_items d e | _ \<Rightarrow> False)"
| "py_eq (PToolCall i n d) y =
     (case y of PToolCall i' n' e \<Rightarrow> i = i' \<and> n = n' \<and> length d = length e \<and> py_eq_items d e | _ \<Rightarrow> False)"
| "py_eq (PToolSpec n t d) y =
     (case y of PToolSpec n' t' e \<Rightarrow> n = n' \<and> t = t' \<and> length d = length e \<and> py_eq_items d e | _ \<Rightarrow> False)"
| "py_eq (PObject s) y = (y = PObject s)"
| "py_eq_list [] ys = (ys = [])"
| "py_eq_list (x # xs) ys = (case ys of [] \<Rightarrow> False | y # ys' \<Rightarrow> py_eq x y \<and> py_eq_list xs ys')"
| "py_eq_items [] e = True"
| "py_eq_items ((k, v) # d) e =
     (case map_of e k of None \<Rightarrow> False | Some v' \<Rightarrow> py_eq v v' \<and> py_eq_items d e)"

lemma py_eq_simple [simp]:
  "py_eq (PStr s) (PStr t) \<longleftrightarrow> s = t"
  "py_eq (PInt i) (PInt j) \<longleftrightarrow> i = j"
  "py_eq (PBool b) (PBool c) \<longleftrightarrow> b = c"
  "py_eq PNone PNone"
  by auto

text \<open>\<open>bool(x)\<close>.\<close>

fun truthy :: "pyval \<Rightarrow> bool" where
  "truthy PNone = False"
| "truthy (PBool b) = b"
| "truthy (PInt i) = (i \<noteq> 0)"
| "truthy (PFloat f) = (f \<noteq> Fin 0)"
| "truthy (PStr s) = (s \<noteq> [])"
| "truthy (PBytes s) = (s \<noteq> [])"
| "truthy (PTuple xs) = (xs \<noteq> [])"
| "truthy (PList xs) = (xs \<noteq> [])"
| "truthy (PDict d) = (d \<noteq> [])"
| "truthy _ = True"

text \<open>\<open>d.get(k)\<close> and \<open>d.get(k, default)\<close>.\<close>

definition get_or :: "payload \<Rightarrow> string \<Rightarrow> pyval \<Rightarrow> pyval" where
  "get_or d k v = (case map_of d k of None \<Rightarrow> v | Some x \<Rightarrow> x)"

lemma get_or_simps [simp, dict_simps]:
  "map_of d k = None \<Longrightarrow> get_or d k v = v"
  "map_of d k = Some x \<Longrightarrow> get_or d k v = x"
  by (simp_all add: get_or_def)

text \<open>The tests of an argument of any type, with what it holds when they pass.\<close>

fun nonblank_str :: "pyval \<Rightarrow> bool" where
  "nonblank_str (PStr s) = (\<not> blank s)"
| "nonblank_str _ = False"

fun the_str :: "pyval \<Rightarrow> string" where
  "the_str (PStr s) = s"
| "the_str _ = []"

definition opt_str :: "string option \<Rightarrow> pyval" where
  "opt_str s = (case s of Some t \<Rightarrow> PStr t | None \<Rightarrow> PNone)"

definition positive_int :: "pyval \<Rightarrow> bool" where
  "positive_int v = (case v of PInt i \<Rightarrow> 0 < i | _ \<Rightarrow> False)"

fun the_int :: "pyval \<Rightarrow> int" where
  "the_int (PInt i) = i"
| "the_int _ = 0"

section \<open>Datetimes\<close>

text \<open>
  A \<open>datetime.datetime\<close>: its calendar fields and, when it carries a time zone, the
  offset from UTC in microseconds.
\<close>

record datetime =
  dt_year :: nat
  dt_month :: nat
  dt_day :: nat
  dt_hour :: nat
  dt_minute :: nat
  dt_second :: nat
  dt_micro :: nat
  dt_offset :: "int option"

definition leap_year :: "nat \<Rightarrow> bool" where
  "leap_year y = (y mod 4 = 0 \<and> (y mod 100 \<noteq> 0 \<or> y mod 400 = 0))"

definition days_in_month :: "nat \<Rightarrow> nat \<Rightarrow> nat" where
  "days_in_month y m =
     (if m = 2 then (if leap_year y then 29 else 28) else if m \<in> {4, 6, 9, 11} then 30 else 31)"

definition days_before_year :: "nat \<Rightarrow> nat" where
  "days_before_year y = (let p = y - 1 in p * 365 + p div 4 - p div 100 + p div 400)"

definition dt_ordinal :: "datetime \<Rightarrow> nat" where
  "dt_ordinal d = days_before_year (dt_year d)
     + sum_list (map (days_in_month (dt_year d)) [1 ..< dt_month d]) + dt_day d"

text \<open>Microseconds since the start of the calendar, local and in UTC.\<close>

definition dt_local :: "datetime \<Rightarrow> int" where
  "dt_local d = ((int (dt_ordinal d) * 24 + int (dt_hour d)) * 60 + int (dt_minute d)) * 60000000
     + int (dt_second d) * 1000000 + int (dt_micro d)"

definition dt_instant :: "datetime \<Rightarrow> int" where
  "dt_instant d = dt_local d - (case dt_offset d of None \<Rightarrow> 0 | Some off \<Rightarrow> off)"

text \<open>\<open><\<close> raises when exactly one side carries a time zone.\<close>

definition dt_less :: "datetime \<Rightarrow> datetime \<Rightarrow> bool res" where
  "dt_less a b =
     (if (dt_offset a = None) \<noteq> (dt_offset b = None)
      then Inl (Exn (ForeignException ''TypeError'')
             ''can't compare offset-naive and offset-aware datetimes'')
      else Inr (dt_instant a < dt_instant b))"

definition pad :: "nat \<Rightarrow> nat \<Rightarrow> string" where
  "pad n x = (let s = nat_str x in replicate (n - length s) (CHR ''0'') @ s)"

definition iso_time :: "nat \<Rightarrow> nat \<Rightarrow> nat \<Rightarrow> nat \<Rightarrow> string" where
  "iso_time h m s us = pad 2 h @ '':'' @ pad 2 m @ '':'' @ pad 2 s
     @ (if us = 0 then [] else ''.'' @ pad 6 us)"

definition iso_offset :: "int \<Rightarrow> string" where
  "iso_offset off =
     (let a = nat \<bar>off\<bar>; us = a mod 1000000; s = a div 1000000 mod 60;
          m = a div 60000000 mod 60; h = a div 3600000000
      in (if off < 0 then ''-'' else ''+'') @ pad 2 h @ '':'' @ pad 2 m
         @ (if s = 0 \<and> us = 0 then [] else '':'' @ pad 2 s
            @ (if us = 0 then [] else ''.'' @ pad 6 us)))"

definition isoformat :: "datetime \<Rightarrow> string" where
  "isoformat d = pad 4 (dt_year d) @ ''-'' @ pad 2 (dt_month d) @ ''-'' @ pad 2 (dt_day d)
     @ ''T'' @ iso_time (dt_hour d) (dt_minute d) (dt_second d) (dt_micro d)
     @ (case dt_offset d of None \<Rightarrow> [] | Some off \<Rightarrow> iso_offset off)"

section \<open>Sources of time and identity\<close>

text \<open>
  What the kernel asks the process for: \<open>time.perf_counter()\<close> in seconds,
  \<open>datetime.now(UTC)\<close> and \<open>str(uuid.uuid4())\<close>, each a reading of the world that may
  move it on.
\<close>

record 'w env =
  env_perf :: "'w \<Rightarrow> real \<times> 'w"
  env_now :: "'w \<Rightarrow> datetime \<times> 'w"
  env_uuid :: "'w \<Rightarrow> string \<times> 'w"

definition reading :: "('w \<Rightarrow> 'a \<times> 'w) \<Rightarrow> ('w, 'a) py" where
  "reading f = (\<lambda>w. case f w of (x, w') \<Rightarrow> (Inr x, w'))"

lemma reading_apply [py_simps]: "f w = (x, w') \<Longrightarrow> reading f w = (Inr x, w')"
  by (simp add: reading_def)

lemma bnd_reading [py_simps]: "f w = (x, w') \<Longrightarrow> bnd (reading f) k w = k x w'"
  by (simp add: bnd_def reading_def)

lemma keeps_reading: "(\<And>w. P w \<Longrightarrow> P (snd (f w))) \<Longrightarrow> keeps P (reading f)"
  by (auto simp: keeps_def reading_def split: prod.splits) (metis snd_conv)

text \<open>A process whose clocks and identifiers count the readings made: for concrete runs.\<close>

definition counting_env :: "nat env" where
  "counting_env = \<lparr>env_perf = (\<lambda>n. (real n, Suc n)),
     env_now = (\<lambda>n. (\<lparr>dt_year = 2026, dt_month = 1, dt_day = 1, dt_hour = 0, dt_minute = 0,
        dt_second = 0, dt_micro = n, dt_offset = Some 0\<rparr>, Suc n)),
     env_uuid = (\<lambda>n. (''id-'' @ nat_str n, Suc n))\<rparr>"

end
