(* ===== verification/Container.thy ===== *)
theory Container
  imports Values
begin

text \<open>
  The dependency injection container of \<open>core/container.py\<close>. A factory is a callable
  of the consumer that may resolve further services from the same container while it
  runs, so it is a program over that interface: it returns an instance, raises, or
  resolves a service and goes on with the outcome. Nested resolution is bounded by the
  interpreter's recursion limit, the first argument of \<open>resolve\<close>.
\<close>

section \<open>State and operations\<close>

datatype 's factory =
    FReturn 's
  | FRaise exn
  | FResolve string "exn + 's \<Rightarrow> 's factory"

record 's container =
  sc_factories :: "(string, 's factory) dict"
  sc_singletons :: "(string, bool) dict"
  sc_instances :: "(string, 's) dict"

definition empty_container :: "'s container" where
  "empty_container = \<lparr>sc_factories = [], sc_singletons = [], sc_instances = []\<rparr>"

definition is_registered :: "string \<Rightarrow> 's container \<Rightarrow> bool" where
  "is_registered t c = (has_key t (sc_factories c) \<or> has_key t (sc_instances c))"

definition already_registered :: "string \<Rightarrow> exn" where
  "already_registered t =
     Exn ServiceRegistrationError (''Service '' @ t @ '' is already registered.'')"

definition not_registered :: "string \<Rightarrow> exn" where
  "not_registered t =
     Exn ServiceRegistrationError (''Service '' @ t @ '' is not registered.'')"

text \<open>A service type is named by the text its \<open>repr\<close> gives.\<close>

definition register ::
  "string \<Rightarrow> 's factory \<Rightarrow> bool \<Rightarrow> 's container \<Rightarrow> 's container res" where
  "register t f singleton c =
     (if is_registered t c then Inl (already_registered t)
      else Inr (c\<lparr>sc_factories := AList.update t f (sc_factories c),
                  sc_singletons := AList.update t singleton (sc_singletons c)\<rparr>))"

definition register_instance :: "string \<Rightarrow> 's \<Rightarrow> 's container \<Rightarrow> 's container res" where
  "register_instance t i c =
     (if is_registered t c then Inl (already_registered t)
      else Inr (c\<lparr>sc_instances := AList.update t i (sc_instances c),
                  sc_singletons := AList.update t True (sc_singletons c)\<rparr>))"

text \<open>
  Results carry the container after the call and a log of the factories that were invoked,
  in the order of their calls: the service type, and whether the factory returned an instance.
\<close>

type_synonym invocations = "(string \<times> bool) list"
type_synonym 's outcome = "(exn + 's) \<times> 's container \<times> invocations"

primrec run_factory ::
  "(string \<Rightarrow> 's container \<Rightarrow> 's outcome) \<Rightarrow> 's factory \<Rightarrow> 's container \<Rightarrow> 's outcome" where
  "run_factory rs (FReturn i) = (\<lambda>c. (Inr i, c, []))"
| "run_factory rs (FRaise e) = (\<lambda>c. (Inl e, c, []))"
| "run_factory rs (FResolve t k) = (\<lambda>c.
     case rs t c of (r, c', calls) \<Rightarrow>
       (case run_factory rs (k r) c' of (r', c'', calls') \<Rightarrow> (r', c'', calls @ calls')))"

definition recursion_error :: exn where
  "recursion_error = Exn (ForeignException ''RecursionError'') ''maximum recursion depth exceeded''"

definition resolve_with ::
  "(string \<Rightarrow> 's container \<Rightarrow> 's outcome) \<Rightarrow> string \<Rightarrow> 's container \<Rightarrow> 's outcome" where
  "resolve_with rs t c =
     (case map_of (sc_instances c) t of
        Some i \<Rightarrow> (Inr i, c, [])
      | None \<Rightarrow>
          (case map_of (sc_factories c) t of
             None \<Rightarrow> (Inl (not_registered t), c, [])
           | Some f \<Rightarrow>
               (case run_factory rs f c of
                  (Inl e, c', calls) \<Rightarrow> (Inl e, c', (t, False) # calls)
                | (Inr i, c', calls) \<Rightarrow>
                    (Inr i,
                     if map_of (sc_singletons c') t = Some True
                       then c'\<lparr>sc_instances := AList.update t i (sc_instances c')\<rparr> else c',
                     (t, True) # calls))))"

primrec resolve :: "nat \<Rightarrow> string \<Rightarrow> 's container \<Rightarrow> 's outcome" where
  "resolve 0 t c = resolve_with (\<lambda>_ c. (Inl recursion_error, c, [])) t c"
| "resolve (Suc n) t c = resolve_with (resolve n) t c"

section \<open>Invariant\<close>

text \<open>
  Keys are distinct, every registered service has a singleton flag, and only
  singletons have a cached instance.
\<close>

definition container_ok :: "'s container \<Rightarrow> bool" where
  "container_ok c \<longleftrightarrow> dict_ok (sc_factories c) \<and> dict_ok (sc_singletons c) \<and> dict_ok (sc_instances c)
     \<and> (\<forall>t. map_of (sc_singletons c) t = None \<longleftrightarrow>
              map_of (sc_factories c) t = None \<and> map_of (sc_instances c) t = None)
     \<and> (\<forall>t i. map_of (sc_instances c) t = Some i \<longrightarrow> map_of (sc_singletons c) t = Some True)"

text \<open>\<open>resolve\<close> may only add cached instances of registered singletons.\<close>

definition extends :: "'s container \<Rightarrow> 's container \<Rightarrow> bool" where
  "extends c c' \<longleftrightarrow> sc_factories c' = sc_factories c \<and> sc_singletons c' = sc_singletons c
     \<and> (\<forall>t i. map_of (sc_instances c) t = Some i \<longrightarrow> map_of (sc_instances c') t \<noteq> None)
     \<and> (container_ok c \<longrightarrow> container_ok c')"

lemma extends_refl [simp]: "extends c c"
  by (simp add: extends_def)

lemma extends_trans: "extends a b \<Longrightarrow> extends b c \<Longrightarrow> extends a c"
  unfolding extends_def by (metis option.exhaust)

lemma empty_container_ok: "container_ok empty_container"
  by (simp add: container_ok_def empty_container_def)

lemma register_ok: "container_ok c \<Longrightarrow> register t f s c = Inr c' \<Longrightarrow> container_ok c'"
  unfolding container_ok_def register_def is_registered_def has_key_def
  by (auto split: if_splits)

lemma register_instance_ok:
  "container_ok c \<Longrightarrow> register_instance t i c = Inr c' \<Longrightarrow> container_ok c'"
  unfolding container_ok_def register_instance_def is_registered_def has_key_def
  by (auto split: if_splits)

lemma cache_instance_extends:
  assumes "map_of (sc_singletons c) t = Some True" and "map_of (sc_factories c) t = Some f"
  shows "extends c (c\<lparr>sc_instances := AList.update t i (sc_instances c)\<rparr>)"
  using assms unfolding extends_def container_ok_def is_registered_def has_key_def by auto

lemma run_factory_extends:
  assumes "\<And>t c r c' calls. rs t c = (r, c', calls) \<Longrightarrow> extends c c'"
  shows "run_factory rs f c = (r, c', calls) \<Longrightarrow> extends c c'"
proof (induction f arbitrary: c r c' calls)
  case (FResolve t k)
  from FResolve.prems show ?case
    by (auto split: prod.splits) (metis FResolve.IH assms extends_trans rangeI)
qed auto

lemma resolve_with_extends:
  assumes rs: "\<And>t c r c' calls. rs t c = (r, c', calls) \<Longrightarrow> extends c c'"
    and res: "resolve_with rs t c = (r, c', calls)"
  shows "extends c c'"
proof (cases "map_of (sc_instances c) t = None \<and> map_of (sc_factories c) t \<noteq> None")
  case True
  then obtain f where f: "map_of (sc_instances c) t = None" "map_of (sc_factories c) t = Some f"
    by auto
  obtain r1 c1 l1 where run: "run_factory rs f c = (r1, c1, l1)" by (cases "run_factory rs f c")
  with rs have e: "extends c c1" by (blast intro: run_factory_extends)
  then have "map_of (sc_factories c1) t = Some f" using f by (simp add: extends_def)
  then show ?thesis
    using res f run e
    by (auto simp: resolve_with_def split: sum.splits if_splits
        intro: extends_trans cache_instance_extends)
next
  case False
  with res show ?thesis by (auto simp: resolve_with_def split: option.splits)
qed

lemma resolve_extends: "resolve n t c = (r, c', calls) \<Longrightarrow> extends c c'"
proof (induction n arbitrary: t c r c' calls)
  case 0
  show ?case
    by (rule resolve_with_extends[of "\<lambda>_ c. (Inl recursion_error, c, [])"]) (use 0 in auto)
next
  case (Suc n)
  show ?case by (rule resolve_with_extends[of "resolve n"]) (use Suc in auto)
qed

section \<open>Calls of the owner\<close>

text \<open>What the owner of a container calls on it: results are an instance or nothing.\<close>

datatype 's container_call =
    CRegister string "'s factory" bool
  | CInstance string 's
  | CResolve nat string

fun container_do :: "'s container_call \<Rightarrow> 's container \<Rightarrow> 's option res \<times> 's container \<times> invocations" where
  "container_do (CRegister t f singleton) c =
     (case register t f singleton c of Inl e \<Rightarrow> (Inl e, c, []) | Inr c' \<Rightarrow> (Inr None, c', []))"
| "container_do (CInstance t i) c =
     (case register_instance t i c of Inl e \<Rightarrow> (Inl e, c, []) | Inr c' \<Rightarrow> (Inr None, c', []))"
| "container_do (CResolve n t) c =
     (case resolve n t c of (r, c', used) \<Rightarrow> (rbind r (\<lambda>i. Inr (Some i)), c', used))"

fun container_run :: "'s container_call list \<Rightarrow> 's container \<Rightarrow> 's option res list \<times> 's container \<times> invocations" where
  "container_run [] c = ([], c, [])"
| "container_run (call # calls) c =
     (case container_do call c of (r, c1, used1) \<Rightarrow>
       (case container_run calls c1 of (rs, c2, used2) \<Rightarrow> (r # rs, c2, used1 @ used2)))"

section \<open>Singletons and recursion\<close>

lemma resolve_cached:
  "map_of (sc_instances c) t = Some i \<Longrightarrow> resolve n t c = (Inr i, c, [])"
  by (cases n) (simp_all add: resolve_with_def)

lemma resolve_caches:
  assumes "container_ok c" and "map_of (sc_singletons c) t = Some True"
    and "resolve n t c = (Inr i, c', calls)"
  shows "map_of (sc_instances c') t = Some i"
proof -
  obtain rs where rs: "\<And>t c r c' calls. rs t c = (r, c', calls) \<Longrightarrow> extends c c'"
    and res: "resolve_with rs t c = (Inr i, c', calls)"
  proof (cases n)
    case 0
    with assms(3) show ?thesis by (intro that[of "\<lambda>_ c. (Inl recursion_error, c, [])"]) auto
  next
    case (Suc m)
    with assms(3) show ?thesis by (intro that[of "resolve m"]) (auto intro: resolve_extends)
  qed
  show ?thesis
  proof (cases "map_of (sc_instances c) t")
    case None
    with res obtain f c1 where f: "map_of (sc_factories c) t = Some f"
      and run: "run_factory rs f c = (Inr i, c1, tl calls)"
      by (auto simp: resolve_with_def split: option.splits prod.splits sum.splits)
    from rs run have "extends c c1" by (blast intro: run_factory_extends)
    with assms(2) have "map_of (sc_singletons c1) t = Some True" by (simp add: extends_def)
    then show ?thesis using res None f run by (auto simp: resolve_with_def)
  qed (use res in \<open>auto simp: resolve_with_def\<close>)
qed

text \<open>
  A factory whose resolutions all go to services of smaller rank: the dependencies of
  the container form no cycle.
\<close>

primrec resolves_below :: "(string \<Rightarrow> nat) \<Rightarrow> nat \<Rightarrow> 's factory \<Rightarrow> bool" where
  "resolves_below rank n (FReturn i) = True"
| "resolves_below rank n (FRaise e) = (e \<noteq> recursion_error)"
| "resolves_below rank n (FResolve t k) = (rank t < n \<and> (\<forall>r. r \<noteq> Inl recursion_error \<longrightarrow> resolves_below rank n (k r)))"

definition acyclic_services :: "(string \<Rightarrow> nat) \<Rightarrow> 's container \<Rightarrow> bool" where
  "acyclic_services rank c =
     (\<forall>t f. map_of (sc_factories c) t = Some f \<longrightarrow> resolves_below rank (rank t) f)"

lemma acyclic_extends: "extends c c' \<Longrightarrow> acyclic_services rank c \<Longrightarrow> acyclic_services rank c'"
  by (simp add: extends_def acyclic_services_def)

lemma not_registered_not_recursion [simp]: "not_registered t \<noteq> recursion_error"
  by (simp add: not_registered_def recursion_error_def)

text \<open>Instances that are cached stay, and what is constructed is cached and was not before.\<close>

definition cached :: "string \<Rightarrow> 's container \<Rightarrow> bool" where
  "cached t c \<longleftrightarrow> map_of (sc_instances c) t \<noteq> None"

definition keeps_instances :: "'s container \<Rightarrow> 's container \<Rightarrow> bool" where
  "keeps_instances c c' \<longleftrightarrow> (\<forall>t i. map_of (sc_instances c) t = Some i \<longrightarrow> map_of (sc_instances c') t = Some i)"

definition constructions :: "'s container \<Rightarrow> invocations \<Rightarrow> 's container \<Rightarrow> bool" where
  "constructions c used c' \<longleftrightarrow> (\<forall>t. map_of (sc_singletons c') t \<noteq> Some False \<longrightarrow>
     of_bool (cached t c) + count_list used (t, True) \<le> (of_bool (cached t c') :: nat))"

lemma keeps_instances_refl [simp]: "keeps_instances c c"
  by (simp add: keeps_instances_def)

lemma keeps_instances_trans: "keeps_instances a b \<Longrightarrow> keeps_instances b c \<Longrightarrow> keeps_instances a c"
  by (simp add: keeps_instances_def)

lemma constructions_refl [simp]: "constructions c [] c"
  by (simp add: constructions_def)

lemma constructions_trans:
  assumes "constructions a used b" and "constructions b used' c"
    and "\<And>t. map_of (sc_singletons c) t \<noteq> Some False \<Longrightarrow> map_of (sc_singletons b) t \<noteq> Some False"
  shows "constructions a (used @ used') c"
  unfolding constructions_def
proof (intro allI impI)
  fix t
  assume t: "map_of (sc_singletons c) t \<noteq> Some False"
  with assms(3) have "of_bool (cached t a) + count_list used (t, True) \<le> (of_bool (cached t b) :: nat)"
    using assms(1) by (simp add: constructions_def)
  moreover have "of_bool (cached t b) + count_list used' (t, True) \<le> (of_bool (cached t c) :: nat)"
    using assms(2) t by (simp add: constructions_def)
  ultimately show "of_bool (cached t a) + count_list (used @ used') (t, True) \<le> (of_bool (cached t c) :: nat)"
    by simp
qed

text \<open>What a resolution below a rank does to a sound container.\<close>

definition sound :: "(string \<Rightarrow> nat) \<Rightarrow> 's container \<Rightarrow> bool" where
  "sound rank c \<longleftrightarrow> container_ok c \<and> acyclic_services rank c"

definition settled :: "(string \<Rightarrow> nat) \<Rightarrow> nat \<Rightarrow> 's container \<Rightarrow> 's outcome \<Rightarrow> bool" where
  "settled rank n c out \<longleftrightarrow> (case out of (r, c', used) \<Rightarrow>
     extends c c' \<and> keeps_instances c c' \<and> constructions c used c'
     \<and> (\<forall>(u, b) \<in> set used. rank u < n) \<and> r \<noteq> Inl recursion_error)"

lemma sound_extends: "extends c c' \<Longrightarrow> sound rank c \<Longrightarrow> sound rank c'"
  unfolding sound_def using acyclic_extends[of c c' rank] by (simp add: extends_def)

lemma settled_idle: "r \<noteq> Inl recursion_error \<Longrightarrow> settled rank n c (r, c, [])"
  by (simp add: settled_def)

lemma settled_trans:
  assumes "settled rank n c (r, c1, used)" and "settled rank n c1 (r', c2, used')"
  shows "settled rank n c (r', c2, used @ used')"
proof -
  have "extends c c1" "extends c1 c2" using assms by (simp_all add: settled_def)
  then have "sc_singletons c2 = sc_singletons c1" by (simp add: extends_def)
  then have "constructions c (used @ used') c2"
    using assms by (intro constructions_trans[of c used c1]) (simp_all add: settled_def)
  then show ?thesis
    using assms unfolding settled_def by (auto intro: extends_trans keeps_instances_trans)
qed

lemma run_factory_settled:
  assumes rs: "\<And>t c. rank t < n \<Longrightarrow> sound rank c \<Longrightarrow> settled rank n c (rs t c)"
  shows "resolves_below rank n f \<Longrightarrow> sound rank c \<Longrightarrow> settled rank n c (run_factory rs f c)"
proof (induction f arbitrary: c)
  case (FResolve t k)
  obtain r1 c1 used1 where step: "rs t c = (r1, c1, used1)" by (cases "rs t c")
  with rs[of t c] FResolve.prems have settled: "settled rank n c (r1, c1, used1)" by simp
  then have "r1 \<noteq> Inl recursion_error" "sound rank c1"
    using FResolve.prems(2) by (auto simp: settled_def intro: sound_extends)
  then have next_step: "settled rank n c1 (run_factory rs (k r1) c1)"
    using FResolve.prems(1) by (intro FResolve.IH) auto
  obtain r2 c2 used2 where go: "run_factory rs (k r1) c1 = (r2, c2, used2)" by (cases "run_factory rs (k r1) c1")
  from settled_trans[OF settled next_step[unfolded go]] show ?case by (simp add: step go)
qed (simp_all add: settled_idle)

text \<open>The instance a factory returned is new to the cache: nothing its call invoked has its rank.\<close>

lemma cache_settled:
  assumes settled: "settled rank (rank t) c (Inr i, c1, used)" and ok: "container_ok c"
    and new: "map_of (sc_instances c) t = None" and f: "map_of (sc_factories c) t = Some f"
  shows "settled rank (Suc (rank t)) c (Inr i,
    if map_of (sc_singletons c1) t = Some True
    then c1\<lparr>sc_instances := AList.update t i (sc_instances c1)\<rparr> else c1, (t, True) # used)"
proof (cases "map_of (sc_singletons c1) t = Some True")
  case True
  let ?c = "c1\<lparr>sc_instances := AList.update t i (sc_instances c1)\<rparr>"
  from settled have ext: "extends c c1" and keeps: "keeps_instances c c1" and con: "constructions c used c1"
    and ranks: "\<forall>(u, b) \<in> set used. rank u < rank t" by (simp_all add: settled_def)
  have "map_of (sc_factories c1) t = Some f" using ext f by (simp add: extends_def)
  then have "extends c ?c" using ext cache_instance_extends[OF True] extends_trans by blast
  moreover have "keeps_instances c ?c" using keeps new by (auto simp: keeps_instances_def)
  moreover have "constructions c ((t, True) # used) ?c"
    unfolding constructions_def
  proof (intro allI impI)
    fix s
    assume "map_of (sc_singletons ?c) s \<noteq> Some False"
    then have s: "of_bool (cached s c) + count_list used (s, True) \<le> (of_bool (cached s c1) :: nat)"
      using con by (simp add: constructions_def)
    show "of_bool (cached s c) + count_list ((t, True) # used) (s, True) \<le> (of_bool (cached s ?c) :: nat)"
    proof (cases "s = t")
      case True
      moreover have "count_list used (t, True) = 0" using ranks by (auto simp: count_list_0_iff)
      ultimately show ?thesis using new by (simp add: cached_def)
    next
      case False
      with s show ?thesis by (simp add: cached_def)
    qed
  qed
  ultimately show ?thesis using True ranks by (auto simp: settled_def)
next
  case False
  from settled have ext: "extends c c1" by (simp add: settled_def)
  then have "container_ok c1" "map_of (sc_factories c1) t = Some f" using ok f by (simp_all add: extends_def)
  then have "map_of (sc_singletons c1) t \<noteq> None" by (simp add: container_ok_def)
  with False have flag: "map_of (sc_singletons c1) t = Some False" by auto
  then have "constructions c ((t, True) # used) c1" using settled by (auto simp: settled_def constructions_def)
  then show ?thesis using settled flag by (auto simp: settled_def)
qed

lemma resolve_with_settled:
  assumes rs: "\<And>u c. rank u < rank t \<Longrightarrow> sound rank c \<Longrightarrow> settled rank (rank t) c (rs u c)"
    and sound: "sound rank c"
  shows "settled rank (Suc (rank t)) c (resolve_with rs t c)"
proof (cases "map_of (sc_instances c) t")
  case (Some i)
  then show ?thesis by (simp add: resolve_with_def settled_idle)
next
  case None
  show ?thesis
  proof (cases "map_of (sc_factories c) t")
    case (Some f)
    then have below: "resolves_below rank (rank t) f" using sound by (simp add: sound_def acyclic_services_def)
    obtain r c1 used where run: "run_factory rs f c = (r, c1, used)" by (cases "run_factory rs f c")
    have "settled rank (rank t) c (run_factory rs f c)" using rs below sound by (rule run_factory_settled)
    then have settled: "settled rank (rank t) c (r, c1, used)" unfolding run .
    show ?thesis
    proof (cases r)
      case (Inl e)
      have "settled rank (Suc (rank t)) c (Inl e, c1, (t, False) # used)"
        using settled Inl by (auto simp: settled_def constructions_def)
      then show ?thesis by (simp add: resolve_with_def None Some run Inl)
    next
      case (Inr i)
      from cache_settled[OF settled[unfolded Inr] _ None Some] sound show ?thesis
        by (simp add: resolve_with_def None Some run Inr sound_def)
    qed
  qed (simp add: resolve_with_def None settled_idle)
qed

lemma settled_mono: "settled rank n c out \<Longrightarrow> n \<le> m \<Longrightarrow> settled rank m c out"
  unfolding settled_def by (fastforce split: prod.splits)

lemma resolve_settled: "rank t \<le> n \<Longrightarrow> sound rank c \<Longrightarrow> settled rank (Suc (rank t)) c (resolve n t c)"
proof (induction n arbitrary: t c)
  case 0
  then show ?case unfolding resolve.simps by (intro resolve_with_settled) simp_all
next
  case (Suc n)
  have "settled rank (rank t) c' (resolve n u c')" if "rank u < rank t" "sound rank c'"
    for u and c' :: "'a container"
  proof (rule settled_mono[of rank "Suc (rank u)"])
    have "rank u \<le> n" using that(1) Suc.prems(1) by linarith
    then show "settled rank (Suc (rank u)) c' (resolve n u c')" using that(2) by (rule Suc.IH)
    show "Suc (rank u) \<le> rank t" using that(1) by simp
  qed
  then show ?case unfolding resolve.simps using Suc.prems(2) by (rule resolve_with_settled)
qed

section \<open>Whole histories\<close>

text \<open>The factories registered resolve downwards, and the recursion limit is not below the rank of
  what is resolved.\<close>

fun call_below :: "(string \<Rightarrow> nat) \<Rightarrow> 's container_call \<Rightarrow> bool" where
  "call_below rank (CRegister t f singleton) = resolves_below rank (rank t) f"
| "call_below rank (CInstance t i) = True"
| "call_below rank (CResolve n t) = (rank t \<le> n)"

definition keeps_flags :: "'s container \<Rightarrow> 's container \<Rightarrow> bool" where
  "keeps_flags c c' \<longleftrightarrow> (\<forall>t b. map_of (sc_singletons c) t = Some b \<longrightarrow> map_of (sc_singletons c') t = Some b)"

lemma keeps_flags_not: "keeps_flags c c' \<Longrightarrow> map_of (sc_singletons c') t \<noteq> Some False \<Longrightarrow>
    map_of (sc_singletons c) t \<noteq> Some False"
  by (auto simp: keeps_flags_def)

text \<open>What a call, or a sequence of calls, does.\<close>

definition progress :: "(string \<Rightarrow> nat) \<Rightarrow> 's container \<Rightarrow> invocations \<Rightarrow> 's container \<Rightarrow> bool" where
  "progress rank c used c' \<longleftrightarrow>
     sound rank c' \<and> keeps_flags c c' \<and> keeps_instances c c' \<and> constructions c used c'"

text \<open>An instance a singleton was resolved to is the one that is cached.\<close>

definition answered_by :: "'s container \<Rightarrow> 's container_call \<Rightarrow> 's option res \<Rightarrow> bool" where
  "answered_by c call r \<longleftrightarrow> (\<forall>n t i. call = CResolve n t \<and> r = Inr (Some i)
     \<and> map_of (sc_singletons c) t = Some True \<longrightarrow> map_of (sc_instances c) t = Some i)"

lemma register_progress:
  assumes "register t f singleton c = Inr c'" and "resolves_below rank (rank t) f" and "sound rank c"
  shows "progress rank c [] c'"
proof -
  have c': "c' = c\<lparr>sc_factories := AList.update t f (sc_factories c),
      sc_singletons := AList.update t singleton (sc_singletons c)\<rparr>" and new: "\<not> is_registered t c"
    using assms(1) by (auto simp: register_def split: if_splits)
  have ok: "container_ok c" using assms(3) by (simp add: sound_def)
  with new have "map_of (sc_singletons c) t = None" "map_of (sc_instances c) t = None"
    by (auto simp: container_ok_def is_registered_def has_key_def)
  then show ?thesis
    using assms register_ok[OF ok assms(1)]
    by (auto simp: progress_def sound_def acyclic_services_def keeps_flags_def keeps_instances_def constructions_def
        cached_def c')
qed

lemma register_instance_progress:
  assumes "register_instance t i c = Inr c'" and "sound rank c"
  shows "progress rank c [] c'"
proof -
  have c': "c' = c\<lparr>sc_instances := AList.update t i (sc_instances c),
      sc_singletons := AList.update t True (sc_singletons c)\<rparr>" and new: "\<not> is_registered t c"
    using assms(1) by (auto simp: register_instance_def split: if_splits)
  have ok: "container_ok c" using assms(2) by (simp add: sound_def)
  with new have "map_of (sc_singletons c) t = None" "map_of (sc_instances c) t = None"
    by (auto simp: container_ok_def is_registered_def has_key_def)
  then show ?thesis
    using assms(2) register_instance_ok[OF ok assms(1)]
    by (auto simp: progress_def sound_def acyclic_services_def keeps_flags_def keeps_instances_def constructions_def
        cached_def c')
qed

lemma progress_refl: "sound rank c \<Longrightarrow> progress rank c [] c"
  by (simp add: progress_def keeps_flags_def)

lemma resolve_registered:
  assumes "container_ok c" and "resolve n t c = (Inr i, c', used)"
  shows "map_of (sc_singletons c) t \<noteq> None"
proof -
  have "map_of (sc_instances c) t \<noteq> None \<or> map_of (sc_factories c) t \<noteq> None"
    using assms(2) by (cases n) (auto simp: resolve_with_def split: option.splits)
  with assms(1) show ?thesis by (auto simp: container_ok_def)
qed

lemma container_do_progress:
  assumes "call_below rank call" and sound: "sound rank c" and run: "container_do call c = (r, c', used)"
  shows "progress rank c used c' \<and> answered_by c' call r \<and> r \<noteq> Inl recursion_error"
proof (cases call)
  case (CRegister t f singleton)
  with assms show ?thesis
    using register_progress[of t f singleton c c' rank] progress_refl[OF sound]
    by (auto simp: answered_by_def register_def already_registered_def recursion_error_def split: if_splits)
next
  case (CInstance t i)
  with assms show ?thesis
    using register_instance_progress[of t i c c' rank] progress_refl[OF sound]
    by (auto simp: answered_by_def register_instance_def already_registered_def recursion_error_def split: if_splits)
next
  case (CResolve n t)
  obtain x where x: "resolve n t c = (x, c', used)" "r = rbind x (\<lambda>i. Inr (Some i))"
    using run CResolve by (auto split: prod.splits)
  have settled: "settled rank (Suc (rank t)) c (x, c', used)"
    using resolve_settled[of rank t n c] assms(1) sound CResolve x(1) by simp
  then have ext: "extends c c'" by (simp add: settled_def)
  then have "progress rank c used c'"
    using settled sound_extends[OF ext sound] by (simp add: progress_def settled_def keeps_flags_def extends_def)
  moreover have "map_of (sc_instances c') t = Some i" if "x = Inr i" "map_of (sc_singletons c') t = Some True" for i
    using resolve_caches[of c t n i c' used] that x(1) ext sound by (simp add: extends_def sound_def)
  then have "answered_by c' call r" using CResolve x(2) by (auto simp: answered_by_def rbind_Inr_iff)
  moreover have "r \<noteq> Inl recursion_error" using x(2) settled by (cases x) (auto simp: settled_def)
  ultimately show ?thesis by blast
qed

lemma progress_trans: "progress rank c used c1 \<Longrightarrow> progress rank c1 used' c2 \<Longrightarrow> progress rank c (used @ used') c2"
  unfolding progress_def
  by (auto simp: keeps_flags_def intro: keeps_instances_trans constructions_trans)

lemma answered_by_later:
  assumes "answered_by c call r" and "keeps_flags c c'" and "keeps_instances c c'"
    and "\<And>n t i. call = CResolve n t \<Longrightarrow> r = Inr (Some i) \<Longrightarrow> map_of (sc_singletons c) t \<noteq> None"
  shows "answered_by c' call r"
  unfolding answered_by_def
proof (intro allI impI)
  fix n t i
  assume asm: "call = CResolve n t \<and> r = Inr (Some i) \<and> map_of (sc_singletons c') t = Some True"
  with assms(4) obtain b where "map_of (sc_singletons c) t = Some b" by blast
  moreover from this have "b" using assms(2) asm by (auto simp: keeps_flags_def)
  ultimately show "map_of (sc_instances c') t = Some i"
    using assms(1,3) asm by (simp add: answered_by_def keeps_instances_def)
qed

lemma container_do_registered:
  assumes "sound rank c" and "container_do (CResolve n t) c = (Inr (Some i), c', used)"
  shows "map_of (sc_singletons c') t \<noteq> None"
proof -
  have "resolve n t c = (Inr i, c', used)" using assms(2) by (auto simp: rbind_Inr_iff split: prod.splits)
  with resolve_registered[of c n t i] resolve_extends assms(1) show ?thesis
    by (fastforce simp: sound_def extends_def)
qed

lemma container_run_progress:
  "list_all (call_below rank) calls \<Longrightarrow> sound rank c \<Longrightarrow> container_run calls c = (rs, c', used) \<Longrightarrow>
    progress rank c used c' \<and> list_all2 (answered_by c') calls rs \<and> Inl recursion_error \<notin> set rs"
proof (induction calls arbitrary: c rs used)
  case (Cons call calls)
  obtain r c1 used1 where step: "container_do call c = (r, c1, used1)" by (cases "container_do call c")
  obtain rs2 used2 where rest: "container_run calls c1 = (rs2, c', used2)" "rs = r # rs2" "used = used1 @ used2"
    using Cons.prems(3) step by (auto split: prod.splits)
  have first: "progress rank c used1 c1" "answered_by c1 call r" "r \<noteq> Inl recursion_error"
    using container_do_progress[OF _ Cons.prems(2) step] Cons.prems(1) by simp_all
  then have "sound rank c1" by (simp add: progress_def)
  with Cons.IH[OF _ _ rest(1)] Cons.prems(1)
  have later: "progress rank c1 used2 c'" "list_all2 (answered_by c') calls rs2" "Inl recursion_error \<notin> set rs2"
    by simp_all
  have "keeps_flags c1 c'" "keeps_instances c1 c'" using later(1) by (simp_all add: progress_def)
  with first(2) have "answered_by c' call r"
  proof (rule answered_by_later)
    fix n t i
    assume "call = CResolve n t" "r = Inr (Some i)"
    with container_do_registered[OF Cons.prems(2)] step show "map_of (sc_singletons c1) t \<noteq> None" by blast
  qed
  with progress_trans[OF first(1) later(1)] first(3) later(2,3) show ?case by (simp add: rest(2,3))
qed (simp add: progress_refl)

section \<open>Properties\<close>

text \<open>C29 Over every history of registrations and resolutions of a new container whose factories
  resolve strictly downwards, under a recursion limit that is not below the ranks resolved: a
  singleton's factory returns an instance at most once, over all resolutions together, nested ones
  included; every resolution of a singleton that returns gives the one instance that is cached at
  the end, and further resolutions of it give that instance, invoke nothing and change nothing, at
  any depth; and the recursion limit is never hit. (A factory that resolves its own service again
  is the case left out: \<open>reentrant_singleton\<close>.)\<close>

theorem singleton_constructed_once:
  assumes "list_all (call_below rank) calls" and "container_run calls empty_container = (rs, c, used)"
  shows "container_ok c
    \<and> (\<forall>t. map_of (sc_singletons c) t = Some True \<longrightarrow> count_list used (t, True) \<le> 1)
    \<and> list_all2 (\<lambda>call r. \<forall>n t i. call = CResolve n t \<and> r = Inr (Some i) \<and> map_of (sc_singletons c) t = Some True
        \<longrightarrow> map_of (sc_instances c) t = Some i \<and> (\<forall>m. resolve m t c = (Inr i, c, []))) calls rs
    \<and> Inl recursion_error \<notin> set rs"
proof -
  have "sound rank empty_container"
    using empty_container_ok by (simp add: sound_def acyclic_services_def empty_container_def)
  from container_run_progress[OF assms(1) this assms(2)]
  have run: "progress rank empty_container used c" "list_all2 (answered_by c) calls rs" "Inl recursion_error \<notin> set rs"
    by simp_all
  then have "container_ok c" by (simp add: progress_def sound_def)
  moreover have "count_list used (t, True) \<le> 1" if "map_of (sc_singletons c) t = Some True" for t
  proof -
    have "of_bool (cached t (empty_container :: 'a container)) + count_list used (t, True) \<le> (of_bool (cached t c) :: nat)"
      using run(1) that by (simp add: progress_def constructions_def)
    then show ?thesis by (cases "cached t c") simp_all
  qed
  moreover have "list_all2 (\<lambda>call r. \<forall>n t i. call = CResolve n t \<and> r = Inr (Some i) \<and> map_of (sc_singletons c) t = Some True
        \<longrightarrow> map_of (sc_instances c) t = Some i \<and> (\<forall>m. resolve m t c = (Inr i, c, []))) calls rs"
    using run(2) by (rule list_all2_mono) (auto simp: answered_by_def resolve_cached)
  ultimately show ?thesis using run(3) by blast
qed

text \<open>A singleton \<open>B\<close> over a singleton \<open>A\<close>, both resolved twice.\<close>

definition demo_calls :: "nat container_call list" where
  "demo_calls = [CRegister ''A'' (FReturn 1) True,
     CRegister ''B'' (FResolve ''A'' (\<lambda>r. case r of Inl e \<Rightarrow> FReturn 0 | Inr n \<Rightarrow> FReturn (Suc n))) True,
     CResolve 1 ''B'', CResolve 1 ''A'', CResolve 1 ''B'']"

theorem singleton_constructed_once_witness:
  "\<exists>c. container_run demo_calls empty_container =
      ([Inr None, Inr None, Inr (Some 2), Inr (Some 1), Inr (Some 2)], c, [(''B'', True), (''A'', True)])
    \<and> resolve 0 ''B'' c = (Inr 2, c, [])"
proof -
  obtain c where run: "container_run demo_calls empty_container =
      ([Inr None, Inr None, Inr (Some 2), Inr (Some 1), Inr (Some 2)], c, [(''B'', True), (''A'', True)])"
    and B: "map_of (sc_singletons c) ''B'' = Some True"
    by (simp add: demo_calls_def register_def is_registered_def has_key_def empty_container_def resolve_with_def)
  have "list_all (call_below (\<lambda>t. if t = ''B'' then 1 else 0)) demo_calls"
    by (simp add: demo_calls_def split: sum.split)
  from singleton_constructed_once[OF this run] B have "resolve 0 ''B'' c = (Inr 2, c, [])"
    by (auto simp: demo_calls_def)
  with run show ?thesis by blast
qed

text \<open>
  A singleton whose factory resolves its own service and goes on whatever comes back is
  constructed once per level of nesting, each instance replacing the one cached before.
\<close>

definition reentrant_container :: "nat container" where
  "reentrant_container = \<lparr>sc_factories = [(''A'', FResolve ''A'' (\<lambda>r. case r of Inl e \<Rightarrow> FReturn 0 | Inr i \<Rightarrow> FReturn (Suc i)))],
     sc_singletons = [(''A'', True)], sc_instances = []\<rparr>"

lemma reentrant_singleton:
  "resolve n ''A'' reentrant_container =
     (Inr n, reentrant_container\<lparr>sc_instances := [(''A'', n)]\<rparr>, replicate (Suc n) (''A'', True))"
proof (induction n)
  case (Suc n)
  then show ?case by (simp add: resolve_with_def reentrant_container_def)
qed (simp add: resolve_with_def reentrant_container_def)

end
