(* ===== verification/Runtime.thy ===== *)
theory Runtime
  imports Values
begin

text \<open>
  The kernel's root logger (\<open>core/logging.py\<close>) and its lifecycle
  (\<open>core/runtime.py\<close>): the state machine of \<open>start\<close> and \<open>shutdown\<close> over the
  kernel and the logger it configures, and the health report.
\<close>

section \<open>Logging\<close>

text \<open>\<open>logging.getLevelNamesMapping()\<close> as the standard library starts out.\<close>

definition level_names :: "(string, int) dict" where
  "level_names = [(''CRITICAL'', 50), (''FATAL'', 50), (''ERROR'', 40), (''WARN'', 30),
     (''WARNING'', 30), (''INFO'', 20), (''DEBUG'', 10), (''NOTSET'', 0)]"

definition valid_level_text :: string where
  "valid_level_text = join '', '' (sort (filter (\<lambda>n. n \<noteq> ''NOTSET'') (keys level_names)))"

definition resolve_level :: "string \<Rightarrow> int res" where
  "resolve_level name =
     (case map_of level_names name of
        Some l \<Rightarrow> Inr l
      | None \<Rightarrow> Inl (Exn ConfigurationError (''Invalid log level '' @ repr_str name
          @ ''; expected one of: '' @ valid_level_text @ ''.'')))"

text \<open>
  A handler of the root logger: a console handler that \<open>configure_logging\<close> marked as its
  own, or another one (a file handler, or one the application attached), with its level.
\<close>

datatype handler = ConsoleHandler | FileHandler string "int option" | OtherHandler string

record root_logger =
  lg_level :: int
  lg_propagate :: bool
  lg_handlers :: "handler list"

definition configure_logging :: "string \<Rightarrow> (root_logger, unit) py" where
  "configure_logging log_level =
     bnd (lift_res (resolve_level log_level)) (\<lambda>level.
     (\<lambda>lg. (Inr (), \<lparr>lg_level = level, lg_propagate = False,
        lg_handlers = filter (\<lambda>h. h \<noteq> ConsoleHandler) (lg_handlers lg) @ [ConsoleHandler]\<rparr>)))"

text \<open>
  \<open>open_log path\<close> makes the parent directories and opens the file for appending, which the
  process may refuse; it happens before the level is looked at.
\<close>

definition add_file_handler ::
  "(string \<Rightarrow> ('f, unit) py) \<Rightarrow> string \<Rightarrow> string option \<Rightarrow> (root_logger \<times> 'f, handler) py" where
  "add_file_handler open_log path level = (\<lambda>(lg, files).
     case open_log path files of
       (Inl e, files') \<Rightarrow> (Inl e, lg, files')
     | (Inr _, files') \<Rightarrow>
         (case (case level of None \<Rightarrow> Inr None | Some name \<Rightarrow> rbind (resolve_level name) (\<lambda>n. Inr (Some n))) of
            Inl e \<Rightarrow> (Inl e, lg, files')
          | Inr l \<Rightarrow> (Inr (FileHandler path l), lg\<lparr>lg_handlers := lg_handlers lg @ [FileHandler path l]\<rparr>, files')))"

section \<open>The kernel\<close>

datatype kernel_state = NOT_STARTED | STARTING | RUNNING | STOPPING | STOPPED | FAILED

fun kernel_state_value :: "kernel_state \<Rightarrow> string" where
  "kernel_state_value NOT_STARTED = ''not_started''"
| "kernel_state_value STARTING = ''starting''"
| "kernel_state_value RUNNING = ''running''"
| "kernel_state_value STOPPING = ''stopping''"
| "kernel_state_value STOPPED = ''stopped''"
| "kernel_state_value FAILED = ''failed''"

record kernel =
  k_log_level :: string
  k_state :: kernel_state
  k_failure :: "string option"

record health_status =
  hs_healthy :: bool
  hs_state :: kernel_state
  hs_detail :: string

definition new_kernel :: "string \<Rightarrow> kernel" where
  "new_kernel log_level = \<lparr>k_log_level = log_level, k_state = NOT_STARTED, k_failure = None\<rparr>"

definition kernel_start :: "(kernel \<times> root_logger, unit) py" where
  "kernel_start = (\<lambda>(k, lg).
     if k_state k \<notin> {NOT_STARTED, STOPPED, FAILED}
     then (Inl (Exn StartupError (''Cannot start kernel from state ''
              @ repr_str (kernel_state_value (k_state k)) @ ''.'')), (k, lg))
     else
       let k1 = k\<lparr>k_state := STARTING, k_failure := None\<rparr> in
       (case configure_logging (k_log_level k1) lg of
          (Inl e, lg') \<Rightarrow>
            (Inl (Exn StartupError (''Kernel startup failed: '' @ exn_text e)),
             (k1\<lparr>k_state := FAILED, k_failure := Some (exn_text e)\<rparr>, lg'))
        | (Inr _, lg') \<Rightarrow> (Inr (), (k1\<lparr>k_state := RUNNING\<rparr>, lg'))))"

definition kernel_shutdown :: "(kernel \<times> root_logger, unit) py" where
  "kernel_shutdown = (\<lambda>(k, lg).
     if k_state k \<noteq> RUNNING then (Inr (), (k, lg))
     else let k1 = k\<lparr>k_state := STOPPING\<rparr> in (Inr (), (k1\<lparr>k_state := STOPPED\<rparr>, lg)))"

definition kernel_health :: "kernel \<Rightarrow> health_status" where
  "kernel_health k =
     (if k_state k = RUNNING then \<lparr>hs_healthy = True, hs_state = k_state k, hs_detail = []\<rparr>
      else if k_state k = FAILED then
        \<lparr>hs_healthy = False, hs_state = k_state k,
         hs_detail = str_or (k_failure k) ''Kernel failed to start.''\<rparr>
      else \<lparr>hs_healthy = False, hs_state = k_state k,
            hs_detail = ''Kernel is not running (state='' @ kernel_state_value (k_state k) @ '').''\<rparr>)"

section \<open>Lemmas on logging\<close>

lemma configure_logging_cases:
  obtains (invalid) e where "resolve_level l = Inl e" "configure_logging l lg = (Inl e, lg)"
  | (valid) n where "resolve_level l = Inr n"
      "configure_logging l lg = (Inr (), \<lparr>lg_level = n, lg_propagate = False,
         lg_handlers = filter (\<lambda>h. h \<noteq> ConsoleHandler) (lg_handlers lg) @ [ConsoleHandler]\<rparr>)"
proof (cases "resolve_level l")
  case (Inl e)
  show ?thesis by (rule invalid[OF Inl]) (simp add: configure_logging_def bnd_def Inl)
next
  case (Inr n)
  show ?thesis by (rule valid[OF Inr]) (simp add: configure_logging_def bnd_def Inr)
qed

lemma resolve_level_not_blank: "resolve_level l = Inl e \<Longrightarrow> \<not> blank (exn_text e)"
  by (auto simp: resolve_level_def py_isspace_def Let_def split: option.splits)

lemma configure_logging_result:
  assumes "configure_logging l lg = (Inr (), lg')"
  obtains n where "resolve_level l = Inr n"
    "lg' = \<lparr>lg_level = n, lg_propagate = False,
       lg_handlers = filter (\<lambda>h. h \<noteq> ConsoleHandler) (lg_handlers lg) @ [ConsoleHandler]\<rparr>"
proof (cases rule: configure_logging_cases[of l lg])
  case (invalid e)
  with assms show ?thesis by simp
next
  case (valid n)
  with assms that show ?thesis by simp
qed

lemma configure_logging_one_console:
  assumes "configure_logging l lg = (Inr (), lg')"
  shows "filter (\<lambda>h. h = ConsoleHandler) (lg_handlers lg') = [ConsoleHandler]"
    and "filter (\<lambda>h. h \<noteq> ConsoleHandler) (lg_handlers lg') = filter (\<lambda>h. h \<noteq> ConsoleHandler) (lg_handlers lg)"
proof -
  obtain n where "lg' = \<lparr>lg_level = n, lg_propagate = False,
       lg_handlers = filter (\<lambda>h. h \<noteq> ConsoleHandler) (lg_handlers lg) @ [ConsoleHandler]\<rparr>"
    using assms by (rule configure_logging_result)
  then show "filter (\<lambda>h. h = ConsoleHandler) (lg_handlers lg') = [ConsoleHandler]"
    and "filter (\<lambda>h. h \<noteq> ConsoleHandler) (lg_handlers lg') = filter (\<lambda>h. h \<noteq> ConsoleHandler) (lg_handlers lg)"
    by simp_all
qed

lemma configure_logging_idempotent:
  assumes "configure_logging l lg = (Inr (), lg')"
  shows "configure_logging l lg' = (Inr (), lg')"
proof -
  obtain n where n: "resolve_level l = Inr n" and lg': "lg' = \<lparr>lg_level = n, lg_propagate = False,
       lg_handlers = filter (\<lambda>h. h \<noteq> ConsoleHandler) (lg_handlers lg) @ [ConsoleHandler]\<rparr>"
    using assms by (rule configure_logging_result)
  show ?thesis by (simp add: configure_logging_def bnd_def n lg')
qed

section \<open>The lifecycle as a state machine\<close>

inductive kernel_step :: "kernel \<times> root_logger \<Rightarrow> kernel \<times> root_logger \<Rightarrow> bool" where
  step_start: "kernel_start s = (r, s') \<Longrightarrow> kernel_step s s'"
| step_shutdown: "kernel_shutdown s = (r, s') \<Longrightarrow> kernel_step s s'"

inductive kernel_reachable :: "string \<Rightarrow> kernel \<times> root_logger \<Rightarrow> bool" for l where
  reach_init: "kernel_reachable l (new_kernel l, lg)"
| reach_step: "kernel_reachable l s \<Longrightarrow> kernel_step s s' \<Longrightarrow> kernel_reachable l s'"

text \<open>Between calls the kernel rests in one of four states and knows why it failed.\<close>

definition kernel_ok :: "string \<Rightarrow> kernel \<Rightarrow> bool" where
  "kernel_ok l k \<longleftrightarrow> k_log_level k = l \<and> k_state k \<in> {NOT_STARTED, RUNNING, STOPPED, FAILED}
     \<and> (k_state k = FAILED \<longleftrightarrow> k_failure k \<noteq> None)
     \<and> (\<forall>m. k_failure k = Some m \<longrightarrow> \<not> blank m)
     \<and> (k_state k = RUNNING \<longrightarrow> (\<exists>n. resolve_level l = Inr n))"

lemma kernel_start_cases:
  assumes "kernel_start (k, lg) = (r, s')"
  obtains (refused) m where "k_state k \<in> {STARTING, RUNNING, STOPPING}"
      "r = Inl (Exn StartupError m)" "s' = (k, lg)"
  | (failed) e where "k_state k \<in> {NOT_STARTED, STOPPED, FAILED}" "resolve_level (k_log_level k) = Inl e"
      "r = Inl (Exn StartupError (''Kernel startup failed: '' @ exn_text e))"
      "s' = (k\<lparr>k_state := FAILED, k_failure := Some (exn_text e)\<rparr>, lg)"
  | (running) n lg' where "k_state k \<in> {NOT_STARTED, STOPPED, FAILED}" "resolve_level (k_log_level k) = Inr n"
      "r = Inr ()" "s' = (k\<lparr>k_state := RUNNING, k_failure := None\<rparr>, lg')"
      "configure_logging (k_log_level k) lg = (Inr (), lg')"
proof (cases "k_state k \<in> {NOT_STARTED, STOPPED, FAILED}")
  case False
  then have "k_state k \<in> {STARTING, RUNNING, STOPPING}" by (cases "k_state k") auto
  with False assms show ?thesis by (intro refused) (auto simp: kernel_start_def)
next
  case True
  show ?thesis
  proof (cases rule: configure_logging_cases[of "k_log_level k" lg])
    case invalid
    with True assms show ?thesis by (intro failed) (auto simp: kernel_start_def Let_def)
  next
    case valid
    with True assms show ?thesis by (intro running) (auto simp: kernel_start_def Let_def)
  qed
qed

lemma kernel_step_ok:
  assumes "kernel_step (k, lg) (k', lg')" and "kernel_ok l k"
  shows "kernel_ok l k'"
  using assms(1)
proof (cases rule: kernel_step.cases)
  case (step_start r)
  then show ?thesis
    by (cases rule: kernel_start_cases) (use assms(2) in \<open>auto simp: kernel_ok_def dest: resolve_level_not_blank\<close>)
next
  case (step_shutdown r)
  then show ?thesis using assms(2)
    by (auto simp: kernel_shutdown_def kernel_ok_def Let_def split: if_splits)
qed

lemma kernel_reachable_ok: "kernel_reachable l s \<Longrightarrow> kernel_ok l (fst s)"
proof (induction rule: kernel_reachable.induct)
  case (reach_init lg)
  then show ?case by (simp add: kernel_ok_def new_kernel_def)
next
  case (reach_step s s')
  then show ?case by (cases s; cases s') (auto intro: kernel_step_ok)
qed

section \<open>Properties\<close>

text \<open>C30 The kernel between any calls of \<open>start\<close> and \<open>shutdown\<close>: it rests in one of four
  states, a failure is remembered with a message exactly while it has failed, it runs only if
  its log level names a level, and then starting is refused and changes nothing; health is
  reported healthy exactly while it runs. Starting never adds a second console handler.\<close>

theorem kernel_lifecycle:
  assumes "kernel_reachable l (k, lg)"
  shows "kernel_ok l k \<and> (hs_healthy (kernel_health k) \<longleftrightarrow> k_state k = RUNNING)
    \<and> (k_state k = RUNNING \<longrightarrow> (\<exists>m. kernel_start (k, lg) = (Inl (Exn StartupError m), k, lg)))
    \<and> (kernel_start (k, lg) = (Inr (), k', lg') \<longrightarrow> k_state k' = RUNNING
        \<and> filter (\<lambda>h. h = ConsoleHandler) (lg_handlers lg') = [ConsoleHandler])"
proof (intro conjI impI)
  show "kernel_ok l k" using kernel_reachable_ok[OF assms] by simp
  show "hs_healthy (kernel_health k) \<longleftrightarrow> k_state k = RUNNING" by (simp add: kernel_health_def)
  show "\<exists>m. kernel_start (k, lg) = (Inl (Exn StartupError m), k, lg)" if "k_state k = RUNNING"
    using that by (simp add: kernel_start_def)
  assume start: "kernel_start (k, lg) = (Inr (), k', lg')"
  show "k_state k' = RUNNING" using start by (cases rule: kernel_start_cases) simp_all
  show "filter (\<lambda>h. h = ConsoleHandler) (lg_handlers lg') = [ConsoleHandler]"
    using start
  proof (cases rule: kernel_start_cases)
    case (running n lg'')
    then show ?thesis using configure_logging_one_console(1)[of "k_log_level k" lg lg''] by simp
  qed simp_all
qed

text \<open>A logger as the logging module creates it.\<close>

definition fresh_logger :: root_logger where
  "fresh_logger = \<lparr>lg_level = 0, lg_propagate = True, lg_handlers = []\<rparr>"

theorem kernel_lifecycle_witness:
  "\<exists>k' lg'. kernel_start (new_kernel ''INFO'', fresh_logger) = (Inr (), k', lg') \<and> hs_healthy (kernel_health k')"
proof -
  obtain k' lg' where start: "kernel_start (new_kernel ''INFO'', fresh_logger) = (Inr (), k', lg')"
    by (simp add: kernel_start_def new_kernel_def configure_logging_def resolve_level_def level_names_def
        bnd_def Let_def)
  from kernel_lifecycle[OF reach_init[of "''INFO''" fresh_logger]] start
  have "k_state k' = RUNNING" by auto
  moreover have "kernel_reachable ''INFO'' (k', lg')"
    using reach_step[OF reach_init step_start[OF start]] .
  ultimately show ?thesis using start kernel_lifecycle[of "''INFO''" k' lg'] by auto
qed

end
