(* ===== verification/Regex.thy ===== *)
theory Regex
  imports Prelude
begin

text \<open>
  The fragment of regular expressions the kernel's identifier patterns use: character
  classes, sequence, choice and repetition, with their languages, an executable matcher
  and its correctness. The kernel anchors its patterns in two ways: \<open>^...$\<close> with
  \<open>re.match\<close>, where \<open>$\<close> also matches before one final line feed, and
  \<open>fullmatch\<close>.
\<close>

datatype regex =
    Nothing
  | Empty
  | Chars "char \<Rightarrow> bool"
  | Seq regex regex
  | Alt regex regex
  | Many regex

definition Many1 :: "regex \<Rightarrow> regex" where
  "Many1 r = Seq r (Many r)"

primrec Upto :: "nat \<Rightarrow> regex \<Rightarrow> regex" where
  "Upto 0 r = Empty"
| "Upto (Suc n) r = Alt Empty (Seq r (Upto n r))"

primrec language :: "regex \<Rightarrow> string set" where
  "language Nothing = {}"
| "language Empty = {[]}"
| "language (Chars p) = {[c] | c. p c}"
| "language (Seq a b) = {s @ t | s t. s \<in> language a \<and> t \<in> language b}"
| "language (Alt a b) = language a \<union> language b"
| "language (Many a) = {concat ss | ss. set ss \<subseteq> language a}"

primrec accepts_empty :: "regex \<Rightarrow> bool" where
  "accepts_empty Nothing = False"
| "accepts_empty Empty = True"
| "accepts_empty (Chars p) = False"
| "accepts_empty (Seq a b) = (accepts_empty a \<and> accepts_empty b)"
| "accepts_empty (Alt a b) = (accepts_empty a \<or> accepts_empty b)"
| "accepts_empty (Many a) = True"

text \<open>What is left to match after one character.\<close>

primrec after_char :: "char \<Rightarrow> regex \<Rightarrow> regex" where
  "after_char c Nothing = Nothing"
| "after_char c Empty = Nothing"
| "after_char c (Chars p) = (if p c then Empty else Nothing)"
| "after_char c (Seq a b) =
     (if accepts_empty a then Alt (Seq (after_char c a) b) (after_char c b)
      else Seq (after_char c a) b)"
| "after_char c (Alt a b) = Alt (after_char c a) (after_char c b)"
| "after_char c (Many a) = Seq (after_char c a) (Many a)"

fun full_match :: "regex \<Rightarrow> string \<Rightarrow> bool" where
  "full_match r [] = accepts_empty r"
| "full_match r (c # s) = full_match (after_char c r) s"

definition match_dollar :: "regex \<Rightarrow> string \<Rightarrow> bool" where
  "match_dollar r s =
     (full_match r s \<or> (s \<noteq> [] \<and> last s = CHR 0x0A \<and> full_match r (butlast s)))"

section \<open>Correctness of the matcher\<close>

lemma accepts_empty_iff: "accepts_empty r \<longleftrightarrow> [] \<in> language r"
  by (induction r) (auto intro: exI[of _ "[]"])

lemma language_ManyI: "s \<in> language a \<Longrightarrow> t \<in> language (Many a) \<Longrightarrow> s @ t \<in> language (Many a)"
  by clarsimp (metis concat.simps(2) set_ConsD subset_code(1))

lemma language_Many_step:
  "c # s \<in> language (Many a) \<longleftrightarrow> (\<exists>u v. s = u @ v \<and> c # u \<in> language a \<and> v \<in> language (Many a))"
proof
  assume "c # s \<in> language (Many a)"
  then obtain ss where "set ss \<subseteq> language a" "concat ss = c # s" by auto
  then show "\<exists>u v. s = u @ v \<and> c # u \<in> language a \<and> v \<in> language (Many a)"
  proof (induction ss)
    case (Cons w ss)
    show ?case
    proof (cases w)
      case (Cons d u)
      then show ?thesis using Cons.prems by auto
    qed (use Cons in auto)
  qed simp
next
  assume "\<exists>u v. s = u @ v \<and> c # u \<in> language a \<and> v \<in> language (Many a)"
  then show "c # s \<in> language (Many a)" using language_ManyI[of "c # _" a] by fastforce
qed

lemma language_Seq_step:
  "c # s \<in> language (Seq a b) \<longleftrightarrow>
     (\<exists>u v. s = u @ v \<and> c # u \<in> language a \<and> v \<in> language b) \<or> ([] \<in> language a \<and> c # s \<in> language b)"
  by (auto simp: Cons_eq_append_conv)

lemma after_char_language: "s \<in> language (after_char c r) \<longleftrightarrow> c # s \<in> language r"
proof (induction r arbitrary: s)
  case (Seq a b)
  have "s \<in> language (after_char c (Seq a b)) \<longleftrightarrow>
      (\<exists>u v. s = u @ v \<and> u \<in> language (after_char c a) \<and> v \<in> language b)
      \<or> (accepts_empty a \<and> s \<in> language (after_char c b))"
    by auto
  then show ?case by (simp only: language_Seq_step Seq accepts_empty_iff)
next
  case (Many a)
  have "s \<in> language (after_char c (Many a)) \<longleftrightarrow>
      (\<exists>u v. s = u @ v \<and> u \<in> language (after_char c a) \<and> v \<in> language (Many a))"
    by auto
  then show ?case by (simp only: language_Many_step Many)
qed auto

lemma full_match_iff: "full_match r s \<longleftrightarrow> s \<in> language r"
  by (induction r s rule: full_match.induct) (auto simp: accepts_empty_iff after_char_language)

lemma match_dollar_iff:
  "match_dollar r s \<longleftrightarrow> s \<in> language r \<or> (\<exists>t \<in> language r. s = t @ [CHR 0x0A])"
  by (auto simp: match_dollar_def full_match_iff) (metis append_butlast_last_id)

section \<open>Languages of the shapes in use\<close>

lemma language_Many_Chars: "language (Many (Chars p)) = {s. \<forall>c \<in> set s. p c}"
proof (intro equalityI subsetI)
  fix s assume "s \<in> {s. \<forall>c \<in> set s. p c}"
  then show "s \<in> language (Many (Chars p))"
    by (auto intro!: exI[of _ "map (\<lambda>c. [c]) s"])
qed fastforce

lemma language_Chars_Many:
  "language (Seq (Chars p) (Many (Chars q))) = {c # s | c s. p c \<and> (\<forall>d \<in> set s. q d)}"
  unfolding language.simps(4) language_Many_Chars by (force intro: exI[of _ "[_]"])

lemma language_Upto_Chars:
  "language (Upto n (Chars p)) = {s. length s \<le> n \<and> (\<forall>c \<in> set s. p c)}"
proof (induction n)
  case (Suc n)
  have "s \<in> language (Upto (Suc n) (Chars p)) \<longleftrightarrow> length s \<le> Suc n \<and> (\<forall>c \<in> set s. p c)" for s
    unfolding Upto.simps language.simps Suc
    by (cases s) (force intro: exI[of _ "[_]"])+
  then show ?case by blast
qed auto

lemma join_dots: "join ''.'' (x # xs) = x @ concat (map ((#) (CHR ''.'')) xs)"
  by (induction xs arbitrary: x) auto

end
