(* ===== verification/Registries.thy ===== *)
theory Registries
  imports Prelude
begin

text \<open>
  The contract the kernel's registries share: instances are kept under a key they carry
  themselves, registration order is kept, a second registration under a key and a lookup
  of a missing key raise. What a client may rely on is proved once here; the tool,
  provider and plugin registries interpret the contract on their own operations.
\<close>

text \<open>Registering a sequence of instances one by one, as the composition code does.\<close>

fun register_all :: "('v \<Rightarrow> 'r \<Rightarrow> 'r res) \<Rightarrow> 'v list \<Rightarrow> ('r, unit) py" where
  "register_all reg [] r = (Inr (), r)"
| "register_all reg (v # vs) r =
     (case reg v r of Inl e \<Rightarrow> (Inl e, r) | Inr r' \<Rightarrow> register_all reg vs r')"

locale registry =
  fixes key_of :: "'v \<Rightarrow> string"
    and new :: "'r"
    and register :: "'v \<Rightarrow> 'r \<Rightarrow> 'r res"
    and lookup :: "string \<Rightarrow> 'r \<Rightarrow> 'v res"
    and exists :: "string \<Rightarrow> 'r \<Rightarrow> bool"
    and listing :: "'r \<Rightarrow> string list"
    and invar :: "'r \<Rightarrow> bool"
    and duplicate :: "string \<Rightarrow> exn"
    and missing :: "string \<Rightarrow> exn"
  assumes invar_new: "invar new"
    and listing_new: "listing new = []"
    and exists_iff: "exists k r \<longleftrightarrow> k \<in> set (listing r)"
    and listing_distinct: "invar r \<Longrightarrow> distinct (listing r)"
    and register_duplicate: "exists (key_of v) r \<Longrightarrow> register v r = Inl (duplicate (key_of v))"
    and register_fresh: "\<not> exists (key_of v) r \<Longrightarrow> \<exists>r'. register v r = Inr r'"
    and register_invar: "invar r \<Longrightarrow> register v r = Inr r' \<Longrightarrow> invar r'"
    and register_listing: "register v r = Inr r' \<Longrightarrow> listing r' = listing r @ [key_of v]"
    and register_lookup: "register v r = Inr r' \<Longrightarrow>
           lookup k r' = (if k = key_of v then Inr v else lookup k r)"
    and lookup_missing: "\<not> exists k r \<Longrightarrow> lookup k r = Inl (missing k)"
    and lookup_present: "invar r \<Longrightarrow> exists k r \<Longrightarrow> \<exists>v. lookup k r = Inr v \<and> key_of v = k"
begin

lemma register_exists: "register v r = Inr r' \<Longrightarrow> exists k r' \<longleftrightarrow> k = key_of v \<or> exists k r"
  by (auto simp: exists_iff register_listing)

lemma register_iff: "(\<exists>r'. register v r = Inr r') \<longleftrightarrow> \<not> exists (key_of v) r"
  using register_duplicate[of v r] register_fresh[of v r] by auto

lemma lookup_Inr_iff: "invar r \<Longrightarrow> (\<exists>v. lookup k r = Inr v) \<longleftrightarrow> exists k r"
  using lookup_missing[of k r] lookup_present[of r k] by force

lemma lookup_key: "invar r \<Longrightarrow> lookup k r = Inr v \<Longrightarrow> key_of v = k"
  using lookup_missing[of k r] lookup_present[of r k] by fastforce

text \<open>
  A sequence of registrations succeeds exactly when its keys are new and distinct; it
  then appends them in order, and otherwise stops at the first collision with what came
  before it registered.
\<close>

lemma register_all_ok:
  "invar r \<Longrightarrow> distinct (map key_of vs) \<Longrightarrow> (\<forall>v \<in> set vs. \<not> exists (key_of v) r) \<Longrightarrow>
    \<exists>r'. register_all register vs r = (Inr (), r') \<and> invar r'
      \<and> listing r' = listing r @ map key_of vs
      \<and> (\<forall>v \<in> set vs. lookup (key_of v) r' = Inr v)
      \<and> (\<forall>k. k \<notin> key_of ` set vs \<longrightarrow> lookup k r' = lookup k r)"
proof (induction vs arbitrary: r)
  case Nil
  then show ?case by simp
next
  case (Cons v vs)
  then obtain r1 where r1: "register v r = Inr r1" using register_fresh[of v r] by auto
  with Cons.prems have inv: "invar r1" by (blast intro: register_invar)
  have fresh: "\<forall>w \<in> set vs. \<not> exists (key_of w) r1"
    using Cons.prems r1 by (auto simp: register_exists dest: image_eqI[of _ key_of, OF sym])
  obtain r' where r': "register_all register vs r1 = (Inr (), r')" "invar r'"
      "listing r' = listing r1 @ map key_of vs" "\<forall>w \<in> set vs. lookup (key_of w) r' = Inr w"
      "\<forall>k. k \<notin> key_of ` set vs \<longrightarrow> lookup k r' = lookup k r1"
    using Cons.IH[OF inv _ fresh] Cons.prems(2) by auto
  moreover have "lookup (key_of v) r' = Inr v"
    using r'(5) Cons.prems(2) register_lookup[OF r1] by auto
  ultimately show ?case using r1 by (auto simp: register_listing register_lookup)
qed

lemma register_all_Inr:
  "register_all register vs r = (Inr x, r') \<Longrightarrow>
    distinct (map key_of vs) \<and> (\<forall>v \<in> set vs. \<not> exists (key_of v) r)"
proof (induction vs arbitrary: r)
  case (Cons v vs)
  then obtain r1 where r1: "register v r = Inr r1" "register_all register vs r1 = (Inr x, r')"
    by (auto split: sum.splits)
  from Cons.IH[OF r1(2)] register_iff[of v r] r1(1) show ?case by (auto simp: register_exists[OF r1(1)])
qed simp

lemma register_all_invar: "invar r \<Longrightarrow> register_all register vs r = (x, r') \<Longrightarrow> invar r'"
  by (induction vs arbitrary: r) (auto split: sum.splits intro: register_invar)

lemma register_all_failure:
  "register_all register vs r = (Inl e, r') \<Longrightarrow>
    \<exists>us v ws. vs = us @ v # ws \<and> register_all register us r = (Inr (), r')
      \<and> exists (key_of v) r' \<and> e = duplicate (key_of v)"
proof (induction vs arbitrary: r)
  case (Cons v vs)
  show ?case
  proof (cases "register v r")
    case (Inl e')
    with Cons.prems have "e = e'" "r' = r" by auto
    with Inl have "exists (key_of v) r' \<and> e = duplicate (key_of v)"
      using register_duplicate[of v r] register_fresh[of v r] by auto
    then show ?thesis using \<open>r' = r\<close> by (intro exI[of _ "[]"]) simp
  next
    case (Inr r1)
    with Cons.prems have "register_all register vs r1 = (Inl e, r')" by simp
    from Cons.IH[OF this] obtain us w ws where "vs = us @ w # ws"
      "register_all register us r1 = (Inr (), r')" "exists (key_of w) r' \<and> e = duplicate (key_of w)"
      by blast
    with Inr show ?thesis by (intro exI[of _ "v # us"]) simp
  qed
qed simp

end

locale removable_registry = registry key_of new register lookup exists listing invar duplicate missing
  for key_of :: "'v \<Rightarrow> string" and new :: "'r" and register lookup exists listing invar
    duplicate missing +
  fixes unregister :: "string \<Rightarrow> 'r \<Rightarrow> 'r res"
  assumes unregister_missing: "\<not> exists k r \<Longrightarrow> unregister k r = Inl (missing k)"
    and unregister_present: "exists k r \<Longrightarrow> \<exists>r'. unregister k r = Inr r'"
    and unregister_invar: "invar r \<Longrightarrow> unregister k r = Inr r' \<Longrightarrow> invar r'"
    and unregister_listing: "unregister k r = Inr r' \<Longrightarrow> listing r' = filter (\<lambda>j. j \<noteq> k) (listing r)"
    and unregister_lookup: "unregister k r = Inr r' \<Longrightarrow>
           lookup j r' = (if j = k then Inl (missing k) else lookup j r)"
begin

lemma unregister_exists: "unregister k r = Inr r' \<Longrightarrow> exists j r' \<longleftrightarrow> j \<noteq> k \<and> exists j r"
  by (auto simp: exists_iff unregister_listing)

lemma unregister_register:
  assumes "invar r" and "register v r = Inr r1"
  shows "\<exists>r2. unregister (key_of v) r1 = Inr r2 \<and> listing r2 = listing r \<and> (\<forall>k. lookup k r2 = lookup k r)"
proof -
  from assms have fresh: "\<not> exists (key_of v) r" using register_iff by blast
  have "exists (key_of v) r1" using assms(2) by (simp add: register_exists)
  then obtain r2 where r2: "unregister (key_of v) r1 = Inr r2" using unregister_present by blast
  have "filter (\<lambda>j. j \<noteq> key_of v) (listing r) = listing r"
    using fresh by (auto simp: exists_iff intro: filter_True)
  then show ?thesis
    using assms r2 fresh
    by (auto simp: unregister_listing[OF r2] unregister_lookup[OF r2] register_listing
        register_lookup lookup_missing)
qed

end

section \<open>Registries kept in one dictionary\<close>

text \<open>
  All registries of the kernel are one dictionary from keys to instances with the same
  four operations: the contract holds for any of them.
\<close>

definition keyed_by :: "('v \<Rightarrow> string) \<Rightarrow> (string, 'v) dict \<Rightarrow> bool" where
  "keyed_by key_of r \<longleftrightarrow> dict_ok r \<and> (\<forall>(k, v) \<in> set r. key_of v = k)"

lemma keyed_by_lookup: "keyed_by key_of r \<Longrightarrow> map_of r k = Some v \<Longrightarrow> key_of v = k"
  by (auto simp: keyed_by_def dest: map_of_SomeD)

lemma keyed_by_add:
  "keyed_by key_of r \<Longrightarrow> key_of v \<notin> set (keys r) \<Longrightarrow> keyed_by key_of (AList.update (key_of v) v r)"
  by (auto simp: keyed_by_def update_new intro: dict_ok_append_new)

lemma keyed_by_delete: "keyed_by key_of r \<Longrightarrow> keyed_by key_of (AList.delete k r)"
  by (auto simp: keyed_by_def)

locale dict_registry =
  fixes key_of :: "'v \<Rightarrow> string"
    and register :: "'v \<Rightarrow> (string, 'v) dict \<Rightarrow> (string, 'v) dict res"
    and lookup :: "string \<Rightarrow> (string, 'v) dict \<Rightarrow> 'v res"
    and exists :: "string \<Rightarrow> (string, 'v) dict \<Rightarrow> bool"
    and duplicate :: "string \<Rightarrow> exn"
    and missing :: "string \<Rightarrow> exn"
  assumes register_eq: "register v r =
      (if has_key (key_of v) r then Inl (duplicate (key_of v)) else Inr (AList.update (key_of v) v r))"
    and lookup_eq: "lookup k r = (case map_of r k of Some v \<Rightarrow> Inr v | None \<Rightarrow> Inl (missing k))"
    and exists_eq: "exists k r = has_key k r"

sublocale dict_registry \<subseteq> registry key_of "[]" register lookup exists keys "keyed_by key_of" duplicate missing
proof (unfold_locales, goal_cases)
  case (7 r v r')
  then show ?case by (auto simp: register_eq has_key_iff intro: keyed_by_add split: if_splits)
next
  case (9 v r r' k)
  then show ?case by (auto simp: register_eq lookup_eq split: if_splits)
next
  case (10 k r)
  then show ?case by (simp add: exists_eq has_key_def lookup_eq)
next
  case (11 r k)
  then show ?case by (auto simp: exists_eq has_key_def lookup_eq intro: keyed_by_lookup)
qed (auto simp: keyed_by_def dict_ok_def exists_eq has_key_iff register_eq lookup_eq keys_update_new
    split: if_splits option.splits dest: map_of_SomeD)

locale removable_dict_registry = dict_registry key_of register lookup exists duplicate missing
  for key_of :: "'v \<Rightarrow> string" and register lookup exists duplicate missing +
  fixes unregister :: "string \<Rightarrow> (string, 'v) dict \<Rightarrow> (string, 'v) dict res"
  assumes unregister_eq: "unregister k r = (if has_key k r then Inr (AList.delete k r) else Inl (missing k))"

sublocale removable_dict_registry \<subseteq> removable_registry key_of "[]" register lookup exists keys
  "keyed_by key_of" duplicate missing unregister
  by unfold_locales
    (auto simp: unregister_eq exists_eq keys_delete lookup_eq intro: keyed_by_delete split: if_splits)

end
