(* ===== verification/Tools.thy ===== *)
theory Tools
  imports Values Runtime Regex Registries
begin

text \<open>
  The tool runtime (\<open>tools/\<close>): the permission model, tool results, the tool
  contract, the registry, the execution pipeline and the three built-in tools.
\<close>

section \<open>Permissions\<close>

definition lower_letter :: "char \<Rightarrow> bool" where
  "lower_letter c = (CHR ''a'' \<le> c \<and> c \<le> CHR ''z'')"

definition word_char :: "char \<Rightarrow> bool" where
  "word_char c = (lower_letter c \<or> CHR ''0'' \<le> c \<and> c \<le> CHR ''9'' \<or> c = CHR ''_'')"

text \<open>The pattern \<open>^[a-z][a-z0-9_]*(\.[a-z][a-z0-9_]*)+$\<close>, without its anchors.\<close>

definition permission_segment :: regex where
  "permission_segment = Seq (Chars lower_letter) (Many (Chars word_char))"

definition permission_pattern :: regex where
  "permission_pattern =
     Seq permission_segment (Many1 (Seq (Chars (\<lambda>c. c = CHR ''.'')) permission_segment))"

datatype permission = Permission (perm_value: string)

definition mk_permission :: "string \<Rightarrow> permission res" where
  "mk_permission v =
     (if match_dollar permission_pattern v then Inr (Permission v)
      else Inl (Exn ToolValidationError (''Invalid permission '' @ repr_str v
        @ ''; expected a dotted, lowercase identifier such as '' @ repr_str ''filesystem.read'' @ ''.'')))"

definition missing_permissions ::
  "permission frozenset \<Rightarrow> permission frozenset \<Rightarrow> permission frozenset" where
  "missing_permissions required granted = filter (\<lambda>p. p \<notin> set granted) required"

text \<open>\<open>sorted(permission.value for permission in missing)\<close> and the message built from it.\<close>

definition sorted_values :: "permission frozenset \<Rightarrow> string list" where
  "sorted_values ps = sort (map perm_value ps)"

definition missing_message :: "permission frozenset \<Rightarrow> string" where
  "missing_message missing =
     ''Missing required permissions: '' @ join '', '' (sorted_values missing) @ ''.''"

definition kernel_internal :: permission where
  "kernel_internal = Permission ''kernel.internal''"

section \<open>Tool results\<close>

record tool_result =
  tr_success :: bool
  tr_payload :: "payload option"
  tr_error :: "string option"
  tr_time :: real
  tr_metadata :: payload

text \<open>
  What the dataclass checks on construction; a frozen instance keeps it. The message of
  the last check also shows the number, whose rendering is left out.
\<close>

definition tool_result_ok :: "tool_result \<Rightarrow> bool" where
  "tool_result_ok r \<longleftrightarrow> (tr_success r \<longrightarrow> tr_error r = None)
     \<and> (\<not> tr_success r \<longrightarrow> has_message (tr_error r)) \<and> 0 \<le> tr_time r"

definition check_tool_result :: "tool_result \<Rightarrow> tool_result res" where
  "check_tool_result r =
     (if \<not> tr_success r \<and> \<not> has_message (tr_error r)
      then Inl (Exn ToolValidationError ''A failed ToolResult must include a non-empty `error` message.'')
      else if tr_success r \<and> tr_error r \<noteq> None
      then Inl (Exn ToolValidationError ''A successful ToolResult must not set `error`.'')
      else if tr_time r < 0
      then Inl (Exn ToolValidationError ''execution_time_seconds must be non-negative'')
      else Inr r)"

definition failed_tool_result :: "string \<Rightarrow> real \<Rightarrow> payload \<Rightarrow> tool_result" where
  "failed_tool_result err t md =
     \<lparr>tr_success = False, tr_payload = None, tr_error = Some err, tr_time = t, tr_metadata = md\<rparr>"

definition tool_success :: "payload \<Rightarrow> tool_result" where
  "tool_success p =
     \<lparr>tr_success = True, tr_payload = Some p, tr_error = None, tr_time = 0, tr_metadata = []\<rparr>"

lemma check_tool_result_iff: "check_tool_result r = Inr r' \<longleftrightarrow> tool_result_ok r \<and> r' = r"
  by (auto simp: check_tool_result_def tool_result_ok_def)

lemma check_tool_result_ok: "tool_result_ok r \<Longrightarrow> check_tool_result r = Inr r"
  by (simp add: check_tool_result_iff)

lemma failed_tool_result_ok [simp]:
  "tool_result_ok (failed_tool_result err t md) \<longleftrightarrow> \<not> blank err \<and> 0 \<le> t"
  by (simp add: tool_result_ok_def failed_tool_result_def)

lemma failed_tool_result_simps [simp]:
  "\<not> tr_success (failed_tool_result err t md)" "tr_error (failed_tool_result err t md) = Some err"
  "tr_metadata (failed_tool_result err t md) = md" "tr_payload (failed_tool_result err t md) = None"
  "tr_time (failed_tool_result err t md) = t"
  by (simp_all add: failed_tool_result_def)

lemma tool_success_ok [simp]: "tool_result_ok (tool_success p)"
  by (simp add: tool_result_ok_def tool_success_def)

section \<open>Tools and their registry\<close>

text \<open>
  The context a tool runs with: the active log level (the one setting the core reads),
  the logger's name and the identities of the kernel and of the service container.
\<close>

record tool_context =
  tc_log_level :: string
  tc_logger :: string
  tc_runtime :: nat
  tc_services :: nat

text \<open>A tool is an instance of a consumer's subclass of \<open>BaseTool\<close>.\<close>

record 'w tool =
  tool_id :: string
  tool_name :: string
  tool_version :: string
  tool_description :: string
  tool_capabilities :: "string frozenset"
  tool_permissions :: "permission frozenset"
  tool_input_schema :: payload
  tool_validate :: "payload \<Rightarrow> ('w, unit) py"
  tool_execute :: "tool_context \<Rightarrow> payload \<Rightarrow> ('w, tool_result) py"

record tool_metadata =
  tm_id :: string
  tm_name :: string
  tm_version :: string
  tm_description :: string
  tm_capabilities :: "string frozenset"
  tm_permissions :: "permission frozenset"

definition metadata_of :: "'w tool \<Rightarrow> tool_metadata" where
  "metadata_of t = \<lparr>tm_id = tool_id t, tm_name = tool_name t, tm_version = tool_version t,
     tm_description = tool_description t, tm_capabilities = tool_capabilities t,
     tm_permissions = tool_permissions t\<rparr>"

type_synonym 'w tool_registry = "(string, 'w tool) dict"

definition tool_duplicate :: "string \<Rightarrow> exn" where
  "tool_duplicate i = Exn ToolRegistrationError (''Tool '' @ repr_str i @ '' is already registered.'')"

definition tool_missing :: "string \<Rightarrow> exn" where
  "tool_missing i = Exn ToolRegistrationError (''Tool '' @ repr_str i @ '' is not registered.'')"

definition tool_register :: "'w tool \<Rightarrow> 'w tool_registry \<Rightarrow> 'w tool_registry res" where
  "tool_register t r =
     (if has_key (tool_id t) r then Inl (tool_duplicate (tool_id t))
      else Inr (AList.update (tool_id t) t r))"

definition tool_unregister :: "string \<Rightarrow> 'w tool_registry \<Rightarrow> 'w tool_registry res" where
  "tool_unregister i r =
     (if has_key i r then Inr (AList.delete i r) else Inl (tool_missing i))"

definition tool_lookup :: "string \<Rightarrow> 'w tool_registry \<Rightarrow> 'w tool res" where
  "tool_lookup i r = (case map_of r i of Some t \<Rightarrow> Inr t | None \<Rightarrow> Inl (tool_missing i))"

definition tool_exists :: "string \<Rightarrow> 'w tool_registry \<Rightarrow> bool" where
  "tool_exists i r = has_key i r"

definition tool_enumerate :: "'w tool_registry \<Rightarrow> tool_metadata list" where
  "tool_enumerate r = map (\<lambda>(_, t). metadata_of t) r"

text \<open>Keys are distinct and each tool is stored under its own id.\<close>

abbreviation tool_registry_ok :: "'w tool_registry \<Rightarrow> bool" where
  "tool_registry_ok \<equiv> keyed_by tool_id"

interpretation tools: removable_dict_registry tool_id tool_register tool_lookup tool_exists
  tool_duplicate tool_missing tool_unregister
  by unfold_locales
    (simp_all add: tool_register_def tool_lookup_def tool_exists_def tool_unregister_def)

lemma tool_enumerate_ids: "tool_registry_ok r \<Longrightarrow> map tm_id (tool_enumerate r) = keys r"
  by (auto simp: tool_enumerate_def keyed_by_def metadata_of_def)

section \<open>The execution pipeline\<close>

text \<open>
  \<open>ToolExecutionPipeline.run\<close>: validation, the permission check, execution under the
  clock. \<open>_finish\<close> logs the result and returns it unchanged. The dataclass checks of
  every constructed result are in place: a result that fails them raises.
\<close>

definition pipeline_run ::
  "'w env \<Rightarrow> 'w tool \<Rightarrow> tool_context \<Rightarrow> payload \<Rightarrow> permission frozenset \<Rightarrow> ('w, tool_result) py" where
  "pipeline_run E t ctx request granted =
     attempt (tool_validate t request)
       (\<lambda>e. if exn_isa ToolValidationError e
             then lift_res (check_tool_result
                    (failed_tool_result (exn_text e) 0 [(''stage'', PStr ''validate'')]))
             else throw e)
       (\<lambda>_. let missing = missing_permissions (tool_permissions t) granted in
         if missing \<noteq> []
         then lift_res (check_tool_result
                (failed_tool_result (missing_message missing) 0
                   [(''stage'', PStr ''permission_check''),
                    (''missing_permissions'', PTuple (map PStr (sorted_values missing)))]))
         else
           bnd (reading (env_perf E)) (\<lambda>started.
           attempt (tool_execute t ctx request)
             (\<lambda>e. if exn_is_exception e
                   then bnd (reading (env_perf E)) (\<lambda>now.
                          lift_res (check_tool_result
                            (failed_tool_result (exn_text e) (now - started) [(''stage'', PStr ''execute'')])))
                   else throw e)
             (\<lambda>result. bnd (reading (env_perf E)) (\<lambda>now.
                lift_res (check_tool_result (result\<lparr>tr_time := now - started\<rparr>))))))"

text \<open>A context and an environment for concrete runs.\<close>

definition demo_tool_context :: tool_context where
  "demo_tool_context = \<lparr>tc_log_level = ''INFO'', tc_logger = ''tools'', tc_runtime = 0, tc_services = 0\<rparr>"

section \<open>The built-in tools\<close>

definition kernel_version :: string where
  "kernel_version = ''1.3.0''"

definition echo_tool :: "'w tool" where
  "echo_tool = \<lparr>tool_id = ''echo'', tool_name = ''Echo Tool'', tool_version = ''1.0.0'',
     tool_description = ''Echoes the given request payload back unchanged.'',
     tool_capabilities = [''diagnostic''], tool_permissions = [],
     tool_input_schema = [(''type'', PStr ''object'')],
     tool_validate = (\<lambda>_. ret ()),
     tool_execute = (\<lambda>_ request. ret (tool_success request))\<rparr>"

definition version_tool :: "'w tool" where
  "version_tool = \<lparr>tool_id = ''version'', tool_name = ''Version Tool'', tool_version = ''1.0.0'',
     tool_description = ''Reports the installed Mellivor Kernel package version.'',
     tool_capabilities = [''diagnostic''], tool_permissions = [],
     tool_input_schema = [(''type'', PStr ''object'')],
     tool_validate = (\<lambda>_. ret ()),
     tool_execute = (\<lambda>_ _. ret (tool_success [(''version'', PStr kernel_version)]))\<rparr>"

text \<open>The kernel object behind \<open>context.runtime\<close> is read from the world by its identity.\<close>

definition health_check_tool :: "(nat \<Rightarrow> 'w \<Rightarrow> kernel) \<Rightarrow> 'w tool" where
  "health_check_tool kernel_at = \<lparr>tool_id = ''health_check'', tool_name = ''Health Check Tool'',
     tool_version = ''1.0.0'',
     tool_description = ''Reports the current health status of the kernel runtime.'',
     tool_capabilities = [''diagnostic'', ''observability''], tool_permissions = [kernel_internal],
     tool_input_schema = [(''type'', PStr ''object'')],
     tool_validate = (\<lambda>_. ret ()),
     tool_execute = (\<lambda>ctx _ w.
       let h = kernel_health (kernel_at (tc_runtime ctx) w) in
       (Inr (tool_success [(''healthy'', PBool (hs_healthy h)),
          (''state'', PStr (kernel_state_value (hs_state h))), (''detail'', PStr (hs_detail h))]), w))\<rparr>"

section \<open>What a tool promises\<close>

text \<open>
  The contract of \<open>BaseTool\<close>: \<open>validate\<close> raises nothing but
  \<open>ToolValidationError\<close>, \<open>execute\<close> raises nothing outside \<open>Exception\<close>, a
  returned result has passed its dataclass checks. The messages of what is raised are
  not blank: the pipeline needs it, though no docstring asks for it.
\<close>

locale tool_interface =
  fixes t :: "'w tool"
  assumes validate_raises: "tool_validate t req w = (Inl e, w') \<Longrightarrow>
      exn_isa ToolValidationError e \<and> \<not> blank (exn_text e)"
    and execute_raises: "tool_execute t ctx req w = (Inl e, w') \<Longrightarrow>
      exn_is_exception e \<and> \<not> blank (exn_text e)"
    and execute_result: "tool_execute t ctx req w = (Inr r, w') \<Longrightarrow> tool_result_ok r"

text \<open>The clock does not run backwards over a call of the tool.\<close>

definition clock_forward :: "'w env \<Rightarrow> 'w tool \<Rightarrow> bool" where
  "clock_forward E t = (\<forall>ctx req w a w1 x w2 b w3. env_perf E w = (a, w1) \<longrightarrow>
     tool_execute t ctx req w1 = (x, w2) \<longrightarrow> env_perf E w2 = (b, w3) \<longrightarrow> a \<le> b)"

lemma tool_result_ok_time: "tool_result_ok r \<Longrightarrow> 0 \<le> x \<Longrightarrow> tool_result_ok (r\<lparr>tr_time := x\<rparr>)"
  by (simp add: tool_result_ok_def)

lemma missing_message_not_blank [simp]: "\<not> blank (missing_message ps)"
  by (simp add: missing_message_def py_isspace_def Let_def)

lemma pipeline_validate_fails:
  assumes "tool_validate t req w = (Inl e, w1)" and "exn_isa ToolValidationError e"
    and "\<not> blank (exn_text e)"
  shows "pipeline_run E t ctx req granted w =
    (Inr (failed_tool_result (exn_text e) 0 [(''stage'', PStr ''validate'')]), w1)"
  using assms by (simp add: pipeline_run_def attempt_Inl check_tool_result_ok)

lemma pipeline_denied:
  assumes "tool_validate t req w = (Inr (), w1)"
    and "missing_permissions (tool_permissions t) granted = p # ps"
  shows "pipeline_run E t ctx req granted w =
    (Inr (failed_tool_result (missing_message (p # ps)) 0
       [(''stage'', PStr ''permission_check''),
        (''missing_permissions'', PTuple (map PStr (sorted_values (p # ps))))]), w1)"
  using assms by (simp add: pipeline_run_def attempt_Inr check_tool_result_ok Let_def)

lemma pipeline_execute_raises:
  assumes "tool_validate t req w = (Inr (), w1)"
    and "missing_permissions (tool_permissions t) granted = []"
    and "env_perf E w1 = (a, w2)" and "tool_execute t ctx req w2 = (Inl e, w3)"
    and "exn_is_exception e" and "env_perf E w3 = (b, w4)"
  shows "pipeline_run E t ctx req granted w =
    (check_tool_result (failed_tool_result (exn_text e) (b - a) [(''stage'', PStr ''execute'')]), w4)"
  using assms by (simp add: pipeline_run_def py_simps)

lemma pipeline_execute_returns:
  assumes "tool_validate t req w = (Inr (), w1)"
    and "missing_permissions (tool_permissions t) granted = []"
    and "env_perf E w1 = (a, w2)" and "tool_execute t ctx req w2 = (Inr r, w3)"
    and "env_perf E w3 = (b, w4)"
  shows "pipeline_run E t ctx req granted w = (check_tool_result (r\<lparr>tr_time := b - a\<rparr>), w4)"
  using assms by (simp add: pipeline_run_def py_simps)

context tool_interface begin

lemma pipeline_returns:
  assumes clock: "clock_forward E t"
  shows "\<exists>r w'. pipeline_run E t ctx req granted w = (Inr r, w') \<and> tool_result_ok r"
proof -
  obtain v w1 where v: "tool_validate t req w = (v, w1)" by (cases "tool_validate t req w")
  show ?thesis
  proof (cases v)
    case (Inl e)
    with v validate_raises[of req w e w1] show ?thesis by (simp add: pipeline_validate_fails)
  next
    case (Inr u)
    with v have valid: "tool_validate t req w = (Inr (), w1)" by simp
    show ?thesis
    proof (cases "missing_permissions (tool_permissions t) granted")
      case (Cons p ps)
      with valid show ?thesis by (simp add: pipeline_denied)
    next
      case Nil
      obtain a w2 where a: "env_perf E w1 = (a, w2)" by (cases "env_perf E w1")
      obtain x w3 where x: "tool_execute t ctx req w2 = (x, w3)" by (cases "tool_execute t ctx req w2")
      obtain b w4 where b: "env_perf E w3 = (b, w4)" by (cases "env_perf E w3")
      have "0 \<le> b - a" using clock a x b by (auto simp: clock_forward_def)
      with valid Nil a b x execute_raises[of ctx req w2 _ w3] execute_result[of ctx req w2 _ w3]
      show ?thesis
        by (cases x) (auto simp: pipeline_execute_raises pipeline_execute_returns
            check_tool_result_ok tool_result_ok_time)
    qed
  qed
qed

end

interpretation echo: tool_interface echo_tool
  by unfold_locales (auto simp: echo_tool_def)

interpretation version: tool_interface version_tool
  by unfold_locales (auto simp: version_tool_def)

interpretation health_check: tool_interface "health_check_tool kernel_at"
  by unfold_locales (auto simp: health_check_tool_def Let_def)

lemma pipeline_success_granted:
  assumes "pipeline_run E t ctx req granted w = (Inr r, w')" and "tr_success r"
  shows "set (tool_permissions t) \<subseteq> set granted"
proof -
  obtain v w1 where v: "tool_validate t req w = (v, w1)" by (cases "tool_validate t req w")
  have "missing_permissions (tool_permissions t) granted = []"
  proof (rule ccontr)
    assume "missing_permissions (tool_permissions t) granted \<noteq> []"
    with assms v show False
      by (cases v) (auto simp: pipeline_run_def attempt_def check_tool_result_iff Let_def split: if_splits)
  qed
  then show ?thesis by (auto simp: missing_permissions_def filter_empty_conv)
qed

section \<open>The language of permissions\<close>

definition segment_ok :: "string \<Rightarrow> bool" where
  "segment_ok s = (case s of [] \<Rightarrow> False | c # cs \<Rightarrow> lower_letter c \<and> list_all word_char cs)"

lemma language_segment: "language permission_segment = {s. segment_ok s}"
proof -
  have "s \<in> language permission_segment \<longleftrightarrow> segment_ok s" for s
    unfolding permission_segment_def language_Chars_Many
    by (cases s) (auto simp: segment_ok_def list_all_iff)
  then show ?thesis by blast
qed

lemma language_dotted: "language (Many (Seq (Chars (\<lambda>c. c = CHR ''.'')) permission_segment)) =
    {concat (map ((#) (CHR ''.'')) ss) | ss. list_all segment_ok ss}"
proof (intro equalityI subsetI)
  fix s assume "s \<in> language (Many (Seq (Chars (\<lambda>c. c = CHR ''.'')) permission_segment))"
  then obtain ws where ws: "s = concat ws"
    "set ws \<subseteq> language (Seq (Chars (\<lambda>c. c = CHR ''.'')) permission_segment)" by auto
  then have each: "\<forall>w \<in> set ws. w = CHR ''.'' # tl w \<and> segment_ok (tl w)"
    by (auto simp: language_segment)
  then have "map ((#) (CHR ''.'')) (map tl ws) = ws" by (simp add: map_idI)
  with each ws show "s \<in> {concat (map ((#) (CHR ''.'')) ss) | ss. list_all segment_ok ss}"
    by (intro CollectI exI[of _ "map tl ws"]) (auto simp: list_all_iff)
next
  fix s assume "s \<in> {concat (map ((#) (CHR ''.'')) ss) | ss. list_all segment_ok ss}"
  then obtain ss where "s = concat (map ((#) (CHR ''.'')) ss)" "list_all segment_ok ss" by auto
  then show "s \<in> language (Many (Seq (Chars (\<lambda>c. c = CHR ''.'')) permission_segment))"
    by (auto simp: list_all_iff language_segment intro!: exI[of _ "map ((#) (CHR ''.'')) ss"])
qed

lemma language_permission:
  "language permission_pattern = {join ''.'' ss | ss. 2 \<le> length ss \<and> list_all segment_ok ss}"
proof -
  have "v \<in> language permission_pattern \<longleftrightarrow>
      (\<exists>a b ss. v = a @ (CHR ''.'' # b) @ concat (map ((#) (CHR ''.'')) ss)
        \<and> segment_ok a \<and> segment_ok b \<and> list_all segment_ok ss)" for v
    unfolding permission_pattern_def Many1_def language.simps(3,4) language_dotted language_segment
    by (simp add: language_segment) (metis append_Cons)
  also have "\<dots> v \<longleftrightarrow> (\<exists>ss. v = join ''.'' ss \<and> 2 \<le> length ss \<and> list_all segment_ok ss)" for v
  proof
    assume "\<exists>a b ss. v = a @ (CHR ''.'' # b) @ concat (map ((#) (CHR ''.'')) ss)
        \<and> segment_ok a \<and> segment_ok b \<and> list_all segment_ok ss"
    then obtain a b ss where "v = join ''.'' (a # b # ss)" "list_all segment_ok (a # b # ss)"
      by (auto simp: join_dots simp del: join.simps)
    then show "\<exists>ss. v = join ''.'' ss \<and> 2 \<le> length ss \<and> list_all segment_ok ss"
      by (intro exI[of _ "a # b # ss"]) simp
  next
    assume "\<exists>ss. v = join ''.'' ss \<and> 2 \<le> length ss \<and> list_all segment_ok ss"
    then obtain a b ss where "v = join ''.'' (a # b # ss)" "list_all segment_ok (a # b # ss)"
      by (auto simp: numeral_2_eq_2 Suc_le_length_iff)
    then show "\<exists>a b ss. v = a @ (CHR ''.'' # b) @ concat (map ((#) (CHR ''.'')) ss)
        \<and> segment_ok a \<and> segment_ok b \<and> list_all segment_ok ss"
      by (intro exI[of _ a] exI[of _ b] exI[of _ ss]) (simp add: join_dots del: join.simps)
  qed
  finally show ?thesis by blast
qed

lemma mk_permission_value: "mk_permission v = Inr p \<Longrightarrow> p = Permission v"
  by (auto simp: mk_permission_def split: if_splits)

lemma mk_permission_error:
  "mk_permission v = Inl e \<Longrightarrow> exn_isa ToolValidationError e \<and> \<not> blank (exn_text e)"
  by (auto simp: mk_permission_def py_isspace_def Let_def split: if_splits)

section \<open>Properties\<close>

text \<open>The permission pattern accepts exactly the dotted identifiers of two or more
  segments, each a lower-case letter followed by lower-case letters, digits and
  underscores, and each of them once more with a line feed at its end, which
  the anchor \<open>$\<close> lets through.\<close>

theorem permission_format:
  "(\<exists>p. mk_permission v = Inr p) \<longleftrightarrow>
     (\<exists>ss. 2 \<le> length ss \<and> list_all segment_ok ss
        \<and> (v = join ''.'' ss \<or> v = join ''.'' ss @ [CHR 0x0A]))"
  unfolding mk_permission_def match_dollar_iff language_permission by (auto split: if_splits)

text \<open>C9 Whatever a tool, its caller and the clock do, the pipeline reports success only
  for a caller who holds every permission the tool requires, and a missing permission
  after a passed validation gives the denial naming the sorted missing permissions with
  the tool never executed: the world is the one validation left.\<close>

theorem pipeline_permission_gate:
  "(pipeline_run E t ctx request granted w = (Inr r, w') \<longrightarrow> tr_success r \<longrightarrow>
      set (tool_permissions t) \<subseteq> set granted)
   \<and> (tool_validate t request w = (Inr (), w1) \<longrightarrow>
      missing_permissions (tool_permissions t) granted \<noteq> [] \<longrightarrow>
      pipeline_run E t ctx request granted w =
        (Inr (failed_tool_result (missing_message (missing_permissions (tool_permissions t) granted)) 0
          [(''stage'', PStr ''permission_check''),
           (''missing_permissions'', PTuple (map PStr
              (sorted_values (missing_permissions (tool_permissions t) granted))))]), w1))"
  by (auto dest: pipeline_success_granted simp: pipeline_denied neq_Nil_conv)

theorem pipeline_permission_gate_witness:
  "set (tool_permissions (echo_tool :: nat tool)) \<subseteq> set []
   \<and> fst (pipeline_run counting_env (health_check_tool (\<lambda>_ _. new_kernel ''INFO'')) demo_tool_context [] [] 0) =
      Inr (failed_tool_result (missing_message [kernel_internal]) 0
          [(''stage'', PStr ''permission_check''),
           (''missing_permissions'', PTuple [PStr ''kernel.internal''])])"
proof
  have "pipeline_run counting_env echo_tool demo_tool_context [] [] 0 = (Inr (tool_success []\<lparr>tr_time := 1\<rparr>), 2)"
    by (simp add: pipeline_run_def echo_tool_def counting_env_def py_simps missing_permissions_def
        check_tool_result_ok tool_result_ok_time tool_success_def tool_result_ok_def numeral_2_eq_2)
  then show "set (tool_permissions (echo_tool :: nat tool)) \<subseteq> set []"
    using pipeline_permission_gate[of counting_env echo_tool demo_tool_context "[]" "[]" 0 "tool_success []\<lparr>tr_time := 1\<rparr>" 2]
    by (simp add: tool_success_def)
next
  show "fst (pipeline_run counting_env (health_check_tool (\<lambda>_ _. new_kernel ''INFO'')) demo_tool_context [] [] 0) =
      Inr (failed_tool_result (missing_message [kernel_internal]) 0
          [(''stage'', PStr ''permission_check''),
           (''missing_permissions'', PTuple [PStr ''kernel.internal''])])"
    using pipeline_permission_gate[of counting_env "health_check_tool (\<lambda>_ _. new_kernel ''INFO'')" demo_tool_context "[]" "[]" 0 _ _ 0]
    by (simp add: health_check_tool_def missing_permissions_def sorted_values_def kernel_internal_def)
qed

text \<open>C10 For a tool that keeps the tool contract and a clock that does not run backwards
  the pipeline always returns a well-formed result and never raises.\<close>

theorem pipeline_total:
  assumes "\<And>req w e w'. tool_validate t req w = (Inl e, w') \<Longrightarrow>
      exn_isa ToolValidationError e \<and> \<not> blank (exn_text e)"
    and "\<And>ctx req w e w'. tool_execute t ctx req w = (Inl e, w') \<Longrightarrow>
      exn_is_exception e \<and> \<not> blank (exn_text e)"
    and "\<And>ctx req w r w'. tool_execute t ctx req w = (Inr r, w') \<Longrightarrow> tool_result_ok r"
    and "clock_forward E t"
  shows "\<exists>r w'. pipeline_run E t ctx request granted w = (Inr r, w') \<and> tool_result_ok r"
proof -
  have "tool_interface t" by unfold_locales (fact assms)+
  then show ?thesis using assms(4) by (rule tool_interface.pipeline_returns)
qed

theorem pipeline_total_witness:
  "\<exists>r w'. pipeline_run counting_env echo_tool demo_tool_context [] [] 0 = (Inr r, w') \<and> tool_result_ok r"
  by (rule pipeline_total) (auto simp: echo_tool_def clock_forward_def counting_env_def)

text \<open>A tool whose exception has a blank message breaks the pipeline's promise: the
  failed result it would be turned into does not pass its own checks, and
  \<open>ToolValidationError\<close> leaves \<open>run\<close>.\<close>

theorem pipeline_blank_exception_escapes:
  assumes "tool_validate t request w = (Inr (), w1)"
    and "missing_permissions (tool_permissions t) granted = []"
    and "env_perf E w1 = (a, w2)"
    and "tool_execute t ctx request w2 = (Inl (Exn (ForeignException ''TimeoutError'') []), w3)"
    and "env_perf E w3 = (b, w4)"
  shows "\<exists>m. pipeline_run E t ctx request granted w = (Inl (Exn ToolValidationError m), w4)"
  using pipeline_execute_raises[OF assms(1-4) _ assms(5)]
  by (simp add: check_tool_result_def)

theorem pipeline_blank_exception_escapes_witness:
  "\<exists>m w'. pipeline_run counting_env
      (echo_tool\<lparr>tool_execute := \<lambda>_ _. throw (Exn (ForeignException ''TimeoutError'') [])\<rparr>)
      demo_tool_context [] [] 0 = (Inl (Exn ToolValidationError m), w')"
  using pipeline_blank_exception_escapes[of
      "echo_tool\<lparr>tool_execute := \<lambda>_ _. throw (Exn (ForeignException ''TimeoutError'') [])\<rparr>"
      "[]" 0 0 "[]" counting_env 0 1 demo_tool_context 1 1 2]
  by (auto simp: echo_tool_def missing_permissions_def counting_env_def)

end
