(* ===== verification/Events.thy ===== *)
theory Events
  imports Values
begin

text \<open>
  The event subsystem (\<open>events/\<close>) and the event types the execution, authorization,
  workflow and agent packages publish. Handlers are objects of the consumer: the bus keeps
  their identities and a parameter says what \<open>handle\<close> does, which may subscribe and
  publish on the same bus.
\<close>

section \<open>Events\<close>

text \<open>\<open>ExecutionTarget\<close>, which the event types of two packages carry.\<close>

datatype exec_target = TOOL | PROVIDER

fun exec_target_value :: "exec_target \<Rightarrow> string" where
  "exec_target_value TOOL = ''tool''"
| "exec_target_value PROVIDER = ''provider''"

text \<open>The event classes with their own fields; the id and the time every event gets on
  construction are left out, since nothing reads them. \<open>CustomEvent\<close> is an event class of
  the consumer.\<close>

datatype event =
    ExecutionStarted string exec_target string
  | ExecutionCompleted string exec_target string real
  | ExecutionFailed string exec_target string string "string option"
  | ToolCallRequested string string string nat
  | ToolCallCompleted string string string bool
  | ToolCallRejected string string string string
  | AuthorizationGranted string exec_target string "string frozenset"
  | AuthorizationDenied string exec_target string string
  | WorkflowStarted string string
  | WorkflowCompleted string string nat
  | WorkflowFailed string string string "string option"
  | AgentStarted string string
  | AgentCompleted string string
  | AgentFailed string string string
  | CustomEvent string payload

datatype event_type = KernelEvent string | ConsumerEvent string

text \<open>\<open>type(event)\<close>.\<close>

fun type_of_event :: "event \<Rightarrow> event_type" where
  "type_of_event (ExecutionStarted _ _ _) = KernelEvent ''ExecutionStarted''"
| "type_of_event (ExecutionCompleted _ _ _ _) = KernelEvent ''ExecutionCompleted''"
| "type_of_event (ExecutionFailed _ _ _ _ _) = KernelEvent ''ExecutionFailed''"
| "type_of_event (ToolCallRequested _ _ _ _) = KernelEvent ''ToolCallRequested''"
| "type_of_event (ToolCallCompleted _ _ _ _) = KernelEvent ''ToolCallCompleted''"
| "type_of_event (ToolCallRejected _ _ _ _) = KernelEvent ''ToolCallRejected''"
| "type_of_event (AuthorizationGranted _ _ _ _) = KernelEvent ''AuthorizationGranted''"
| "type_of_event (AuthorizationDenied _ _ _ _) = KernelEvent ''AuthorizationDenied''"
| "type_of_event (WorkflowStarted _ _) = KernelEvent ''WorkflowStarted''"
| "type_of_event (WorkflowCompleted _ _ _) = KernelEvent ''WorkflowCompleted''"
| "type_of_event (WorkflowFailed _ _ _ _) = KernelEvent ''WorkflowFailed''"
| "type_of_event (AgentStarted _ _) = KernelEvent ''AgentStarted''"
| "type_of_event (AgentCompleted _ _) = KernelEvent ''AgentCompleted''"
| "type_of_event (AgentFailed _ _ _) = KernelEvent ''AgentFailed''"
| "type_of_event (CustomEvent t _) = ConsumerEvent t"

section \<open>The in-memory bus\<close>

record event_registration =
  er_type :: event_type
  er_id :: string

text \<open>Handlers by registration id, in one dictionary per event type.\<close>

type_synonym 'h event_bus = "(event_type, (string, 'h) dict) dict"

definition new_bus :: "'h event_bus" where
  "new_bus = []"

text \<open>\<open>self._handlers.get(event_type, {})\<close>.\<close>

definition bus_handlers :: "event_type \<Rightarrow> 'h event_bus \<Rightarrow> (string, 'h) dict" where
  "bus_handlers t b = (case map_of b t of None \<Rightarrow> [] | Some hs \<Rightarrow> hs)"

text \<open>
  \<open>subscribe\<close>; the first argument is the id the registration is constructed with, a
  fresh UUID. \<open>setdefault\<close> followed by an item assignment is an update of the type's
  dictionary.
\<close>

definition bus_subscribe ::
  "string \<Rightarrow> event_type \<Rightarrow> 'h \<Rightarrow> 'h event_bus \<Rightarrow> event_registration \<times> 'h event_bus" where
  "bus_subscribe i t h b =
     (\<lparr>er_type = t, er_id = i\<rparr>, AList.update t (AList.update i h (bus_handlers t b)) b)"

definition inactive_subscription :: exn where
  "inactive_subscription = Exn EventDispatchError ''the registration is not an active subscription.''"

definition bus_unsubscribe :: "event_registration \<Rightarrow> 'h event_bus \<Rightarrow> 'h event_bus res" where
  "bus_unsubscribe r b =
     (case map_of b (er_type r) of
        None \<Rightarrow> Inl inactive_subscription
      | Some hs \<Rightarrow>
          if has_key (er_id r) hs then Inr (AList.update (er_type r) (AList.delete (er_id r) hs) b)
          else Inl inactive_subscription)"

text \<open>
  \<open>publish\<close> calls the handlers of a snapshot in order and goes on when one raises an
  \<open>Exception\<close>. The bus is part of the state, so a handler may change it meanwhile.
\<close>

primrec deliver :: "('h \<Rightarrow> event \<Rightarrow> ('w, unit) py) \<Rightarrow> event \<Rightarrow> 'h list \<Rightarrow> ('w, unit) py" where
  "deliver handle ev [] = ret ()"
| "deliver handle ev (h # hs) =
     attempt (handle h ev)
       (\<lambda>e. if exn_is_exception e then deliver handle ev hs else throw e)
       (\<lambda>_. deliver handle ev hs)"

definition bus_publish ::
  "('h \<Rightarrow> event \<Rightarrow> ('h event_bus \<times> 'u, unit) py) \<Rightarrow> event \<Rightarrow> ('h event_bus \<times> 'u, unit) py" where
  "bus_publish handle ev = (\<lambda>(b, u).
     deliver handle ev (map snd (bus_handlers (type_of_event ev) b)) (b, u))"

section \<open>The contract of a bus\<close>

text \<open>
  What a subscriber relies on: its registration is added behind those of its type and only
  there, and ends with it. The contract speaks of the registrations a bus holds for a type.
\<close>

locale event_bus =
  fixes new :: "'b"
    and subscribers :: "event_type \<Rightarrow> 'b \<Rightarrow> (string \<times> 'h) list"
    and subscribe :: "string \<Rightarrow> event_type \<Rightarrow> 'h \<Rightarrow> 'b \<Rightarrow> event_registration \<times> 'b"
    and unsubscribe :: "event_registration \<Rightarrow> 'b \<Rightarrow> 'b res"
    and invar :: "'b \<Rightarrow> bool"
  assumes invar_new: "invar new"
    and subscribers_new: "subscribers t new = []"
    and subscribe_invar: "invar b \<Longrightarrow> subscribe i t h b = (r, b') \<Longrightarrow> invar b'"
    and subscribe_handle: "subscribe i t h b = (r, b') \<Longrightarrow> er_type r = t \<and> er_id r = i"
    and subscribe_adds: "subscribe i t h b = (r, b') \<Longrightarrow> i \<notin> fst ` set (subscribers t b) \<Longrightarrow>
          subscribers t' b' = (if t' = t then subscribers t b @ [(i, h)] else subscribers t' b)"
    and unsubscribe_active: "invar b \<Longrightarrow> er_id r \<in> fst ` set (subscribers (er_type r) b) \<Longrightarrow>
          \<exists>b'. unsubscribe r b = Inr b' \<and> invar b' \<and> (\<forall>t'. subscribers t' b' =
            (if t' = er_type r then filter (\<lambda>p. fst p \<noteq> er_id r) (subscribers t' b) else subscribers t' b))"
    and unsubscribe_inactive: "er_id r \<notin> fst ` set (subscribers (er_type r) b) \<Longrightarrow>
          unsubscribe r b = Inl inactive_subscription"
begin

text \<open>Subscribing and unsubscribing again leaves every type's handlers as they were, and a
  second unsubscription is refused.\<close>

lemma subscribe_unsubscribe:
  assumes "invar b" and sub: "subscribe i t h b = (r, b1)" and fresh: "i \<notin> fst ` set (subscribers t b)"
  shows "\<exists>b2. unsubscribe r b1 = Inr b2 \<and> (\<forall>t'. subscribers t' b2 = subscribers t' b)
    \<and> unsubscribe r b2 = Inl inactive_subscription"
proof -
  have r: "er_type r = t" "er_id r = i" using subscribe_handle[OF sub] by simp_all
  note adds = subscribe_adds[OF sub fresh]
  obtain b2 where b2: "unsubscribe r b1 = Inr b2"
    "\<And>t'. subscribers t' b2 =
      (if t' = er_type r then filter (\<lambda>p. fst p \<noteq> er_id r) (subscribers t' b1) else subscribers t' b1)"
    using unsubscribe_active[OF subscribe_invar[OF assms(1) sub], of r] by (auto simp: r adds)
  have "filter (\<lambda>p. fst p \<noteq> i) (subscribers t b) = subscribers t b"
    using fresh by (auto simp: filter_id_conv)
  then have same: "subscribers t' b2 = subscribers t' b" for t' by (simp add: b2(2) r adds)
  have "unsubscribe r b2 = Inl inactive_subscription"
    by (rule unsubscribe_inactive) (use fresh in \<open>simp add: same r\<close>)
  with b2(1) same show ?thesis by blast
qed

end

definition bus_ok :: "'h event_bus \<Rightarrow> bool" where
  "bus_ok b \<longleftrightarrow> dict_ok b \<and> (\<forall>p \<in> set b. dict_ok (snd p))"

lemma bus_handlers_update [simp]:
  "bus_handlers t' (AList.update t hs b) = (if t' = t then hs else bus_handlers t' b)"
  by (simp add: bus_handlers_def)

lemma bus_handlers_ok: "bus_ok b \<Longrightarrow> dict_ok (bus_handlers t b)"
  by (auto simp: bus_ok_def bus_handlers_def split: option.splits dest!: map_of_SomeD)

lemma bus_ok_update: "bus_ok b \<Longrightarrow> dict_ok hs \<Longrightarrow> bus_ok (AList.update t hs b)"
  by (auto simp: bus_ok_def dest!: set_update_cases)

lemma delete_filter: "AList.delete i hs = filter (\<lambda>p. fst p \<noteq> i) hs"
  by (induction hs) auto

interpretation in_memory: event_bus new_bus bus_handlers bus_subscribe bus_unsubscribe bus_ok
proof (unfold_locales, goal_cases)
  case (3 b i t h r b')
  then show ?case
    by (auto simp: bus_subscribe_def bus_handlers_ok intro!: bus_ok_update dict_ok_update)
next
  case (5 i t h b r b' t')
  then show ?case by (auto simp: bus_subscribe_def update_new)
next
  case (6 b r)
  then obtain hs where hs: "map_of b (er_type r) = Some hs"
    by (cases "map_of b (er_type r)") (auto simp: bus_handlers_def)
  with 6 have "has_key (er_id r) hs" "dict_ok hs"
    using bus_handlers_ok[of b "er_type r"] by (auto simp: bus_handlers_def has_key_iff)
  with hs 6 show ?case
    by (auto simp: bus_unsubscribe_def bus_handlers_def delete_filter[symmetric]
        intro!: bus_ok_update dict_ok_delete)
next
  case (7 r b)
  then show ?case
    by (cases "map_of b (er_type r)") (simp_all add: bus_unsubscribe_def bus_handlers_def has_key_iff)
qed (simp_all add: new_bus_def bus_ok_def bus_handlers_def bus_subscribe_def)

section \<open>Delivery\<close>

lemma deliver_all:
  assumes "\<And>h w e w'. handle h ev w = (Inl e, w') \<Longrightarrow> exn_is_exception e"
  shows "deliver handle ev hs w = (Inr (), fold (\<lambda>h w. snd (handle h ev w)) hs w)"
proof (induction hs arbitrary: w)
  case (Cons h hs)
  obtain x w' where "handle h ev w = (x, w')" by (cases "handle h ev w")
  with Cons assms[of h w _ w'] show ?case by (cases x) (auto simp: attempt_def)
qed simp

lemma deliver_stops:
  assumes "deliver handle ev hs w = (Inl e, w')"
  shows "\<not> exn_is_exception e"
  using assms by (induction hs arbitrary: w) (auto simp: attempt_def split: prod.splits sum.splits if_splits)

section \<open>Properties\<close>

text \<open>C35 Publishing calls every handler subscribed to the event's exact type, once, in
  subscription order, whatever \<open>Exception\<close> each raises and whatever it does to the bus
  meanwhile, and returns normally: the state afterwards is the handlers' effects one after
  the other over the snapshot taken at the start.\<close>

theorem publish_delivers_all:
  assumes "\<And>h w e w'. handle h ev w = (Inl e, w') \<Longrightarrow> exn_is_exception e"
  shows "bus_publish handle ev (b, u) =
    (Inr (), fold (\<lambda>h w. snd (handle h ev w)) (map snd (bus_handlers (type_of_event ev) b)) (b, u))"
  using assms by (simp add: bus_publish_def deliver_all)

theorem publish_delivers_all_witness:
  "bus_publish (\<lambda>h ev (b, log). (if h = (1 :: nat) then Inl (Exn (ForeignException ''ValueError'') ''no'')
       else Inr (), b, log @ [h]))
     (AgentStarted ''a'' ''n'') ([(KernelEvent ''AgentStarted'', [(''x'', 1), (''y'', 2)])], []) =
   (Inr (), [(KernelEvent ''AgentStarted'', [(''x'', 1), (''y'', 2)])], [1, 2])"
  by (subst publish_delivers_all) (auto simp: bus_handlers_def split: if_splits)

text \<open>A subscription under a fresh id adds its handler behind those of exactly its event
  type; unsubscribing restores the handlers of every type, and unsubscribing once more
  raises \<open>EventDispatchError\<close>.\<close>

theorem subscription_lifecycle:
  assumes "bus_ok b" and "i \<notin> set (keys (bus_handlers t b))"
    and "bus_subscribe i t h b = (r, b1)"
  shows "bus_handlers t' b1 = (if t' = t then bus_handlers t b @ [(i, h)] else bus_handlers t' b)
    \<and> (\<exists>b2. bus_unsubscribe r b1 = Inr b2 \<and> (\<forall>t'. bus_handlers t' b2 = bus_handlers t' b)
      \<and> bus_unsubscribe r b2 = Inl inactive_subscription)"
  using assms in_memory.subscribe_adds[OF assms(3)] in_memory.subscribe_unsubscribe[OF assms(1,3)]
  by auto

theorem subscription_lifecycle_witness:
  "(\<exists>b2. bus_unsubscribe \<lparr>er_type = ConsumerEvent ''T'', er_id = ''1''\<rparr>
      [(ConsumerEvent ''T'', [(''1'', ''h'')])] = Inr b2
      \<and> (\<forall>t'. bus_handlers t' b2 = bus_handlers t' new_bus)
      \<and> bus_unsubscribe \<lparr>er_type = ConsumerEvent ''T'', er_id = ''1''\<rparr> b2 = Inl inactive_subscription)"
  using subscription_lifecycle[of new_bus "''1''" "ConsumerEvent ''T''" "''h''"
      "\<lparr>er_type = ConsumerEvent ''T'', er_id = ''1''\<rparr>" "[(ConsumerEvent ''T'', [(''1'', ''h'')])]"]
  by (simp add: new_bus_def bus_ok_def bus_handlers_def bus_subscribe_def)

end
