(* ===== verification/Providers.thy ===== *)
theory Providers
  imports Values Registries
begin

text \<open>
  The provider contract (\<open>providers/\<close>): configuration, the provider interface, the
  registry and the factory, and the provider-neutral tool-calling values. Concrete
  adapters are values of the record \<open>provider\<close>.
\<close>

section \<open>Configuration\<close>

record provider_configuration =
  pc_name :: string
  pc_model :: "string option"
  pc_api_key :: "string option"
  pc_base_url :: "string option"
  pc_timeout :: pyfloat
  pc_retries :: int
  pc_extra :: payload

text \<open>\<open>x <= 0\<close> on a float; a comparison with NaN is false.\<close>

fun float_nonpos :: "pyfloat \<Rightarrow> bool" where
  "float_nonpos (Fin x) = (x \<le> 0)"
| "float_nonpos PosInf = False"
| "float_nonpos NegInf = True"
| "float_nonpos NaN = False"

text \<open>The checks of \<open>__post_init__\<close>; the number shown at the end of two messages is left
  out, here and in the other messages that show a number.\<close>

definition check_provider_configuration :: "provider_configuration \<Rightarrow> provider_configuration res" where
  "check_provider_configuration c =
     (if blank (pc_name c)
      then Inl (Exn ProviderConfigurationError ''provider_name must not be empty.'')
      else if float_nonpos (pc_timeout c)
      then Inl (Exn ProviderConfigurationError ''timeout_seconds must be positive'')
      else if pc_retries c < 0
      then Inl (Exn ProviderConfigurationError ''max_retries must be non-negative'')
      else Inr c)"

section \<open>Providers\<close>

record provider_capabilities =
  cap_streaming :: bool
  cap_tool_calls :: bool
  cap_vision :: bool
  cap_embeddings :: bool
  cap_max_context :: "int option"

record provider_health_check =
  ph_healthy :: bool
  ph_name :: string
  ph_detail :: string

record 'w provider =
  prov_name :: string
  prov_configuration :: provider_configuration
  prov_capabilities :: provider_capabilities
  prov_check_health :: "('w, provider_health_check) py"
  prov_invoke :: "payload \<Rightarrow> ('w, payload) py"

section \<open>The registry\<close>

type_synonym 'w provider_registry = "(string, 'w provider) dict"

definition provider_duplicate :: "string \<Rightarrow> exn" where
  "provider_duplicate n =
     Exn ProviderRegistrationError (''Provider '' @ repr_str n @ '' is already registered.'')"

definition provider_missing :: "string \<Rightarrow> exn" where
  "provider_missing n =
     Exn ProviderRegistrationError (''Provider '' @ repr_str n @ '' is not registered.'')"

definition provider_register ::
  "'w provider \<Rightarrow> 'w provider_registry \<Rightarrow> 'w provider_registry res" where
  "provider_register p r =
     (let name = prov_name p in
      if has_key name r then Inl (provider_duplicate name) else Inr (AList.update name p r))"

definition provider_get :: "string \<Rightarrow> 'w provider_registry \<Rightarrow> 'w provider res" where
  "provider_get n r = (case map_of r n of Some p \<Rightarrow> Inr p | None \<Rightarrow> Inl (provider_missing n))"

definition provider_is_registered :: "string \<Rightarrow> 'w provider_registry \<Rightarrow> bool" where
  "provider_is_registered n r = has_key n r"

definition provider_list :: "'w provider_registry \<Rightarrow> string list" where
  "provider_list r = keys r"

interpretation providers: dict_registry prov_name provider_register provider_get
  provider_is_registered provider_duplicate provider_missing
  by unfold_locales (simp_all add: provider_register_def provider_get_def
      provider_is_registered_def Let_def)

section \<open>The factory\<close>

type_synonym 'w constructor = "provider_configuration \<Rightarrow> ('w, 'w provider) py"
type_synonym 'w factory = "(string, 'w constructor) dict"

definition register_provider_type ::
  "string \<Rightarrow> 'w constructor \<Rightarrow> 'w factory \<Rightarrow> 'w factory res" where
  "register_provider_type n c f =
     (if has_key n f
      then Inl (Exn ProviderRegistrationError
             (''Provider type '' @ repr_str n @ '' is already registered with the factory.''))
      else Inr (AList.update n c f))"

definition create_provider :: "provider_configuration \<Rightarrow> 'w factory \<Rightarrow> ('w, 'w provider) py" where
  "create_provider c f =
     (case map_of f (pc_name c) of
        None \<Rightarrow> throw (Exn ProviderRegistrationError
                  (''No provider type registered for '' @ repr_str (pc_name c) @ ''.''))
      | Some build \<Rightarrow> build c)"

definition provider_type_registered :: "string \<Rightarrow> 'w factory \<Rightarrow> bool" where
  "provider_type_registered n f = has_key n f"

section \<open>Tool calling\<close>

text \<open>
  Instances of the two frozen dataclasses are the values \<^const>\<open>PToolSpec\<close> and
  \<^const>\<open>PToolCall\<close>. The constructors take any object for the field whose type they
  check.
\<close>

definition empty_object_schema :: payload where
  "empty_object_schema = [(''type'', PStr ''object'')]"

definition mk_tool_spec :: "string \<Rightarrow> string \<Rightarrow> pyval \<Rightarrow> pyval res" where
  "mk_tool_spec name desc schema =
     (if blank name then Inl (Exn ToolCallingError ''ToolSpec.name must not be blank.'')
      else if blank desc then Inl (Exn ToolCallingError ''ToolSpec.description must not be blank.'')
      else case schema of
        PDict d \<Rightarrow>
          if \<not> py_eq (get_or d ''type'' PNone) (PStr ''object'')
          then Inl (Exn ToolCallingError
                 ''ToolSpec.input_schema must be a JSON Schema object (type: 'object').'')
          else Inr (PToolSpec name desc d)
      | _ \<Rightarrow> Inl (Exn ToolCallingError ''ToolSpec.input_schema must be a mapping.''))"

definition mk_tool_call :: "string \<Rightarrow> string \<Rightarrow> pyval \<Rightarrow> pyval res" where
  "mk_tool_call i name args =
     (if blank i then Inl (Exn ToolCallingError ''ToolCall.id must not be blank.'')
      else if blank name then Inl (Exn ToolCallingError ''ToolCall.name must not be blank.'')
      else case args of
        PDict d \<Rightarrow> Inr (PToolCall i name d)
      | _ \<Rightarrow> Inl (Exn ToolCallingError ''ToolCall.arguments must be a mapping.''))"

record tool_call =
  call_id :: string
  call_name :: string
  call_arguments :: payload

text \<open>\<open>isinstance(x, ToolCall)\<close>, with its fields.\<close>

fun as_tool_call :: "pyval \<Rightarrow> tool_call option" where
  "as_tool_call (PToolCall i n d) = Some \<lparr>call_id = i, call_name = n, call_arguments = d\<rparr>"
| "as_tool_call _ = None"

record tool_result_block =
  trb_call_id :: string
  trb_content :: string
  trb_is_error :: bool

definition mk_tool_result_block :: "string \<Rightarrow> string \<Rightarrow> bool \<Rightarrow> tool_result_block res" where
  "mk_tool_result_block i content is_error =
     (if blank i then Inl (Exn ToolCallingError ''ToolResultBlock.tool_call_id must not be blank.'')
      else Inr \<lparr>trb_call_id = i, trb_content = content, trb_is_error = is_error\<rparr>)"

definition tool_use_block :: "tool_call \<Rightarrow> pyval" where
  "tool_use_block c = PDict [(''type'', PStr ''tool_use''), (''id'', PStr (call_id c)),
     (''name'', PStr (call_name c)), (''input'', PDict (call_arguments c))]"

definition assistant_message :: "string \<Rightarrow> tool_call list \<Rightarrow> payload" where
  "assistant_message text calls =
     [(''role'', PStr ''assistant''),
      (''content'', PTuple ((if text \<noteq> [] then [PDict [(''type'', PStr ''text''), (''text'', PStr text)]]
                              else []) @ map tool_use_block calls))]"

definition tool_result_entry :: "tool_result_block \<Rightarrow> pyval" where
  "tool_result_entry r = PDict [(''type'', PStr ''tool_result''),
     (''tool_call_id'', PStr (trb_call_id r)), (''content'', PStr (trb_content r)),
     (''is_error'', PBool (trb_is_error r))]"

definition tool_results_message :: "tool_result_block list \<Rightarrow> payload res" where
  "tool_results_message rs =
     (if rs = [] then Inl (Exn ToolCallingError ''tool_results_message requires at least one result.'')
      else Inr [(''role'', PStr ''user''), (''content'', PTuple (map tool_result_entry rs))])"

text \<open>What the constructors guarantee of every instance.\<close>

definition tool_call_ok :: "tool_call \<Rightarrow> bool" where
  "tool_call_ok c \<longleftrightarrow> \<not> blank (call_id c) \<and> \<not> blank (call_name c)"

lemma mk_tool_call_iff:
  "mk_tool_call i n a = Inr v \<longleftrightarrow> \<not> blank i \<and> \<not> blank n \<and> (\<exists>d. a = PDict d \<and> v = PToolCall i n d)"
  by (auto simp: mk_tool_call_def split: pyval.splits)

lemma mk_tool_call_error: "mk_tool_call i n a = Inl e \<Longrightarrow> exn_isa ToolCallingError e"
  by (auto simp: mk_tool_call_def split: if_splits pyval.splits)

lemma mk_tool_spec_iff:
  "mk_tool_spec n t s = Inr v \<longleftrightarrow> \<not> blank n \<and> \<not> blank t \<and>
     (\<exists>d. s = PDict d \<and> map_of d ''type'' = Some (PStr ''object'') \<and> v = PToolSpec n t d)"
proof -
  have "py_eq x (PStr s) \<longleftrightarrow> x = PStr s" for x s by (cases x) auto
  then show ?thesis
    by (auto simp: mk_tool_spec_def get_or_def split: pyval.splits option.splits)
qed

section \<open>Properties\<close>

text \<open>Registering a sequence of providers succeeds exactly when no two share a name and
  none is registered yet; the listing then ends with their names in order, each resolves to
  the provider given, and every other name resolves as before.\<close>

theorem provider_registration:
  assumes "keyed_by prov_name r" and "distinct (map prov_name ps)"
    and "list_all (\<lambda>p. \<not> provider_is_registered (prov_name p) r) ps"
  shows "\<exists>r'. register_all provider_register ps r = (Inr (), r')
      \<and> provider_list r' = provider_list r @ map prov_name ps
      \<and> list_all (\<lambda>p. provider_get (prov_name p) r' = Inr p) ps
      \<and> (\<forall>n. n \<notin> prov_name ` set ps \<longrightarrow> provider_get n r' = provider_get n r)"
  using providers.register_all_ok[OF assms(1,2)] assms(3)
  by (auto simp: list_all_iff provider_list_def)

definition demo_provider :: "string \<Rightarrow> 'w provider" where
  "demo_provider n = \<lparr>prov_name = n,
     prov_configuration = \<lparr>pc_name = n, pc_model = None, pc_api_key = None, pc_base_url = None,
       pc_timeout = Fin 30, pc_retries = 0, pc_extra = []\<rparr>,
     prov_capabilities = \<lparr>cap_streaming = False, cap_tool_calls = True, cap_vision = False,
       cap_embeddings = False, cap_max_context = None\<rparr>,
     prov_check_health = ret \<lparr>ph_healthy = True, ph_name = n, ph_detail = []\<rparr>,
     prov_invoke = (\<lambda>req. ret [(''text'', PStr ''hello'')])\<rparr>"

theorem provider_registration_witness:
  "\<exists>r' :: nat provider_registry.
     register_all provider_register [demo_provider ''a'', demo_provider ''b''] [] = (Inr (), r')
      \<and> provider_list r' = [''a'', ''b'']"
proof -
  have names: "map prov_name [demo_provider ''a'', demo_provider ''b'' :: nat provider] = [''a'', ''b'']"
    by (simp add: demo_provider_def)
  have d: "distinct (map prov_name [demo_provider ''a'', demo_provider ''b'' :: nat provider])"
    unfolding names by simp
  have k: "keyed_by prov_name ([] :: nat provider_registry)" by (simp add: keyed_by_def)
  have f: "list_all (\<lambda>p. \<not> provider_is_registered (prov_name p) ([] :: nat provider_registry))
      [demo_provider ''a'', demo_provider ''b'']"
    by (simp add: provider_is_registered_def has_key_def)
  have "\<exists>r'. register_all provider_register
        [demo_provider ''a'', demo_provider ''b'' :: nat provider] [] = (Inr (), r')
      \<and> provider_list r' = provider_list ([] :: nat provider_registry) @ [''a'', ''b'']"
    using provider_registration[OF k d f] unfolding names by (elim exE conjE) (intro exI conjI)
  then show ?thesis by (simp only: provider_list_def list.map append_Nil)
qed

text \<open>A provider is created exactly when the factory knows its type, and then by the
  constructor registered first under that name: a second registration is refused and
  changes nothing.\<close>

theorem factory_first_registration_wins:
  "(\<exists>f'. register_provider_type n c f = Inr f') = (\<not> provider_type_registered n f)
   \<and> (register_provider_type n c f = Inr f' \<longrightarrow> provider_type_registered n f'
       \<and> create_provider conf f' = (if pc_name conf = n then c conf else create_provider conf f))
   \<and> (provider_type_registered (pc_name conf) f \<or>
       (\<exists>m. create_provider conf f = throw (Exn ProviderRegistrationError m)))"
proof (intro conjI)
  show "(\<exists>f'. register_provider_type n c f = Inr f') = (\<not> provider_type_registered n f)"
    by (simp add: register_provider_type_def provider_type_registered_def)
  show "register_provider_type n c f = Inr f' \<longrightarrow> provider_type_registered n f'
       \<and> create_provider conf f' = (if pc_name conf = n then c conf else create_provider conf f)"
    by (auto simp: register_provider_type_def provider_type_registered_def create_provider_def has_key_def)
  show "provider_type_registered (pc_name conf) f \<or>
       (\<exists>m. create_provider conf f = throw (Exn ProviderRegistrationError m))"
    by (cases "map_of f (pc_name conf)")
      (simp_all only: provider_type_registered_def create_provider_def has_key_def option.simps, blast+)
qed

theorem factory_first_registration_wins_witness:
  "provider_type_registered ''claude''
     [(''claude'', \<lambda>c :: provider_configuration. ret (demo_provider (pc_name c)) :: (nat, nat provider) py)]"
  using factory_first_registration_wins[of "''claude''"
      "\<lambda>c. ret (demo_provider (pc_name c)) :: (nat, nat provider) py" "[]"
      "[(''claude'', \<lambda>c. ret (demo_provider (pc_name c)) :: (nat, nat provider) py)]"]
  by (simp add: register_provider_type_def has_key_def)

end
