(* ===== verification/Memory.thy ===== *)
theory Memory
  imports Values
begin

text \<open>
  The memory subsystem (\<open>memory/\<close>): entries, queries, the store contract, the in-memory
  store and the facade over any store.
\<close>

section \<open>Entries and queries\<close>

record memory_entry =
  me_id :: string
  me_content :: string
  me_tags :: "string frozenset"
  me_metadata :: payload
  me_created_at :: datetime

definition check_memory_entry :: "memory_entry \<Rightarrow> memory_entry res" where
  "check_memory_entry e =
     (if blank (me_id e) then Inl (Exn MemoryError ''MemoryEntry.id must not be blank.'')
      else if blank (me_content e) then Inl (Exn MemoryError ''MemoryEntry.content must not be blank.'')
      else Inr e)"

record memory_query =
  mq_id :: "string option"
  mq_tag :: "string option"
  mq_metadata :: payload
  mq_text :: "string option"

definition empty_query :: memory_query where
  "empty_query = \<lparr>mq_id = None, mq_tag = None, mq_metadata = [], mq_text = None\<rparr>"

record memory_result =
  mr_entries :: "memory_entry list"

definition memory_result_len :: "memory_result \<Rightarrow> nat" where
  "memory_result_len r = length (mr_entries r)"

text \<open>\<open>t in s\<close> on strings.\<close>

fun substring :: "string \<Rightarrow> string \<Rightarrow> bool" where
  "substring t [] = (t = [])"
| "substring t (c # s) = (take (length t) (c # s) = t \<or> substring t s)"

definition entry_matches :: "memory_entry \<Rightarrow> memory_query \<Rightarrow> bool" where
  "entry_matches e q =
     (if mq_id q \<noteq> None \<and> me_id e \<noteq> the (mq_id q) then False
      else if mq_tag q \<noteq> None \<and> the (mq_tag q) \<notin> set (me_tags e) then False
      else if mq_text q \<noteq> None \<and> \<not> substring (the (mq_text q)) (me_content e) then False
      else list_all (\<lambda>(k, v). py_eq (get_or (me_metadata e) k PNone) v) (mq_metadata q))"

lemma substring_iff: "substring t s \<longleftrightarrow> (\<exists>a b. s = a @ t @ b)"
proof (induction s)
  case (Cons c s)
  have "take (length t) (c # s) = t \<longleftrightarrow> (\<exists>b. c # s = t @ b)"
    by (metis append_eq_conv_conj append_take_drop_id)
  moreover have "(\<exists>a b. c # s = a @ t @ b) \<longleftrightarrow> (\<exists>b. c # s = t @ b) \<or> (\<exists>a b. s = a @ t @ b)"
    by (metis append_Cons append_Nil list.exhaust list.inject)
  ultimately show ?case using Cons.IH by simp
qed simp

lemma entry_matches_iff:
  "entry_matches e q \<longleftrightarrow>
     (\<forall>i. mq_id q = Some i \<longrightarrow> me_id e = i) \<and> (\<forall>t. mq_tag q = Some t \<longrightarrow> t \<in> set (me_tags e))
     \<and> (\<forall>t. mq_text q = Some t \<longrightarrow> (\<exists>a b. me_content e = a @ t @ b))
     \<and> (\<forall>(k, v) \<in> set (mq_metadata q). py_eq (get_or (me_metadata e) k PNone) v)"
  unfolding entry_matches_def substring_iff list_all_iff
  by (cases "mq_id q"; cases "mq_tag q"; cases "mq_text q") simp_all

section \<open>The in-memory store\<close>

type_synonym memory_dict = "(string, memory_entry) dict"

definition store_add :: "memory_entry \<Rightarrow> memory_dict \<Rightarrow> memory_dict" where
  "store_add e s = AList.update (me_id e) e s"

definition store_get :: "string \<Rightarrow> memory_dict \<Rightarrow> memory_entry option" where
  "store_get i s = map_of s i"

definition store_search :: "memory_query \<Rightarrow> memory_dict \<Rightarrow> memory_result" where
  "store_search q s = \<lparr>mr_entries = filter (\<lambda>e. entry_matches e q) (map snd s)\<rparr>"

definition store_delete :: "string \<Rightarrow> memory_dict \<Rightarrow> bool \<times> memory_dict" where
  "store_delete i s = (has_key i s, AList.delete i s)"

definition store_clear :: "memory_dict \<Rightarrow> memory_dict" where
  "store_clear s = []"

definition store_ok :: "memory_dict \<Rightarrow> bool" where
  "store_ok s \<longleftrightarrow> dict_ok s \<and> (\<forall>(k, e) \<in> set s. me_id e = k)"

section \<open>The contract of a store\<close>

text \<open>
  The \<open>MemoryStore\<close> protocol over the entries a store holds, in the order they were
  first added: \<open>entries\<close> is the abstraction every operation is described by.
\<close>

definition put_entry :: "memory_entry \<Rightarrow> memory_entry list \<Rightarrow> memory_entry list" where
  "put_entry e es = (if me_id e \<in> me_id ` set es then map (\<lambda>d. if me_id d = me_id e then e else d) es
     else es @ [e])"

locale memory_store =
  fixes new :: "'m"
    and add :: "memory_entry \<Rightarrow> 'm \<Rightarrow> 'm"
    and get :: "string \<Rightarrow> 'm \<Rightarrow> memory_entry option"
    and search :: "memory_query \<Rightarrow> 'm \<Rightarrow> memory_result"
    and delete :: "string \<Rightarrow> 'm \<Rightarrow> bool \<times> 'm"
    and clear :: "'m \<Rightarrow> 'm"
    and entries :: "'m \<Rightarrow> memory_entry list"
    and invar :: "'m \<Rightarrow> bool"
  assumes new_entries: "invar new \<and> entries new = []"
    and distinct_ids: "invar m \<Longrightarrow> distinct (map me_id (entries m))"
    and add_entries: "invar m \<Longrightarrow> invar (add e m) \<and> entries (add e m) = put_entry e (entries m)"
    and get_entries: "invar m \<Longrightarrow> get i m = find (\<lambda>e. me_id e = i) (entries m)"
    and search_entries: "invar m \<Longrightarrow> mr_entries (search q m) = filter (\<lambda>e. entry_matches e q) (entries m)"
    and delete_entries: "invar m \<Longrightarrow> delete i m = (b, m') \<Longrightarrow> invar m'
          \<and> entries m' = filter (\<lambda>e. me_id e \<noteq> i) (entries m) \<and> (b \<longleftrightarrow> i \<in> me_id ` set (entries m))"
    and clear_entries: "invar m \<Longrightarrow> invar (clear m) \<and> entries (clear m) = []"
begin

lemma get_iff: "invar m \<Longrightarrow> get i m = Some e \<longleftrightarrow> e \<in> set (entries m) \<and> me_id e = i"
  using distinct_ids[of m]
  by (auto simp: get_entries find_Some_iff distinct_map inj_on_def in_set_conv_nth distinct_conv_nth)

lemma get_add:
  assumes "invar m"
  shows "get i (add e m) = (if i = me_id e then Some e else get i m)"
proof -
  have "x \<in> set (put_entry e es) \<longleftrightarrow> x = e \<or> x \<in> set es \<and> me_id x \<noteq> me_id e" for x es
    by (auto simp: put_entry_def image_iff)
  then have "get i (add e m) = Some x \<longleftrightarrow> (if i = me_id e then Some e else get i m) = Some x" for x
    using assms get_iff[of m i x] get_iff[of "add e m" i x] add_entries[OF assms, of e] by auto
  then show ?thesis by (metis option.exhaust)
qed

lemma get_delete:
  assumes "invar m" and "delete i m = (b, m')"
  shows "get j m' = (if j = i then None else get j m) \<and> (b \<longleftrightarrow> get i m \<noteq> None)"
proof -
  from delete_entries[OF assms] have m': "invar m'"
      "entries m' = filter (\<lambda>e. me_id e \<noteq> i) (entries m)" "b \<longleftrightarrow> i \<in> me_id ` set (entries m)"
    by auto
  then have "get j m' = Some x \<longleftrightarrow> (if j = i then None else get j m) = Some x" for x
    using assms(1) get_iff[of m j x] get_iff[of m' j x] by auto
  moreover have "get i m \<noteq> None \<longleftrightarrow> i \<in> me_id ` set (entries m)"
    using get_iff[OF assms(1), of i] by (auto simp: image_iff)
  ultimately show ?thesis using m'(3) by (metis option.exhaust)
qed

lemma search_id:
  assumes "invar m"
  shows "mr_entries (search (empty_query\<lparr>mq_id := Some i\<rparr>) m) =
    (case get i m of None \<Rightarrow> [] | Some e \<Rightarrow> [e])"
proof -
  have "filter (\<lambda>e. me_id e = i) es = (case find (\<lambda>e. me_id e = i) es of None \<Rightarrow> [] | Some e \<Rightarrow> [e])"
    if "distinct (map me_id es)" for es
    using that
  proof (induction es)
    case (Cons a es)
    have "filter (\<lambda>e. me_id e = me_id a) es = []"
      using Cons.prems by (simp add: filter_empty_conv image_iff) metis
    with Cons show ?case by auto
  qed simp
  then show ?thesis
    using assms distinct_ids[OF assms]
    by (simp add: search_entries get_entries entry_matches_def empty_query_def eq_commute[of _ i])
qed

lemma search_all: "invar m \<Longrightarrow> mr_entries (search empty_query m) = entries m"
  by (simp add: search_entries entry_matches_def empty_query_def)

lemma search_get:
  "invar m \<Longrightarrow> e \<in> set (mr_entries (search q m)) \<longleftrightarrow> get (me_id e) m = Some e \<and> entry_matches e q"
  by (auto simp: search_entries get_iff)

end

lemma store_ok_ids: "store_ok s \<Longrightarrow> map me_id (map snd s) = keys s"
  by (auto simp: store_ok_def)

lemma store_ok_eq: "store_ok s \<Longrightarrow> s = map (\<lambda>e. (me_id e, e)) (map snd s)"
  by (induction s) (auto simp: store_ok_def dict_ok_def)

lemma put_entry_update:
  "distinct (map me_id es) \<Longrightarrow>
    map snd (AList.update (me_id e) e (map (\<lambda>d. (me_id d, d)) es)) = put_entry e es"
proof (induction es)
  case (Cons a es)
  show ?case
  proof (cases "me_id a = me_id e")
    case True
    then have "map (\<lambda>d. if me_id d = me_id e then e else d) es = es"
      using Cons.prems by (intro map_idI) (auto simp: image_iff)
    with True show ?thesis by (simp add: put_entry_def comp_def)
  next
    case False
    with Cons show ?thesis by (auto simp: put_entry_def)
  qed
qed (simp add: put_entry_def)

lemma store_values_update:
  "store_ok s \<Longrightarrow> map snd (AList.update (me_id e) e s) = put_entry e (map snd s)"
proof -
  assume ok: "store_ok s"
  then have "distinct (map me_id (map snd s))"
    by (simp only: store_ok_ids) (simp add: store_ok_def dict_ok_def)
  then show ?thesis using put_entry_update store_ok_eq[OF ok] by metis
qed

lemma store_get_find: "store_ok s \<Longrightarrow> map_of s i = find (\<lambda>e. me_id e = i) (map snd s)"
  by (induction s) (auto simp: store_ok_def dict_ok_def)

lemma store_values_delete:
  "store_ok s \<Longrightarrow> map snd (AList.delete i s) = filter (\<lambda>e. me_id e \<noteq> i) (map snd s)"
  by (induction s) (auto simp: store_ok_def dict_ok_def)

interpretation in_memory_store: memory_store "[]" store_add store_get store_search store_delete
  store_clear "map snd" store_ok
proof (unfold_locales, goal_cases)
  case (2 m)
  then have "distinct (keys m)" by (simp add: store_ok_def dict_ok_def)
  with 2 show ?case by (simp only: store_ok_ids)
next
  case (3 m e)
  then show ?case
    by (auto simp: store_add_def store_values_update store_ok_def dest!: set_update_cases)
next
  case (6 m i b m')
  then have "i \<in> set (keys m) \<longleftrightarrow> i \<in> me_id ` set (map snd m)"
    by (metis store_ok_ids list.set_map)
  with 6 show ?case
    by (auto simp: store_delete_def has_key_iff store_values_delete) (auto simp: store_ok_def)
qed (simp_all add: store_ok_def[of "[]"] store_get_def store_get_find store_search_def store_clear_def)

section \<open>Stores as collaborators, and the facade\<close>

text \<open>
  A store as its consumers hold it: operations that act on the world and may raise
  (a file-backed store does). The facade delegates each of its operations to the store it
  was given, or to a new in-memory store.
\<close>

record 'w memory_store_ops =
  ms_add :: "memory_entry \<Rightarrow> ('w, unit) py"
  ms_get :: "string \<Rightarrow> ('w, memory_entry option) py"
  ms_search :: "memory_query \<Rightarrow> ('w, memory_result) py"
  ms_delete :: "string \<Rightarrow> ('w, bool) py"
  ms_clear :: "('w, unit) py"

definition in_memory_ops :: "(memory_dict \<times> 'w) memory_store_ops" where
  "in_memory_ops = \<lparr>ms_add = (\<lambda>e (s, w). (Inr (), store_add e s, w)),
     ms_get = (\<lambda>i (s, w). (Inr (store_get i s), s, w)),
     ms_search = (\<lambda>q (s, w). (Inr (store_search q s), s, w)),
     ms_delete = (\<lambda>i (s, w). case store_delete i s of (b, s') \<Rightarrow> (Inr b, s', w)),
     ms_clear = (\<lambda>(s, w). (Inr (), store_clear s, w))\<rparr>"

record 'w memory_facade =
  mf_store :: "'w memory_store_ops"

definition new_memory ::
  "(memory_dict \<times> 'w) memory_store_ops option \<Rightarrow> (memory_dict \<times> 'w) memory_facade" where
  "new_memory store = \<lparr>mf_store = (case store of Some s \<Rightarrow> s | None \<Rightarrow> in_memory_ops)\<rparr>"

definition memory_add :: "'w memory_facade \<Rightarrow> memory_entry \<Rightarrow> ('w, unit) py" where
  "memory_add m e = ms_add (mf_store m) e"

definition memory_get :: "'w memory_facade \<Rightarrow> string \<Rightarrow> ('w, memory_entry option) py" where
  "memory_get m i = ms_get (mf_store m) i"

definition memory_search :: "'w memory_facade \<Rightarrow> memory_query \<Rightarrow> ('w, memory_result) py" where
  "memory_search m q = ms_search (mf_store m) q"

definition memory_delete :: "'w memory_facade \<Rightarrow> string \<Rightarrow> ('w, bool) py" where
  "memory_delete m i = ms_delete (mf_store m) i"

definition memory_clear :: "'w memory_facade \<Rightarrow> ('w, unit) py" where
  "memory_clear m = ms_clear (mf_store m)"

section \<open>Properties\<close>

text \<open>The in-memory store: after adding an entry a lookup of its id gives that entry, the
  latest one added under it, and every other id is untouched; a deletion reports whether
  the id was there and removes exactly it; a search returns exactly the stored entries that
  pass every filter, in the order their ids were first added.\<close>

theorem in_memory_store_behaviour:
  assumes "store_ok s"
  shows "store_get i (store_add e s) = (if i = me_id e then Some e else store_get i s)
    \<and> store_get i (snd (store_delete j s)) = (if i = j then None else store_get i s)
    \<and> (fst (store_delete j s) \<longleftrightarrow> store_get j s \<noteq> None)
    \<and> (d \<in> set (mr_entries (store_search q s)) \<longleftrightarrow> store_get (me_id d) s = Some d \<and> entry_matches d q)
    \<and> mr_entries (store_search empty_query (store_add e s)) = put_entry e (mr_entries (store_search empty_query s))"
proof -
  note add = in_memory_store.add_entries[OF assms, of e]
  show ?thesis
    using in_memory_store.get_add[OF assms] in_memory_store.get_delete[OF assms, of j]
      in_memory_store.search_get[OF assms] in_memory_store.search_all[of "store_add e s"] add
      in_memory_store.search_all[OF assms]
    by (cases "store_delete j s") auto
qed

definition demo_entry :: "string \<Rightarrow> string \<Rightarrow> memory_entry" where
  "demo_entry i c = \<lparr>me_id = i, me_content = c, me_tags = [], me_metadata = [],
     me_created_at = fst (env_now counting_env 0)\<rparr>"

theorem in_memory_store_behaviour_witness:
  "store_get ''a'' (store_add (demo_entry ''a'' ''new'') [(''a'', demo_entry ''a'' ''old'')]) =
     Some (demo_entry ''a'' ''new'')"
  using in_memory_store_behaviour[of "[(''a'', demo_entry ''a'' ''old'')]" "''a''" "demo_entry ''a'' ''new''"]
  by (simp add: store_ok_def demo_entry_def dict_ok_def)

end
