(* ===== verification/Execution.thy ===== *)
theory Execution
  imports Tools Providers Events Memory
begin

text \<open>
  The execution core (\<open>execution/\<close>): requests, results, the dispatcher that routes a
  request to the tool pipeline or to a provider, and the engine that gates it by an
  authorizer, publishes events, emits observations and records the outcome. Registries,
  clocks, the bus, the sink, the store and the authorizer are reached through the world.
\<close>

section \<open>Requests, contexts and results\<close>

record exec_request =
  xr_target :: exec_target
  xr_operation :: string
  xr_payload :: payload
  xr_id :: string

definition exec_request_ok :: "exec_request \<Rightarrow> bool" where
  "exec_request_ok r \<longleftrightarrow> \<not> blank (xr_operation r) \<and> \<not> blank (xr_id r)"

definition check_exec_request :: "exec_request \<Rightarrow> exec_request res" where
  "check_exec_request r =
     (if blank (xr_operation r)
      then Inl (Exn ExecutionValidationError ''ExecutionRequest.operation must not be blank.'')
      else if blank (xr_id r)
      then Inl (Exn ExecutionValidationError ''ExecutionRequest.request_id must not be blank.'')
      else Inr r)"

lemma check_exec_request_iff: "check_exec_request r = Inr r' \<longleftrightarrow> exec_request_ok r \<and> r' = r"
  by (auto simp: check_exec_request_def exec_request_ok_def)

record exec_context =
  xc_log_level :: string
  xc_logger :: string
  xc_runtime :: nat
  xc_services :: nat

record exec_result =
  er_success :: bool
  er_payload :: "payload option"
  er_error :: "string option"
  er_time :: real
  er_metadata :: payload

definition exec_result_ok :: "exec_result \<Rightarrow> bool" where
  "exec_result_ok r \<longleftrightarrow> (er_success r \<longrightarrow> er_error r = None)
     \<and> (\<not> er_success r \<longrightarrow> has_message (er_error r)) \<and> 0 \<le> er_time r"

definition check_exec_result :: "exec_result \<Rightarrow> exec_result res" where
  "check_exec_result r =
     (if \<not> er_success r \<and> \<not> has_message (er_error r)
      then Inl (Exn ExecutionValidationError
             ''A failed ExecutionResult must include a non-empty `error` message.'')
      else if er_success r \<and> er_error r \<noteq> None
      then Inl (Exn ExecutionValidationError ''A successful ExecutionResult must not set `error`.'')
      else if er_time r < 0
      then Inl (Exn ExecutionValidationError ''execution_time_seconds must be non-negative'')
      else Inr r)"

definition failed_exec_result :: "string \<Rightarrow> real \<Rightarrow> payload \<Rightarrow> exec_result" where
  "failed_exec_result err t md =
     \<lparr>er_success = False, er_payload = None, er_error = Some err, er_time = t, er_metadata = md\<rparr>"

lemma check_exec_result_iff: "check_exec_result r = Inr r' \<longleftrightarrow> exec_result_ok r \<and> r' = r"
  by (auto simp: check_exec_result_def exec_result_ok_def)

lemma check_exec_result_ok [simp]: "exec_result_ok r \<Longrightarrow> check_exec_result r = Inr r"
  by (simp add: check_exec_result_iff)

lemma failed_exec_result_ok [simp]: "exec_result_ok (failed_exec_result err t md) \<longleftrightarrow> \<not> blank err \<and> 0 \<le> t"
  by (simp add: exec_result_ok_def failed_exec_result_def)

lemma success_exec_result_ok [simp]:
  "exec_result_ok \<lparr>er_success = True, er_payload = p, er_error = None, er_time = t, er_metadata = md\<rparr>
    \<longleftrightarrow> 0 \<le> t"
  by (simp add: exec_result_ok_def)

lemma failed_exec_result_simps [simp]:
  "\<not> er_success (failed_exec_result err t md)" "er_error (failed_exec_result err t md) = Some err"
  "er_metadata (failed_exec_result err t md) = md" "er_payload (failed_exec_result err t md) = None"
  by (simp_all add: failed_exec_result_def)

section \<open>The dispatcher\<close>

text \<open>
  The dispatcher holds references to two registries, so their contents are what the world
  says at the time of the call. Its optional argument \<open>tool_pipeline\<close> is left at its
  default: tools run through the pipeline of the tools package. A \<open>StrEnum\<close> with two members leaves no third target:
  the final \<open>DispatchError\<close> of \<open>dispatch\<close> cannot be reached.
\<close>

record 'w dispatcher =
  dp_env :: "'w env"
  dp_tools :: "'w \<Rightarrow> 'w tool_registry"
  dp_providers :: "'w \<Rightarrow> 'w provider_registry"

text \<open>\<open>frozenset(Permission(value) for value in granted)\<close>.\<close>

fun resolve_permissions :: "string frozenset \<Rightarrow> permission frozenset res" where
  "resolve_permissions [] = Inr []"
| "resolve_permissions (v # vs) =
     rbind (mk_permission v) (\<lambda>p. rbind (resolve_permissions vs) (\<lambda>ps. Inr (p # ps)))"

definition tool_context_of :: "exec_context \<Rightarrow> tool_context" where
  "tool_context_of c = \<lparr>tc_log_level = xc_log_level c, tc_logger = xc_logger c,
     tc_runtime = xc_runtime c, tc_services = xc_services c\<rparr>"

definition exec_result_of_tool :: "tool_result \<Rightarrow> exec_result" where
  "exec_result_of_tool t = \<lparr>er_success = tr_success t, er_payload = tr_payload t,
     er_error = tr_error t, er_time = tr_time t,
     er_metadata = AList.update ''target'' (PStr ''tool'') (tr_metadata t)\<rparr>"

definition dispatch_to_tool ::
  "'w dispatcher \<Rightarrow> exec_request \<Rightarrow> exec_context \<Rightarrow> string frozenset \<Rightarrow> ('w, exec_result) py" where
  "dispatch_to_tool D req ctx granted = (\<lambda>w.
     case tool_lookup (xr_operation req) (dp_tools D w) of
       Inl e \<Rightarrow>
         (if exn_isa ToolRegistrationError e
          then (check_exec_result (failed_exec_result (exn_text e) 0 [(''target'', PStr ''tool'')]), w)
          else (Inl e, w))
     | Inr tool \<Rightarrow>
         (case resolve_permissions granted of
            Inl e \<Rightarrow>
              (if exn_isa ToolValidationError e
               then (check_exec_result (failed_exec_result (exn_text e) 0
                      [(''target'', PStr ''tool''), (''stage'', PStr ''permission_check'')]), w)
               else (Inl e, w))
          | Inr permissions \<Rightarrow>
              bnd (pipeline_run (dp_env D) tool (tool_context_of ctx) (xr_payload req) permissions)
                (\<lambda>result. lift_res (check_exec_result (exec_result_of_tool result))) w))"

definition dispatch_to_provider ::
  "'w dispatcher \<Rightarrow> exec_request \<Rightarrow> ('w, exec_result) py" where
  "dispatch_to_provider D req = (\<lambda>w.
     case provider_get (xr_operation req) (dp_providers D w) of
       Inl e \<Rightarrow>
         (if exn_isa ProviderRegistrationError e
          then (check_exec_result (failed_exec_result (exn_text e) 0 [(''target'', PStr ''provider'')]), w)
          else (Inl e, w))
     | Inr provider \<Rightarrow>
         bnd (reading (env_perf (dp_env D))) (\<lambda>started.
         attempt (prov_invoke provider (xr_payload req))
           (\<lambda>e. if exn_is_exception e
                 then bnd (reading (env_perf (dp_env D))) (\<lambda>now.
                        lift_res (check_exec_result (failed_exec_result (exn_text e) (now - started)
                          [(''target'', PStr ''provider'')])))
                 else throw e)
           (\<lambda>response. bnd (reading (env_perf (dp_env D))) (\<lambda>now.
              lift_res (check_exec_result
                \<lparr>er_success = True, er_payload = Some response, er_error = None,
                 er_time = now - started, er_metadata = [(''target'', PStr ''provider'')]\<rparr>)))) w)"

definition dispatch ::
  "'w dispatcher \<Rightarrow> exec_request \<Rightarrow> exec_context \<Rightarrow> string frozenset \<Rightarrow> ('w, exec_result) py" where
  "dispatch D req ctx granted =
     (case xr_target req of
        TOOL \<Rightarrow> dispatch_to_tool D req ctx granted
      | PROVIDER \<Rightarrow> dispatch_to_provider D req)"

section \<open>The engine\<close>

text \<open>The outcome an \<open>Authorizer\<close> reports.\<close>

record auth_outcome =
  ao_granted :: bool
  ao_reason :: "string option"

type_synonym 'w authorizer =
  "exec_request \<Rightarrow> exec_context \<Rightarrow> string frozenset \<Rightarrow> ('w, auth_outcome) py"

text \<open>A \<open>StructuredObservationEvent\<close>; its context carries nothing but the correlation id.\<close>

record observation =
  ob_name :: string
  ob_message :: string
  ob_correlation :: string
  ob_attributes :: payload

text \<open>\<open>xe_str\<close> is \<open>str\<close> of a payload, which is the payload class's own.\<close>

record 'w exec_engine =
  xe_dispatcher :: "'w dispatcher"
  xe_authorizer :: "'w authorizer option"
  xe_bus :: "(event \<Rightarrow> ('w, unit) py) option"
  xe_memory :: "'w memory_store_ops option"
  xe_sink :: "(observation \<Rightarrow> ('w, unit) py) option"
  xe_str :: "payload \<Rightarrow> string"

definition engine_publish :: "'w exec_engine \<Rightarrow> event \<Rightarrow> ('w, unit) py" where
  "engine_publish X e = (case xe_bus X of None \<Rightarrow> ret () | Some publish \<Rightarrow> publish e)"

definition engine_observe ::
  "'w exec_engine \<Rightarrow> string \<Rightarrow> string \<Rightarrow> exec_request \<Rightarrow> payload \<Rightarrow> ('w, unit) py" where
  "engine_observe X name message req attributes =
     (case xe_sink X of
        None \<Rightarrow> ret ()
      | Some emit \<Rightarrow> emit \<lparr>ob_name = name, ob_message = message, ob_correlation = xr_id req,
          ob_attributes = dict_update [(''target'', PStr (exec_target_value (xr_target req))),
            (''operation'', PStr (xr_operation req))] attributes\<rparr>)"

text \<open>\<open>content or "(no content)"\<close> and the entry recorded at a time.\<close>

definition remembered_content :: "'w exec_engine \<Rightarrow> exec_result \<Rightarrow> string" where
  "remembered_content X result =
     str_or (if er_success result \<and> er_payload result \<noteq> None
             then Some (xe_str X (the (er_payload result))) else er_error result) ''(no content)''"

definition remembered_entry ::
  "'w exec_engine \<Rightarrow> exec_request \<Rightarrow> exec_result \<Rightarrow> datetime \<Rightarrow> memory_entry" where
  "remembered_entry X req result now =
     \<lparr>me_id = xr_id req, me_content = remembered_content X result,
      me_tags = [exec_target_value (xr_target req)],
      me_metadata = [(''operation'', PStr (xr_operation req)), (''success'', PBool (er_success result))],
      me_created_at = now\<rparr>"

definition engine_remember :: "'w exec_engine \<Rightarrow> exec_request \<Rightarrow> exec_result \<Rightarrow> ('w, unit) py" where
  "engine_remember X req result =
     (case xe_memory X of
        None \<Rightarrow> ret ()
      | Some store \<Rightarrow>
          bnd (reading (env_now (dp_env (xe_dispatcher X)))) (\<lambda>now.
          bnd (lift_res (check_memory_entry (remembered_entry X req result now))) (\<lambda>entry.
          attempt (ms_add store entry)
            (\<lambda>e. if exn_is_exception e then ret () else throw e)
            ret)))"

text \<open>\<open>str\<close> of an optional message inside an f-string.\<close>

definition opt_text :: "string option \<Rightarrow> string" where
  "opt_text x = (case x of None \<Rightarrow> ''None'' | Some s \<Rightarrow> s)"

definition opt_val :: "string option \<Rightarrow> pyval" where
  "opt_val x = (case x of None \<Rightarrow> PNone | Some s \<Rightarrow> PStr s)"

text \<open>\<open>stage if isinstance(stage, str) else None\<close>.\<close>

definition stage_of :: "payload \<Rightarrow> string option" where
  "stage_of md = (case map_of md ''stage'' of Some (PStr s) \<Rightarrow> Some s | _ \<Rightarrow> None)"

definition terminal_event :: "exec_request \<Rightarrow> exec_result \<Rightarrow> event" where
  "terminal_event req result =
     (if er_success result
      then ExecutionCompleted (xr_id req) (xr_target req) (xr_operation req) (er_time result)
      else ExecutionFailed (xr_id req) (xr_target req) (xr_operation req)
             (str_or (er_error result) []) (stage_of (er_metadata result)))"

definition engine_finish :: "'w exec_engine \<Rightarrow> exec_request \<Rightarrow> exec_result \<Rightarrow> ('w, exec_result) py" where
  "engine_finish X req result =
     andthen (engine_publish X (terminal_event req result))
     (andthen
       (if er_success result
        then engine_observe X ''execution.completed''
               (''Request '' @ xr_id req @ '' completed successfully.'') req
               [(''execution_time_seconds'', PFloat (Fin (er_time result)))]
        else engine_observe X ''execution.failed''
               (''Request '' @ xr_id req @ '' failed: '' @ opt_text (er_error result)) req
               [(''error'', opt_val (er_error result)), (''stage'', opt_val (stage_of (er_metadata result)))])
     (andthen (engine_remember X req result) (ret result)))"

definition denial_result :: "exec_request \<Rightarrow> auth_outcome \<Rightarrow> exec_result" where
  "denial_result req outcome =
     failed_exec_result (str_or (ao_reason outcome) ''Authorization denied.'') 0
       [(''stage'', PStr ''authorization''), (''target'', PStr (exec_target_value (xr_target req)))]"

text \<open>The part of \<open>execute\<close> between the start and the outcome: the gate and the dispatch.\<close>

definition engine_decide ::
  "'w exec_engine \<Rightarrow> exec_request \<Rightarrow> exec_context \<Rightarrow> string frozenset \<Rightarrow> ('w, exec_result) py" where
  "engine_decide X req ctx granted =
     (case xe_authorizer X of
        None \<Rightarrow> dispatch (xe_dispatcher X) req ctx []
      | Some check \<Rightarrow>
          bnd (check req ctx granted) (\<lambda>outcome.
            if \<not> ao_granted outcome then lift_res (check_exec_result (denial_result req outcome))
            else dispatch (xe_dispatcher X) req ctx granted))"

definition execute ::
  "'w exec_engine \<Rightarrow> exec_request \<Rightarrow> exec_context \<Rightarrow> string frozenset \<Rightarrow> ('w, exec_result) py" where
  "execute X req ctx granted =
     andthen (engine_publish X (ExecutionStarted (xr_id req) (xr_target req) (xr_operation req)))
     (andthen (engine_observe X ''execution.started'' (''Executing request '' @ xr_id req @ ''.'') req [])
     (bnd (engine_decide X req ctx granted) (engine_finish X req)))"

section \<open>Dispatch\<close>

lemma resolve_permissions_Inr: "resolve_permissions vs = Inr ps \<Longrightarrow> ps = map Permission vs"
  by (induction vs arbitrary: ps) (auto simp: rbind_Inr_iff dest!: mk_permission_value)

lemma resolve_permissions_Inl:
  "resolve_permissions vs = Inl e \<Longrightarrow> exn_isa ToolValidationError e \<and> \<not> blank (exn_text e)"
proof (induction vs)
  case (Cons v vs)
  show ?case
  proof (cases "mk_permission v")
    case (Inl e')
    with Cons.prems show ?thesis using mk_permission_error[of v e'] by simp
  next
    case (Inr p)
    with Cons show ?thesis by (cases "resolve_permissions vs") simp_all
  qed
qed simp

lemma tool_lookup_Inl: "tool_lookup i r = Inl e \<Longrightarrow> e = tool_missing i"
  by (auto simp: tool_lookup_def split: option.splits)

lemma provider_get_Inl: "provider_get i r = Inl e \<Longrightarrow> e = provider_missing i"
  by (auto simp: provider_get_def split: option.splits)

lemma tool_missing_caught [simp]:
  "exn_isa ToolRegistrationError (tool_missing i)" "\<not> blank (exn_text (tool_missing i))"
  by (simp_all add: tool_missing_def py_isspace_def Let_def)

lemma provider_missing_caught [simp]:
  "exn_isa ProviderRegistrationError (provider_missing i)" "\<not> blank (exn_text (provider_missing i))"
  by (simp_all add: provider_missing_def py_isspace_def Let_def)

lemma exec_result_of_tool_ok [simp]: "exec_result_ok (exec_result_of_tool t) \<longleftrightarrow> tool_result_ok t"
  by (simp add: exec_result_ok_def tool_result_ok_def exec_result_of_tool_def)

lemma dispatch_unknown_tool:
  "tool_lookup (xr_operation req) (dp_tools D w) = Inl e \<Longrightarrow> dispatch_to_tool D req ctx granted w =
    (Inr (failed_exec_result (exn_text (tool_missing (xr_operation req))) 0 [(''target'', PStr ''tool'')]), w)"
  using tool_lookup_Inl[of "xr_operation req" "dp_tools D w" e] by (simp add: dispatch_to_tool_def)

lemma dispatch_bad_permission:
  "tool_lookup (xr_operation req) (dp_tools D w) = Inr t \<Longrightarrow> resolve_permissions granted = Inl e \<Longrightarrow>
    dispatch_to_tool D req ctx granted w = (Inr (failed_exec_result (exn_text e) 0
      [(''target'', PStr ''tool''), (''stage'', PStr ''permission_check'')]), w)"
  using resolve_permissions_Inl[of granted e] by (simp add: dispatch_to_tool_def)

lemma dispatch_runs_tool:
  "tool_lookup (xr_operation req) (dp_tools D w) = Inr t \<Longrightarrow> resolve_permissions granted = Inr ps \<Longrightarrow>
    dispatch_to_tool D req ctx granted w =
      bnd (pipeline_run (dp_env D) t (tool_context_of ctx) (xr_payload req) (map Permission granted))
        (\<lambda>r. lift_res (check_exec_result (exec_result_of_tool r))) w"
  using resolve_permissions_Inr[of granted ps] by (simp add: dispatch_to_tool_def)

text \<open>A tool reports success through the dispatcher only to a caller granted all it requires.\<close>

lemma dispatch_tool_success:
  assumes "dispatch_to_tool D req ctx granted w = (Inr r, w')" and "er_success r"
  shows "\<exists>t. tool_lookup (xr_operation req) (dp_tools D w) = Inr t
    \<and> perm_value ` set (tool_permissions t) \<subseteq> set granted"
proof (cases "tool_lookup (xr_operation req) (dp_tools D w)")
  case (Inl e)
  with assms show ?thesis by (auto simp: dispatch_unknown_tool)
next
  case (Inr t)
  show ?thesis
  proof (cases "resolve_permissions granted")
    case (Inl e)
    with Inr assms show ?thesis by (auto simp: dispatch_bad_permission)
  next
    case (Inr ps)
    note run = dispatch_runs_tool[OF \<open>tool_lookup _ _ = Inr t\<close> Inr, of ctx]
    obtain x w1 where x: "pipeline_run (dp_env D) t (tool_context_of ctx) (xr_payload req)
        (map Permission granted) w = (x, w1)" by (cases "pipeline_run (dp_env D) t (tool_context_of ctx)
          (xr_payload req) (map Permission granted) w")
    with assms run obtain tr where tr: "x = Inr tr" "r = exec_result_of_tool tr"
      by (cases x) (auto simp: bnd_def check_exec_result_iff)
    with assms(2) have "tr_success tr" by (simp add: exec_result_of_tool_def)
    from pipeline_success_granted[OF x[unfolded tr(1)] this]
    have "set (tool_permissions t) \<subseteq> Permission ` set granted" by simp
    then have "perm_value ` set (tool_permissions t) \<subseteq> set granted" by auto
    with \<open>tool_lookup _ _ = Inr t\<close> show ?thesis by blast
  qed
qed

text \<open>What a provider has to keep for its calls never to raise out of the dispatcher.\<close>

definition provider_contained :: "'w env \<Rightarrow> 'w provider \<Rightarrow> bool" where
  "provider_contained E p \<longleftrightarrow>
     (\<forall>req w e w'. prov_invoke p req w = (Inl e, w') \<longrightarrow> exn_is_exception e \<and> \<not> blank (exn_text e))
     \<and> (\<forall>req w a w1 x w2 b w3. env_perf E w = (a, w1) \<longrightarrow> prov_invoke p req w1 = (x, w2) \<longrightarrow>
          env_perf E w2 = (b, w3) \<longrightarrow> a \<le> b)"

lemma dispatch_provider_returns:
  assumes "\<And>p. provider_get (xr_operation req) (dp_providers D w) = Inr p \<Longrightarrow> provider_contained (dp_env D) p"
  shows "\<exists>r w'. dispatch_to_provider D req w = (Inr r, w') \<and> exec_result_ok r"
proof (cases "provider_get (xr_operation req) (dp_providers D w)")
  case (Inl e)
  then show ?thesis
    using provider_get_Inl[OF Inl] by (simp add: dispatch_to_provider_def)
next
  case (Inr p)
  obtain a w1 where a: "env_perf (dp_env D) w = (a, w1)" by fastforce
  obtain x w2 where x: "prov_invoke p (xr_payload req) w1 = (x, w2)" by fastforce
  obtain b w3 where b: "env_perf (dp_env D) w2 = (b, w3)" by fastforce
  from assms[OF Inr] a x b have "a \<le> b" unfolding provider_contained_def by blast
  moreover have "exn_is_exception e \<and> \<not> blank (exn_text e)" if "x = Inl e" for e
    using assms[OF Inr] x that unfolding provider_contained_def by blast
  ultimately show ?thesis
    using Inr a x b
    by (cases x) (simp_all add: dispatch_to_provider_def bnd_reading reading_apply attempt_def)
qed

lemma dispatch_tool_returns:
  assumes "\<And>t. tool_lookup (xr_operation req) (dp_tools D w) = Inr t \<Longrightarrow>
    tool_interface t \<and> clock_forward (dp_env D) t"
  shows "\<exists>r w'. dispatch_to_tool D req ctx granted w = (Inr r, w') \<and> exec_result_ok r"
proof (cases "tool_lookup (xr_operation req) (dp_tools D w)")
  case (Inl e)
  then show ?thesis by (simp add: dispatch_unknown_tool)
next
  case (Inr t)
  show ?thesis
  proof (cases "resolve_permissions granted")
    case (Inl e)
    with Inr show ?thesis using resolve_permissions_Inl[of granted e] by (simp add: dispatch_bad_permission)
  next
    case (Inr ps)
    from assms[OF \<open>tool_lookup _ _ = Inr t\<close>]
    have "tool_interface t" "clock_forward (dp_env D) t" by simp_all
    from tool_interface.pipeline_returns[OF this]
    obtain r w' where "pipeline_run (dp_env D) t (tool_context_of ctx) (xr_payload req)
        (map Permission granted) w = (Inr r, w')" "tool_result_ok r" by blast
    then show ?thesis
      by (simp add: dispatch_runs_tool[OF \<open>tool_lookup _ _ = Inr t\<close> Inr] bnd_def)
  qed
qed

text \<open>Every collaborator a request may reach is well behaved.\<close>

definition dispatcher_contained :: "'w dispatcher \<Rightarrow> bool" where
  "dispatcher_contained D \<longleftrightarrow>
     (\<forall>i w t. tool_lookup i (dp_tools D w) = Inr t \<longrightarrow> tool_interface t \<and> clock_forward (dp_env D) t)
     \<and> (\<forall>i w p. provider_get i (dp_providers D w) = Inr p \<longrightarrow> provider_contained (dp_env D) p)"

lemma dispatch_returns:
  "dispatcher_contained D \<Longrightarrow> \<exists>r w'. dispatch D req ctx granted w = (Inr r, w') \<and> exec_result_ok r"
  unfolding dispatch_def dispatcher_contained_def
  using dispatch_tool_returns[of req D w ctx granted] dispatch_provider_returns[of req D w]
  by (cases "xr_target req") simp_all

section \<open>The engine's collaborators\<close>

text \<open>
  What the engine needs of its bus, sink, store and authorizer to return a result for every
  request: the bus and the sink do not raise (the in-memory bus swallows what handlers
  raise), the store raises nothing outside \<open>Exception\<close>, the rendering of a payload is not
  blank, the authorizer returns and a denial comes with no reason or one that is not blank.
\<close>

locale exec_collaborators =
  fixes X :: "'w exec_engine"
  assumes publish_returns: "\<exists>w'. engine_publish X e w = (Inr (), w')"
    and observe_returns: "\<exists>w'. engine_observe X n m req a w = (Inr (), w')"
    and store_raises: "xe_memory X = Some store \<Longrightarrow> ms_add store entry w = (Inl x, w') \<Longrightarrow> exn_is_exception x"
    and str_not_blank: "xe_memory X \<noteq> None \<Longrightarrow> \<not> blank (xe_str X p)"
    and check_returns: "xe_authorizer X = Some check \<Longrightarrow> exec_request_ok req \<Longrightarrow> \<exists>a w'. check req ctx granted w = (Inr a, w')
          \<and> (ao_granted a \<or> \<not> blank (str_or (ao_reason a) ''Authorization denied.''))"
begin

lemma andthen_publish: "\<exists>w'. andthen (engine_publish X e) k w = k w'"
  using publish_returns[of e w] by (auto simp: andthen_Inr)

lemma andthen_observe: "\<exists>w'. andthen (engine_observe X n m req a) k w = k w'"
  using observe_returns[of n m req a w] by (auto simp: andthen_Inr)

lemma remember_returns:
  assumes "exec_request_ok req" and "exec_result_ok r"
  shows "\<exists>w'. engine_remember X req r w = (Inr (), w')"
proof (cases "xe_memory X")
  case None
  then show ?thesis by (simp add: engine_remember_def)
next
  case (Some store)
  have "\<not> blank (remembered_content X r)"
    using assms(2) str_not_blank Some
    by (auto simp: remembered_content_def exec_result_ok_def str_or_def py_isspace_def Let_def
        split: option.splits)
  then have entry: "check_memory_entry (remembered_entry X req r now) = Inr (remembered_entry X req r now)"
    for now using assms(1) by (simp add: check_memory_entry_def exec_request_ok_def remembered_entry_def)
  obtain now w1 where now: "env_now (dp_env (xe_dispatcher X)) w = (now, w1)" by fastforce
  obtain x w2 where x: "ms_add store (remembered_entry X req r now) w1 = (x, w2)" by fastforce
  have "\<And>e. x = Inl e \<Longrightarrow> exn_is_exception e" using store_raises[OF Some] x by blast
  then show ?thesis
    using x by (cases x) (simp_all add: engine_remember_def Some bnd_def reading_def now entry attempt_def)
qed

lemma finish_returns:
  assumes "exec_request_ok req" and "exec_result_ok r"
  shows "\<exists>w'. engine_finish X req r w = (Inr r, w')"
proof -
  have remember: "\<exists>w'. andthen (engine_remember X req r) (ret r) u = (Inr r, w')" for u
    using remember_returns[OF assms, of u] by (auto simp: andthen_Inr)
  have "\<exists>w'. andthen (if b then engine_observe X n m req a else engine_observe X n' m' req a')
      (andthen (engine_remember X req r) (ret r)) u = (Inr r, w')" for b n m a n' m' a' u
    using andthen_observe[of n m req a "andthen (engine_remember X req r) (ret r)" u]
      andthen_observe[of n' m' req a' "andthen (engine_remember X req r) (ret r)" u] remember
    by (cases b) auto
  then show ?thesis
    unfolding engine_finish_def using andthen_publish[of "terminal_event req r" _ w] by metis
qed

lemma decide_returns:
  assumes "exec_request_ok req" and "dispatcher_contained (xe_dispatcher X)"
  shows "\<exists>r w'. engine_decide X req ctx granted w = (Inr r, w') \<and> exec_result_ok r"
proof (cases "xe_authorizer X")
  case None
  then show ?thesis using dispatch_returns[OF assms(2)] by (simp add: engine_decide_def)
next
  case (Some check)
  then obtain a u where a: "check req ctx granted w = (Inr a, u)"
    "ao_granted a \<or> \<not> blank (str_or (ao_reason a) ''Authorization denied.'')"
    using check_returns[of check req ctx granted w] assms(1) by blast
  show ?thesis
  proof (cases "ao_granted a")
    case True
    with Some a dispatch_returns[OF assms(2), of req ctx granted u]
    show ?thesis by (simp add: engine_decide_def bnd_Inr)
  next
    case False
    with a have ok: "exec_result_ok (denial_result req a)" by (simp add: denial_result_def)
    with Some a False show ?thesis by (simp add: engine_decide_def bnd_Inr)
  qed
qed

lemma execute_returns:
  assumes "exec_request_ok req" and "dispatcher_contained (xe_dispatcher X)"
  shows "\<exists>r w'. execute X req ctx granted w = (Inr r, w') \<and> exec_result_ok r"
proof -
  have "\<exists>r w'. bnd (engine_decide X req ctx granted) (engine_finish X req) u = (Inr r, w')
      \<and> exec_result_ok r" for u
  proof -
    obtain r v where r: "engine_decide X req ctx granted u = (Inr r, v)" "exec_result_ok r"
      using decide_returns[OF assms] by blast
    obtain w' where "engine_finish X req r v = (Inr r, w')" using finish_returns[OF assms(1) r(2)] by blast
    with r show ?thesis by (simp add: bnd_Inr)
  qed
  then show ?thesis unfolding execute_def using andthen_publish andthen_observe by metis
qed

end

text \<open>The engine as it is built without optional collaborators.\<close>

definition plain_engine :: "'w dispatcher \<Rightarrow> (payload \<Rightarrow> string) \<Rightarrow> 'w exec_engine" where
  "plain_engine D str = \<lparr>xe_dispatcher = D, xe_authorizer = None, xe_bus = None, xe_memory = None,
     xe_sink = None, xe_str = str\<rparr>"

interpretation plain: exec_collaborators "plain_engine D str"
  by unfold_locales (simp_all add: plain_engine_def engine_publish_def engine_observe_def)

lemma engine_finish_result: "engine_finish X req r w = (Inr r', w') \<Longrightarrow> r' = r"
  unfolding engine_finish_def by (auto dest!: andthen_InrD)

text \<open>Where a result of the engine comes from.\<close>

lemma execute_decided:
  "execute X req ctx granted w = (Inr r, w') \<Longrightarrow> \<exists>u v. engine_decide X req ctx granted u = (Inr r, v)"
  unfolding execute_def by (auto dest!: andthen_InrD bnd_InrD engine_finish_result)

lemma decide_cases:
  assumes "engine_decide X req ctx granted w = (Inr r, w')"
  shows "(xe_authorizer X = None \<and> dispatch (xe_dispatcher X) req ctx [] w = (Inr r, w'))
    \<or> (\<exists>check a u. xe_authorizer X = Some check \<and> check req ctx granted w = (Inr a, u)
        \<and> (if ao_granted a then dispatch (xe_dispatcher X) req ctx granted u = (Inr r, w')
           else r = denial_result req a))"
proof (cases "xe_authorizer X")
  case (Some check)
  with assms obtain a u where a: "check req ctx granted w = (Inr a, u)"
    "(if \<not> ao_granted a then lift_res (check_exec_result (denial_result req a))
      else dispatch (xe_dispatcher X) req ctx granted) u = (Inr r, w')"
    unfolding engine_decide_def by (auto dest!: bnd_InrD)
  then have "if ao_granted a then dispatch (xe_dispatcher X) req ctx granted u = (Inr r, w')
      else r = denial_result req a"
    by (simp add: check_exec_result_iff split: if_splits)
  with Some a(1) show ?thesis by blast
qed (use assms in \<open>simp add: engine_decide_def\<close>)

lemma denial_result_failed [simp]: "\<not> er_success (denial_result req a)"
  by (simp add: denial_result_def)

text \<open>A tool that reports success through the engine requires nothing the caller lacks, and
  nothing at all when no authorizer is configured.\<close>

lemma execute_tool_success:
  assumes "execute X req ctx granted w = (Inr r, w')" and "xr_target req = TOOL" and "er_success r"
  shows "\<exists>u t. tool_lookup (xr_operation req) (dp_tools (xe_dispatcher X) u) = Inr t
    \<and> perm_value ` set (tool_permissions t) \<subseteq> (if xe_authorizer X = None then {} else set granted)"
proof -
  obtain u v where "engine_decide X req ctx granted u = (Inr r, v)" using execute_decided[OF assms(1)] by blast
  then obtain g x v where "dispatch_to_tool (xe_dispatcher X) req ctx g x = (Inr r, v)"
      "g = (if xe_authorizer X = None then [] else granted)"
    using decide_cases[of X req ctx granted u r v] assms(2,3)
    by (auto simp: dispatch_def split: if_splits)
  then obtain t where "tool_lookup (xr_operation req) (dp_tools (xe_dispatcher X) x) = Inr t"
      "perm_value ` set (tool_permissions t) \<subseteq> set g"
    using dispatch_tool_success[of "xe_dispatcher X" req ctx g x r v] assms(3) by blast
  with \<open>g = _\<close> show ?thesis by (intro exI[of _ x] exI[of _ t]) (cases "xe_authorizer X"; simp)
qed

lemma engine_dispatcher_update [simp]:
  "engine_publish (X\<lparr>xe_dispatcher := D\<rparr>) e = engine_publish X e"
  "engine_observe (X\<lparr>xe_dispatcher := D\<rparr>) n m req a = engine_observe X n m req a"
  "remembered_entry (X\<lparr>xe_dispatcher := D\<rparr>) req r now = remembered_entry X req r now"
  by (simp_all add: engine_publish_def engine_observe_def remembered_entry_def remembered_content_def
      cong: if_cong)

lemma engine_finish_dispatcher_update:
  "dp_env D = dp_env (xe_dispatcher X) \<Longrightarrow> engine_finish (X\<lparr>xe_dispatcher := D\<rparr>) req = engine_finish X req"
  by (rule ext) (cases "xe_memory X"; simp add: engine_finish_def engine_remember_def)

lemma decide_denied:
  assumes "xe_authorizer X = Some check" and "\<And>w a w'. check req ctx granted w = (Inr a, w') \<Longrightarrow> \<not> ao_granted a"
  shows "engine_decide X req ctx granted =
    bnd (check req ctx granted) (\<lambda>a. lift_res (check_exec_result (denial_result req a)))"
  using assms(1) assms(2) by (intro ext) (auto simp: engine_decide_def bnd_def split: prod.splits sum.splits)

section \<open>Properties\<close>

definition demo_exec_context :: exec_context where
  "demo_exec_context = \<lparr>xc_log_level = ''INFO'', xc_logger = ''execution'', xc_runtime = 0, xc_services = 0\<rparr>"

definition demo_dispatcher :: "nat dispatcher" where
  "demo_dispatcher = \<lparr>dp_env = counting_env, dp_tools = (\<lambda>_. [(''echo'', echo_tool)]),
     dp_providers = (\<lambda>_. [(''p'', demo_provider ''p'')])\<rparr>"

definition tool_request :: "string \<Rightarrow> exec_request" where
  "tool_request op = \<lparr>xr_target = TOOL, xr_operation = op, xr_payload = [], xr_id = ''r1''\<rparr>"

lemma demo_dispatcher_contained: "dispatcher_contained demo_dispatcher"
proof -
  have "tool_interface echo_tool" by unfold_locales (auto simp: echo_tool_def)
  moreover have "clock_forward counting_env echo_tool"
    by (auto simp: clock_forward_def counting_env_def echo_tool_def)
  moreover have "provider_contained counting_env (demo_provider ''p'')"
    by (auto simp: provider_contained_def counting_env_def demo_provider_def)
  ultimately show ?thesis
    by (auto simp: dispatcher_contained_def demo_dispatcher_def tool_lookup_def provider_get_def
        split: if_splits)
qed

text \<open>C1 The engine reports success for a tool only if the tool is registered under the
  requested name and every permission it requires is among those the caller was granted by a
  configured authorizer; without an authorizer the tool requires none.\<close>

theorem execute_permission_gate:
  assumes "dp_tools (xe_dispatcher X) = (\<lambda>_. registered)" and "xr_target req = TOOL"
    and "execute X req ctx granted w = (Inr r, w')" and "er_success r"
  shows "\<exists>t. tool_lookup (xr_operation req) registered = Inr t
    \<and> perm_value ` set (tool_permissions t) \<subseteq> (if xe_authorizer X = None then {} else set granted)"
  using execute_tool_success[OF assms(3,2,4)] assms(1) by simp

theorem execute_permission_gate_witness:
  "\<exists>t. tool_lookup ''echo'' [(''echo'', echo_tool :: nat tool)] = Inr t
    \<and> perm_value ` set (tool_permissions t) \<subseteq> {}"
proof -
  obtain r w' where run: "execute (plain_engine demo_dispatcher (\<lambda>_. ''{}'')) (tool_request ''echo'')
      demo_exec_context [] 0 = (Inr r, w')" "er_success r"
    by (simp add: execute_def plain_engine_def engine_publish_def engine_observe_def engine_decide_def
        dispatch_def tool_request_def dispatch_to_tool_def demo_dispatcher_def tool_lookup_def
        pipeline_run_def echo_tool_def missing_permissions_def reading_def counting_env_def tool_success_def
        check_tool_result_ok tool_result_ok_def exec_result_of_tool_def exec_result_ok_def engine_finish_def
        engine_remember_def bnd_def andthen_def attempt_def)
  show ?thesis
    using execute_permission_gate[OF _ _ run, of "[(''echo'', echo_tool)]"]
    by (simp add: plain_engine_def demo_dispatcher_def tool_request_def)
qed

text \<open>C2 A request the authorizer denies never reaches the dispatcher: replacing the
  dispatcher by any other changes neither the result nor any effect, and the result is a
  failure of the stage \<open>authorization\<close>.\<close>

theorem execute_denied_never_dispatches:
  assumes "xe_authorizer X = Some check"
    and "\<And>w a w'. check req ctx granted w = (Inr a, w') \<Longrightarrow> \<not> ao_granted a"
    and "dp_env D = dp_env (xe_dispatcher X)"
  shows "execute (X\<lparr>xe_dispatcher := D\<rparr>) req ctx granted = execute X req ctx granted
    \<and> (execute X req ctx granted w = (Inr r, w') \<longrightarrow>
         \<not> er_success r \<and> stage_of (er_metadata r) = Some ''authorization'')"
proof
  show "execute (X\<lparr>xe_dispatcher := D\<rparr>) req ctx granted = execute X req ctx granted"
    using assms by (simp add: execute_def decide_denied engine_finish_dispatcher_update)
  show "execute X req ctx granted w = (Inr r, w') \<longrightarrow>
         \<not> er_success r \<and> stage_of (er_metadata r) = Some ''authorization''"
    using decide_denied[of X check req ctx granted, OF assms(1,2)]
    by (auto dest!: execute_decided bnd_InrD simp: check_exec_result_iff denial_result_def stage_of_def)
qed

theorem execute_denied_never_dispatches_witness:
  "\<not> er_success (failed_exec_result ''no'' 0 [(''stage'', PStr ''authorization''), (''target'', PStr ''tool'')])"
proof -
  let ?X = "(plain_engine demo_dispatcher (\<lambda>_. ''{}''))
    \<lparr>xe_authorizer := Some (\<lambda>_ _ _. ret \<lparr>ao_granted = False, ao_reason = Some ''no''\<rparr>)\<rparr>"
  have run: "execute ?X (tool_request ''echo'') demo_exec_context [] 0 =
    (Inr (failed_exec_result ''no'' 0 [(''stage'', PStr ''authorization''), (''target'', PStr ''tool'')]), 0)"
    by (simp add: execute_def plain_engine_def engine_publish_def engine_observe_def engine_decide_def
        tool_request_def bnd_def andthen_def denial_result_def engine_finish_def engine_remember_def
        py_isspace_def Let_def)
  show ?thesis
    using execute_denied_never_dispatches[of ?X _ "tool_request ''echo''" demo_exec_context "[]" demo_dispatcher 0]
      run by (simp add: plain_engine_def)
qed

text \<open>C7 For a valid request, tools and providers that keep their contracts and
  collaborators that do not raise, \<open>execute\<close> returns a well-formed result and raises
  nothing, whatever the request names, whatever permissions are claimed and whatever the
  store raises.\<close>

theorem execute_total:
  assumes "exec_collaborators X" and "dispatcher_contained (xe_dispatcher X)" and "exec_request_ok req"
  shows "\<exists>r w'. execute X req ctx granted w = (Inr r, w') \<and> exec_result_ok r"
  using assms(1,3,2) by (rule exec_collaborators.execute_returns)

theorem execute_total_witness:
  "\<exists>r w'. execute (plain_engine demo_dispatcher (\<lambda>_. ''{}'')) (tool_request ''nothing'')
     demo_exec_context [] 0 = (Inr r, w') \<and> exec_result_ok r"
  by (rule execute_total[OF plain.exec_collaborators_axioms])
    (simp_all add: demo_dispatcher_contained plain_engine_def exec_request_ok_def tool_request_def
      py_isspace_def Let_def)

text \<open>A bus that records what is published, in front of the rest of the world.\<close>

definition recording :: "event \<Rightarrow> (event list \<times> 'u, unit) py" where
  "recording e = (\<lambda>(l, u). (Inr (), l @ [e], u))"

definition log_is :: "event list \<Rightarrow> event list \<times> 'u \<Rightarrow> bool" where
  "log_is l w = (fst w = l)"

text \<open>A call that publishes nothing, however it ends.\<close>

definition silent :: "(event list \<times> 'u, 'a) py \<Rightarrow> bool" where
  "silent m \<longleftrightarrow> (\<forall>l. keeps (log_is l) m)"

lemma silent_ret [intro, simp]: "silent (ret x)" "silent (throw e)" "silent (lift_res r)"
  by (simp_all add: silent_def)

lemma silent_bnd [intro]: "silent m \<Longrightarrow> (\<And>x. silent (f x)) \<Longrightarrow> silent (bnd m f)"
  unfolding silent_def by (blast intro: keeps_bnd)

lemma silent_andthen [intro]: "silent m \<Longrightarrow> silent k \<Longrightarrow> silent (andthen m k)"
  unfolding andthen_def by (rule silent_bnd)

lemma silent_attempt [intro]:
  "silent m \<Longrightarrow> (\<And>e. silent (h e)) \<Longrightarrow> (\<And>x. silent (k x)) \<Longrightarrow> silent (attempt m h k)"
  unfolding silent_def by (blast intro: keeps_attempt)

lemma silentI: "(\<And>w. fst (snd (m w)) = fst w) \<Longrightarrow> silent m"
  by (simp add: silent_def keeps_def log_is_def)

lemma silentD: "silent m \<Longrightarrow> fst (snd (m w)) = fst w"
  by (cases w) (simp add: silent_def keeps_def log_is_def)

lemma silent_run: "silent m \<Longrightarrow> m (l, u) = (x, w') \<Longrightarrow> \<exists>u'. w' = (l, u')"
  using silentD[of m "(l, u)"] by (cases w') simp

text \<open>
  What is handed to the engine publishes nothing of its own: the clocks, the tools and
  providers of the two registries, the authorizer, the observation sink, the memory store.
\<close>

definition silent_collaborators :: "(event list \<times> 'u) exec_engine \<Rightarrow> bool" where
  "silent_collaborators X \<longleftrightarrow>
     silent (reading (env_perf (dp_env (xe_dispatcher X))))
     \<and> silent (reading (env_now (dp_env (xe_dispatcher X))))
     \<and> (\<forall>i w t. tool_lookup i (dp_tools (xe_dispatcher X) w) = Inr t \<longrightarrow>
          (\<forall>p. silent (tool_validate t p)) \<and> (\<forall>c p. silent (tool_execute t c p)))
     \<and> (\<forall>i w q. provider_get i (dp_providers (xe_dispatcher X) w) = Inr q \<longrightarrow>
          (\<forall>p. silent (prov_invoke q p)))
     \<and> (\<forall>check req ctx g. xe_authorizer X = Some check \<longrightarrow> silent (check req ctx g))
     \<and> (\<forall>emit ob. xe_sink X = Some emit \<longrightarrow> silent (emit ob))
     \<and> (\<forall>store entry. xe_memory X = Some store \<longrightarrow> silent (ms_add store entry))"

text \<open>Then nothing the engine does on the way to an outcome publishes anything.\<close>

lemma pipeline_silent:
  assumes "silent (reading (env_perf E))" and "\<And>p. silent (tool_validate t p)"
    and "\<And>c p. silent (tool_execute t c p)"
  shows "silent (pipeline_run E t ctx req granted)"
  unfolding pipeline_run_def
  by (auto simp: Let_def intro!: silent_attempt silent_bnd assms)

lemma dispatch_silent:
  assumes "silent_collaborators X"
  shows "silent (dispatch (xe_dispatcher X) req ctx granted)"
proof (cases "xr_target req")
  case TOOL
  have "fst (snd (dispatch_to_tool (xe_dispatcher X) req ctx granted w)) = fst w" for w
  proof (cases "tool_lookup (xr_operation req) (dp_tools (xe_dispatcher X) w)")
    case (Inl e)
    then show ?thesis by (simp add: dispatch_unknown_tool)
  next
    case (Inr t)
    with assms have "silent (reading (env_perf (dp_env (xe_dispatcher X))))"
        "\<And>p. silent (tool_validate t p)" "\<And>c p. silent (tool_execute t c p)"
      unfolding silent_collaborators_def by blast+
    then have "silent (pipeline_run (dp_env (xe_dispatcher X)) t (tool_context_of ctx) (xr_payload req) ps)"
      for ps by (rule pipeline_silent)
    then have run: "silent (bnd (pipeline_run (dp_env (xe_dispatcher X)) t (tool_context_of ctx) (xr_payload req) ps)
        (\<lambda>r. lift_res (check_exec_result (exec_result_of_tool r))))" for ps by blast
    show ?thesis
      using Inr silentD[OF run] by (cases "resolve_permissions granted")
        (simp_all add: dispatch_bad_permission dispatch_runs_tool)
  qed
  with TOOL show ?thesis by (simp add: dispatch_def silentI)
next
  case PROVIDER
  have "fst (snd (dispatch_to_provider (xe_dispatcher X) req w)) = fst w" for w
  proof (cases "provider_get (xr_operation req) (dp_providers (xe_dispatcher X) w)")
    case (Inl e)
    then show ?thesis using provider_get_Inl[OF Inl] by (simp add: dispatch_to_provider_def)
  next
    case (Inr q)
    with assms have "silent (reading (env_perf (dp_env (xe_dispatcher X))))" "\<And>p. silent (prov_invoke q p)"
      unfolding silent_collaborators_def by blast+
    then have "silent (bnd (reading (env_perf (dp_env (xe_dispatcher X)))) (\<lambda>started.
         attempt (prov_invoke q (xr_payload req))
           (\<lambda>e. if exn_is_exception e
                 then bnd (reading (env_perf (dp_env (xe_dispatcher X)))) (\<lambda>now. lift_res (f e started now))
                 else throw e)
           (\<lambda>response. bnd (reading (env_perf (dp_env (xe_dispatcher X))))
              (\<lambda>now. lift_res (g response started now)))))" for f g
      by (intro silent_bnd silent_attempt) auto
    from silentD[OF this] Inr show ?thesis by (simp add: dispatch_to_provider_def)
  qed
  with PROVIDER show ?thesis by (simp add: dispatch_def silentI)
qed

lemma decide_silent: "silent_collaborators X \<Longrightarrow> silent (engine_decide X req ctx granted)"
  using dispatch_silent[of X req ctx]
  by (auto simp: engine_decide_def silent_collaborators_def split: option.split)

lemma observe_silent: "silent_collaborators X \<Longrightarrow> silent (engine_observe X n m req a)"
  by (auto simp: engine_observe_def silent_collaborators_def split: option.split)

lemma remember_silent: "silent_collaborators X \<Longrightarrow> silent (engine_remember X req r)"
  unfolding engine_remember_def silent_collaborators_def
  by (cases "xe_memory X") (auto intro!: silent_bnd silent_attempt)

lemma finish_events:
  assumes "xe_bus X = Some recording" and "silent_collaborators X"
    and "engine_finish X req r (l, u) = (Inr r', w')"
  shows "fst w' = l @ [terminal_event req r]"
proof -
  let ?obs = "if er_success r
        then engine_observe X ''execution.completed''
               (''Request '' @ xr_id req @ '' completed successfully.'') req
               [(''execution_time_seconds'', PFloat (Fin (er_time r)))]
        else engine_observe X ''execution.failed''
               (''Request '' @ xr_id req @ '' failed: '' @ opt_text (er_error r)) req
               [(''error'', opt_val (er_error r)), (''stage'', opt_val (stage_of (er_metadata r)))]"
  have "silent (andthen ?obs (andthen (engine_remember X req r) (ret r)))"
    using observe_silent[OF assms(2)] remember_silent[OF assms(2)] by (auto intro!: silent_andthen)
  from silent_run[OF this] assms(1,3) show ?thesis
    unfolding engine_finish_def by (fastforce simp: engine_publish_def recording_def andthen_Inr)
qed

text \<open>C8 Every execution that returns publishes exactly two events: \<open>ExecutionStarted\<close> and,
  as the last one, \<open>ExecutionCompleted\<close> or \<open>ExecutionFailed\<close> according to the result it
  returns, with the request's id, target and operation. Only what is handed to the engine
  (clocks, registered tools and providers, authorizer, sink, store) is assumed to publish
  nothing; that dispatch, pipeline, observation and recording do not is proved.\<close>

theorem execute_events:
  assumes "xe_bus X = Some recording" and "silent_collaborators X"
    and "execute X req ctx granted (l, u) = (Inr r, w')"
  shows "fst w' = l @ [ExecutionStarted (xr_id req) (xr_target req) (xr_operation req), terminal_event req r]"
proof -
  let ?l = "l @ [ExecutionStarted (xr_id req) (xr_target req) (xr_operation req)]"
  let ?obs = "engine_observe X ''execution.started'' (''Executing request '' @ xr_id req @ ''.'') req []"
  have "andthen ?obs (bnd (engine_decide X req ctx granted) (engine_finish X req)) (?l, u) = (Inr r, w')"
    using assms(1,3) by (simp add: execute_def engine_publish_def recording_def andthen_Inr)
  then obtain r0 v v' where r0: "?obs (?l, u) = (Inr (), v')"
      "engine_decide X req ctx granted v' = (Inr r0, v)" "engine_finish X req r0 v = (Inr r, w')"
    by (auto dest!: andthen_InrD bnd_InrD)
  have "r = r0" using r0(3) by (rule engine_finish_result)
  moreover obtain x where "v' = (?l, x)" using silent_run[OF observe_silent[OF assms(2)] r0(1)] by blast
  with r0(2) silent_run[OF decide_silent[OF assms(2)]] obtain x' where "v = (?l, x')" by blast
  ultimately show ?thesis using finish_events[OF assms(1,2), of req r0 ?l x' r w'] r0(3) by simp
qed

text \<open>An engine that grants everything and dispatches to a tool under a counting clock.\<close>

definition granting_engine :: "(event list \<times> nat) exec_engine" where
  "granting_engine = \<lparr>
     xe_dispatcher = \<lparr>dp_env = \<lparr>env_perf = (\<lambda>(l, n). (real n, l, Suc n)),
       env_now = Pair (me_created_at (demo_entry [] [])), env_uuid = Pair []\<rparr>,
       dp_tools = (\<lambda>_. [(''echo'', echo_tool)]), dp_providers = (\<lambda>_. [])\<rparr>,
     xe_authorizer = Some (\<lambda>_ _ _. ret \<lparr>ao_granted = True, ao_reason = None\<rparr>),
     xe_bus = Some recording, xe_memory = None, xe_sink = Some (\<lambda>_. ret ()), xe_str = (\<lambda>_. ''{}'')\<rparr>"

lemma granting_engine_silent: "silent_collaborators granting_engine"
  by (auto simp: silent_collaborators_def granting_engine_def tool_lookup_def provider_get_def echo_tool_def
      reading_def intro!: silentI split: if_splits)

theorem execute_events_witness:
  "fst (snd (execute granting_engine (tool_request ''echo'') demo_exec_context [] ([], 0))) =
   [ExecutionStarted ''r1'' TOOL ''echo'', ExecutionCompleted ''r1'' TOOL ''echo'' 1]"
proof -
  obtain w' where run: "execute granting_engine (tool_request ''echo'') demo_exec_context [] ([], 0) =
    (Inr (exec_result_of_tool ((tool_success [])\<lparr>tr_time := 1\<rparr>)), w')"
    by (simp add: execute_def granting_engine_def engine_publish_def engine_observe_def engine_decide_def
        tool_request_def bnd_def andthen_def dispatch_def dispatch_to_tool_def tool_lookup_def
        pipeline_run_def echo_tool_def missing_permissions_def reading_def attempt_def
        check_tool_result_ok tool_result_ok_time tool_success_def tool_result_ok_def exec_result_ok_def
        exec_result_of_tool_def engine_finish_def engine_remember_def recording_def)
  have "xe_bus granting_engine = Some recording" by (simp add: granting_engine_def)
  from execute_events[OF this granting_engine_silent run]
  show ?thesis
    unfolding run by (simp add: terminal_event_def tool_request_def exec_result_of_tool_def tool_success_def)
qed

text \<open>A provider exception with a blank message escapes: the failed result it would become
  does not pass its own checks, so \<open>ExecutionValidationError\<close> leaves the dispatcher.\<close>

theorem dispatch_blank_provider_error_escapes:
  assumes "provider_get (xr_operation req) (dp_providers D w) = Inr p" and "xr_target req = PROVIDER"
    and "env_perf (dp_env D) w = (a, w1)"
    and "prov_invoke p (xr_payload req) w1 = (Inl (Exn (ForeignException ''TimeoutError'') []), w2)"
    and "env_perf (dp_env D) w2 = (b, w3)"
  shows "\<exists>m. dispatch D req ctx granted w = (Inl (Exn ExecutionValidationError m), w3)"
  using assms
  by (simp add: dispatch_def dispatch_to_provider_def bnd_reading attempt_Inl check_exec_result_def)

theorem dispatch_blank_provider_error_escapes_witness:
  "\<exists>m w'. dispatch (demo_dispatcher\<lparr>dp_providers := \<lambda>_. [(''p'', (demo_provider ''p'')
       \<lparr>prov_invoke := \<lambda>_. throw (Exn (ForeignException ''TimeoutError'') [])\<rparr>)]\<rparr>)
     \<lparr>xr_target = PROVIDER, xr_operation = ''p'', xr_payload = [], xr_id = ''r''\<rparr> demo_exec_context [] 0 =
     (Inl (Exn ExecutionValidationError m), w')"
  using dispatch_blank_provider_error_escapes[of
     "\<lparr>xr_target = PROVIDER, xr_operation = ''p'', xr_payload = [], xr_id = ''r''\<rparr>"
     "demo_dispatcher\<lparr>dp_providers := \<lambda>_. [(''p'', (demo_provider ''p'')
       \<lparr>prov_invoke := \<lambda>_. throw (Exn (ForeignException ''TimeoutError'') [])\<rparr>)]\<rparr>" 0
     "(demo_provider ''p'')\<lparr>prov_invoke := \<lambda>_. throw (Exn (ForeignException ''TimeoutError'') [])\<rparr>"
     0 1 1 1 2 demo_exec_context "[]"]
  by (fastforce simp: provider_get_def demo_dispatcher_def counting_env_def numeral_2_eq_2)

end
