(* ===== verification/Authorization.thy ===== *)
theory Authorization
  imports Execution
begin

text \<open>
  Authorization (\<open>authorization/\<close>) with the audit records of \<open>security/\<close>: the
  resolver reads what a tool requires, the engine compares it with what the caller claims,
  publishes and audits the decision, and is the authorizer of the execution engine.
\<close>

section \<open>Requests, results and audit records\<close>

record auth_request =
  ar_target :: exec_target
  ar_operation :: string
  ar_granted :: "permission frozenset"

definition check_auth_request :: "auth_request \<Rightarrow> auth_request res" where
  "check_auth_request r =
     (if blank (ar_operation r)
      then Inl (Exn AuthorizationError ''AuthorizationRequest.operation must not be blank.'')
      else Inr r)"

record auth_result =
  au_granted :: bool
  au_permissions :: "permission frozenset"
  au_reason :: "string option"

definition auth_result_ok :: "auth_result \<Rightarrow> bool" where
  "auth_result_ok r \<longleftrightarrow> (if au_granted r then au_reason r = None
     else has_message (au_reason r) \<and> au_permissions r = [])"

definition check_auth_result :: "auth_result \<Rightarrow> auth_result res" where
  "check_auth_result r =
     (if \<not> au_granted r \<and> \<not> has_message (au_reason r)
      then Inl (Exn AuthorizationError ''A denied AuthorizationResult must include a non-empty `reason`.'')
      else if au_granted r \<and> au_reason r \<noteq> None
      then Inl (Exn AuthorizationError ''A granted AuthorizationResult must not set `reason`.'')
      else if \<not> au_granted r \<and> au_permissions r \<noteq> []
      then Inl (Exn AuthorizationError ''A denied AuthorizationResult must not set `granted_permissions`.'')
      else Inr r)"

lemma check_auth_result_iff: "check_auth_result r = Inr r' \<longleftrightarrow> auth_result_ok r \<and> r' = r"
  by (auto simp: check_auth_result_def auth_result_ok_def)

lemma check_auth_result_ok [simp]: "auth_result_ok r \<Longrightarrow> check_auth_result r = Inr r"
  by (simp add: check_auth_result_iff)

definition denied :: "string \<Rightarrow> auth_result" where
  "denied reason = \<lparr>au_granted = False, au_permissions = [], au_reason = Some reason\<rparr>"

definition granted_with :: "permission frozenset \<Rightarrow> auth_result" where
  "granted_with ps = \<lparr>au_granted = True, au_permissions = ps, au_reason = None\<rparr>"

lemma auth_result_ok_simps [simp]:
  "auth_result_ok (denied m) \<longleftrightarrow> \<not> blank m" "auth_result_ok (granted_with ps)"
  "\<not> au_granted (denied m)" "au_granted (granted_with ps)"
  "au_reason (denied m) = Some m" "au_permissions (granted_with ps) = ps"
  by (simp_all add: auth_result_ok_def denied_def granted_with_def)

record security_decision =
  sd_allowed :: bool
  sd_reason :: string

record audit_record =
  au_event :: string
  au_subject :: string
  au_action :: string
  au_decision :: security_decision

section \<open>The engine\<close>

record 'w auth_engine =
  ae_tools :: "'w \<Rightarrow> 'w tool_registry"
  ae_bus :: "(event \<Rightarrow> ('w, unit) py) option"
  ae_audit :: "(audit_record \<Rightarrow> ('w, unit) py) option"

text \<open>\<open>PermissionResolver.resolve_required_permissions\<close>, over the registry as it is now.\<close>

definition resolve_required_permissions ::
  "'w tool_registry \<Rightarrow> exec_target \<Rightarrow> string \<Rightarrow> permission frozenset res" where
  "resolve_required_permissions tools target operation =
     (if target \<noteq> TOOL then Inr []
      else case tool_lookup operation tools of
        Inl e \<Rightarrow> if exn_isa ToolRegistrationError e then Inr [] else Inl e
      | Inr tool \<Rightarrow> Inr (tool_permissions tool))"

definition authorize :: "'w auth_engine \<Rightarrow> auth_request \<Rightarrow> ('w, auth_result) py" where
  "authorize A request = (\<lambda>w. lift_res
     (rbind (resolve_required_permissions (ae_tools A w) (ar_target request) (ar_operation request))
       (\<lambda>required. let missing = missing_permissions required (ar_granted request) in
         if missing \<noteq> [] then check_auth_result (denied (missing_message missing))
         else check_auth_result (granted_with (ar_granted request)))) w)"

definition auth_publish :: "'w auth_engine \<Rightarrow> event \<Rightarrow> ('w, unit) py" where
  "auth_publish A e = (case ae_bus A of None \<Rightarrow> ret () | Some publish \<Rightarrow> publish e)"

definition auth_audit :: "'w auth_engine \<Rightarrow> exec_request \<Rightarrow> auth_result \<Rightarrow> ('w, unit) py" where
  "auth_audit A req result =
     (case ae_audit A of
        None \<Rightarrow> ret ()
      | Some record_audit \<Rightarrow> record_audit
          \<lparr>au_event = (if au_granted result then ''authorization.granted'' else ''authorization.denied''),
           au_subject = xr_id req,
           au_action = exec_target_value (xr_target req) @ '':'' @ xr_operation req,
           au_decision = \<lparr>sd_allowed = au_granted result, sd_reason = str_or (au_reason result) []\<rparr>\<rparr>)"

definition decision_event :: "exec_request \<Rightarrow> auth_result \<Rightarrow> event" where
  "decision_event req result =
     (if au_granted result
      then AuthorizationGranted (xr_id req) (xr_target req) (xr_operation req)
             (map perm_value (au_permissions result))
      else AuthorizationDenied (xr_id req) (xr_target req) (xr_operation req) (str_or (au_reason result) []))"

text \<open>Both paths of \<open>check\<close> end by publishing and auditing the decision and returning it.\<close>

definition conclude :: "'w auth_engine \<Rightarrow> exec_request \<Rightarrow> auth_result \<Rightarrow> ('w, auth_result) py" where
  "conclude A req result =
     andthen (auth_publish A (decision_event req result))
     (andthen (auth_audit A req result) (ret result))"

definition auth_check ::
  "'w auth_engine \<Rightarrow> exec_request \<Rightarrow> exec_context \<Rightarrow> string frozenset \<Rightarrow> ('w, auth_result) py" where
  "auth_check A req ctx granted =
     (case resolve_permissions granted of
        Inl e \<Rightarrow>
          if exn_isa ToolValidationError e
          then bnd (lift_res (check_auth_result (denied (exn_text e)))) (conclude A req)
          else throw e
      | Inr claimed \<Rightarrow>
          bnd (lift_res (check_auth_request
                 \<lparr>ar_target = xr_target req, ar_operation = xr_operation req, ar_granted = claimed\<rparr>))
            (\<lambda>r. bnd (authorize A r) (conclude A req)))"

text \<open>An \<open>AuthorizationResult\<close> has the two attributes the execution engine reads.\<close>

definition outcome_of :: "auth_result \<Rightarrow> auth_outcome" where
  "outcome_of r = \<lparr>ao_granted = au_granted r, ao_reason = au_reason r\<rparr>"

definition authorizer_of :: "'w auth_engine \<Rightarrow> 'w authorizer" where
  "authorizer_of A req ctx granted = bnd (auth_check A req ctx granted) (\<lambda>r. ret (outcome_of r))"

section \<open>The decision\<close>

text \<open>What is required of a caller, and the decision as a function of registry and claims.\<close>

definition required_of :: "'w tool_registry \<Rightarrow> exec_request \<Rightarrow> permission frozenset" where
  "required_of tools req =
     (if xr_target req = PROVIDER then []
      else case tool_lookup (xr_operation req) tools of Inl _ \<Rightarrow> [] | Inr t \<Rightarrow> tool_permissions t)"

definition decision :: "'w tool_registry \<Rightarrow> exec_request \<Rightarrow> string frozenset \<Rightarrow> auth_result" where
  "decision tools req granted =
     (case resolve_permissions granted of
        Inl e \<Rightarrow> denied (exn_text e)
      | Inr ps \<Rightarrow> (let missing = missing_permissions (required_of tools req) ps in
          if missing = [] then granted_with ps else denied (missing_message missing)))"

lemma decision_ok: "auth_result_ok (decision tools req granted)"
  using resolve_permissions_Inl[of granted]
  by (auto simp: decision_def Let_def split: sum.splits)

lemma resolve_required: "resolve_required_permissions tools (xr_target req) (xr_operation req) =
    Inr (required_of tools req)"
proof (cases "tool_lookup (xr_operation req) tools")
  case (Inl e)
  then show ?thesis
    using tool_lookup_Inl[OF Inl] by (cases "xr_target req") (simp_all add: resolve_required_permissions_def required_of_def)
qed (cases "xr_target req"; simp add: resolve_required_permissions_def required_of_def)

lemma auth_check_decision:
  assumes "exec_request_ok req"
  shows "auth_check A req ctx granted w = conclude A req (decision (ae_tools A w) req granted) w"
proof (cases "resolve_permissions granted")
  case (Inl e)
  then show ?thesis
    using resolve_permissions_Inl[of granted e] by (simp add: auth_check_def decision_def bnd_Inr)
next
  case (Inr ps)
  have "check_auth_request r = Inr r" if "ar_operation r = xr_operation req" for r
    using assms that by (simp add: check_auth_request_def exec_request_ok_def)
  with Inr show ?thesis
    by (simp add: auth_check_def decision_def bnd_Inr authorize_def resolve_required Let_def)
qed

lemma missing_Permission_iff:
  "missing_permissions ps (map Permission vs) = [] \<longleftrightarrow> perm_value ` set ps \<subseteq> set vs"
proof -
  have "p \<in> Permission ` set vs \<longleftrightarrow> perm_value p \<in> set vs" for p by (cases p) auto
  then show ?thesis by (auto simp: missing_permissions_def filter_empty_conv)
qed

lemma decision_granted_iff:
  "au_granted (decision tools req granted) \<longleftrightarrow>
     list_all (\<lambda>v. \<exists>p. mk_permission v = Inr p) granted
     \<and> perm_value ` set (required_of tools req) \<subseteq> set granted"
proof (cases "resolve_permissions granted")
  case (Inl e)
  then have "\<not> list_all (\<lambda>v. \<exists>p. mk_permission v = Inr p) granted"
    by (induction granted arbitrary: e) (auto simp: rbind_def split: sum.splits)
  with Inl show ?thesis by (simp add: decision_def)
next
  case (Inr ps)
  then have all: "list_all (\<lambda>v. \<exists>p. mk_permission v = Inr p) granted"
    by (induction granted arbitrary: ps) (auto simp: rbind_Inr_iff)
  have "missing_permissions (required_of tools req) (map Permission granted) = []
      \<longleftrightarrow> perm_value ` set (required_of tools req) \<subseteq> set granted"
    by (simp add: missing_Permission_iff)
  with Inr all resolve_permissions_Inr[OF Inr] show ?thesis by (auto simp: decision_def Let_def)
qed

section \<open>The tool pipeline behind the gate\<close>

text \<open>What the execution of a tool under the clock gives, in the world validation left.\<close>

definition executed :: "'w env \<Rightarrow> 'w tool \<Rightarrow> tool_context \<Rightarrow> payload \<Rightarrow> ('w, tool_result) py" where
  "executed E t ctx request = (\<lambda>w.
     case env_perf E w of (started, w1) \<Rightarrow>
       (case tool_execute t ctx request w1 of
          (Inl e, w2) \<Rightarrow>
            if exn_is_exception e
            then (case env_perf E w2 of (now, w3) \<Rightarrow>
                    (check_tool_result (failed_tool_result (exn_text e) (now - started)
                       [(''stage'', PStr ''execute'')]), w3))
            else (Inl e, w2)
        | (Inr r, w2) \<Rightarrow> (case env_perf E w2 of (now, w3) \<Rightarrow>
                    (check_tool_result (r\<lparr>tr_time := now - started\<rparr>), w3))))"

lemma pipeline_executes:
  assumes "tool_validate t req w = (Inr (), w1)" and "missing_permissions (tool_permissions t) granted = []"
  shows "pipeline_run E t ctx req granted w = executed E t ctx req w1"
  using assms
  by (simp add: pipeline_run_def executed_def attempt_def bnd_def reading_def split: prod.split sum.split)

lemma conclude_result: "conclude A req d w = (Inr a, w') \<Longrightarrow> a = d"
  unfolding conclude_def by (auto dest!: andthen_InrD)

section \<open>The authorizer of the execution engine\<close>

text \<open>
  The engine with this authorizer over the dispatcher's own tool registry and an in-memory
  store. The text of a payload dictionary starts with a brace, whatever \<open>render\<close> gives.
\<close>

definition authorized_engine ::
  "(memory_dict \<times> 'w) dispatcher \<Rightarrow> (payload \<Rightarrow> string) \<Rightarrow> (memory_dict \<times> 'w) exec_engine" where
  "authorized_engine D render = \<lparr>xe_dispatcher = D,
     xe_authorizer = Some (authorizer_of \<lparr>ae_tools = dp_tools D, ae_bus = None, ae_audit = None\<rparr>),
     xe_bus = None, xe_memory = Some in_memory_ops, xe_sink = None,
     xe_str = (\<lambda>p. ''{'' @ render p @ ''}'')\<rparr>"

lemma authorizer_of_decision:
  assumes "exec_request_ok req" and "ae_bus A = None" and "ae_audit A = None"
  shows "authorizer_of A req ctx granted w = (Inr (outcome_of (decision (ae_tools A w) req granted)), w)"
  using assms by (simp add: authorizer_of_def bnd_def auth_check_decision conclude_def auth_publish_def
      auth_audit_def andthen_def)

lemma decision_reason:
  "au_granted (decision tools req granted)
    \<or> \<not> blank (str_or (au_reason (decision tools req granted)) ''Authorization denied.'')"
  using decision_ok[of tools req granted]
  by (cases "au_reason (decision tools req granted)")
    (auto simp: auth_result_ok_def str_or_def split: if_splits)

interpretation authorized: exec_collaborators "authorized_engine D render"
proof (unfold_locales, goal_cases)
  case (5 check req ctx granted w)
  then show ?case
    using authorizer_of_decision[of req "\<lparr>ae_tools = dp_tools D, ae_bus = None, ae_audit = None\<rparr>" ctx granted w]
      decision_reason
    by (auto simp: authorized_engine_def outcome_of_def)
qed (auto simp: authorized_engine_def engine_publish_def engine_observe_def in_memory_ops_def
    py_isspace_def Let_def)

section \<open>Properties\<close>

text \<open>C18 The decision on an execution request: granted exactly when every claimed identifier is
  a well-formed permission and the claims cover what the target requires (nothing for a
  provider or an unknown tool); the decision is published as the matching event, audited, and
  returned, in this order and on every path.\<close>

theorem auth_check_decides:
  assumes "exec_request_ok req"
  shows "auth_check A req ctx granted w = conclude A req (decision (ae_tools A w) req granted) w
    \<and> (au_granted (decision (ae_tools A w) req granted) \<longleftrightarrow>
         list_all (\<lambda>v. \<exists>p. mk_permission v = Inr p) granted
         \<and> perm_value ` set (required_of (ae_tools A w) req) \<subseteq> set granted)
    \<and> auth_result_ok (decision (ae_tools A w) req granted)"
  by (intro conjI auth_check_decision assms decision_granted_iff decision_ok)

theorem auth_check_decides_witness:
  "fst (auth_check \<lparr>ae_tools = (\<lambda>_ :: nat. []), ae_bus = None, ae_audit = None\<rparr>
     (tool_request ''echo'') demo_exec_context [] 0) = Inr (granted_with [])"
proof -
  have "exec_request_ok (tool_request ''echo'')"
    by (simp add: exec_request_ok_def tool_request_def py_isspace_def Let_def)
  from auth_check_decides[OF this, of "\<lparr>ae_tools = (\<lambda>_ :: nat. []), ae_bus = None, ae_audit = None\<rparr>"
      demo_exec_context "[]" 0]
  show ?thesis
    by (simp add: conclude_def auth_publish_def auth_audit_def andthen_def bnd_def decision_def required_of_def
        tool_lookup_def missing_permissions_def tool_request_def)
qed

text \<open>C19 Authorization and the tool pipeline agree on a request for a registered tool whose
  payload validates. When the authorization engine returns a grant, the claims parse and the
  pipeline runs the tool with them: what comes back is what the tool's execution under the
  clock gives. When it returns a denial, the pipeline and the dispatcher on top of it refuse
  the same claims at the stage \<open>permission_check\<close>, with the very reason of the denial, and
  leave the world as validation left it (or, for claims that do not parse, as it was).\<close>

theorem authorization_agrees_with_pipeline:
  assumes "exec_request_ok req" and "xr_target req = TOOL"
    and "tool_lookup (xr_operation req) (ae_tools A w) = Inr t"
    and "tool_lookup (xr_operation req) (dp_tools D v) = Inr t"
    and "tool_validate t (xr_payload req) v = (Inr (), v1)"
    and "auth_check A req ctx granted w = (Inr a, w1)"
  shows "(au_granted a \<longrightarrow> (\<exists>ps. resolve_permissions granted = Inr ps
       \<and> pipeline_run (dp_env D) t (tool_context_of ctx) (xr_payload req) ps v =
           executed (dp_env D) t (tool_context_of ctx) (xr_payload req) v1))
    \<and> (\<not> au_granted a \<longrightarrow>
         (\<forall>ps. resolve_permissions granted = Inr ps \<longrightarrow>
            (\<exists>md. pipeline_run (dp_env D) t (tool_context_of ctx) (xr_payload req) ps v =
               (Inr (failed_tool_result (the (au_reason a)) 0 ((''stage'', PStr ''permission_check'') # md)), v1)))
       \<and> (\<exists>r. dispatch_to_tool D req ctx granted v =
              (Inr r, if \<exists>ps. resolve_permissions granted = Inr ps then v1 else v)
            \<and> \<not> er_success r \<and> er_error r = au_reason a \<and> stage_of (er_metadata r) = Some ''permission_check''))"
proof -
  have a: "a = decision (ae_tools A w) req granted"
    by (rule conclude_result[OF assms(6)[unfolded auth_check_decision[OF assms(1)]]])
  have required: "required_of (ae_tools A w) req = tool_permissions t"
    using assms(2,3) by (simp add: required_of_def)
  show ?thesis
  proof (cases "resolve_permissions granted")
    case (Inl e)
    then show ?thesis
      by (simp add: a decision_def dispatch_bad_permission[OF assms(4)] stage_of_def)
  next
    case (Inr ps)
    note run = dispatch_runs_tool[OF assms(4) Inr, of ctx, folded resolve_permissions_Inr[OF Inr]]
    show ?thesis
    proof (cases "missing_permissions (tool_permissions t) ps")
      case Nil
      then have "au_granted a" using Inr by (simp add: a decision_def required)
      with Inr pipeline_executes[OF assms(5) Nil] show ?thesis by simp
    next
      case (Cons p qs)
      then have denied: "a = denied (missing_message (p # qs))" using Inr by (simp add: a decision_def required)
      note refused = pipeline_denied[OF assms(5) Cons, of "dp_env D" "tool_context_of ctx"]
      let ?r = "failed_tool_result (missing_message (p # qs)) 0
        [(''stage'', PStr ''permission_check''), (''missing_permissions'', PTuple (map PStr (sorted_values (p # qs))))]"
      have "exec_result_ok (exec_result_of_tool ?r)" by simp
      then have "dispatch_to_tool D req ctx granted v = (Inr (exec_result_of_tool ?r), v1)"
        unfolding run bnd_def refused by simp
      moreover have "\<not> er_success (exec_result_of_tool ?r)" "er_error (exec_result_of_tool ?r) = au_reason a"
          "stage_of (er_metadata (exec_result_of_tool ?r)) = Some ''permission_check''"
        by (simp_all add: exec_result_of_tool_def denied stage_of_def)
      moreover have "\<not> au_granted a" "the (au_reason a) = missing_message (p # qs)" by (simp_all add: denied)
      ultimately show ?thesis using Inr refused by auto
    qed
  qed
qed

lemma kernel_internal_parses: "resolve_permissions [''kernel.internal''] = Inr [kernel_internal]"
proof -
  have "\<exists>p. mk_permission ''kernel.internal'' = Inr p"
    unfolding permission_format
    by (intro exI[of _ "[''kernel'', ''internal'']"])
      (simp add: segment_ok_def lower_letter_def word_char_def)
  then show ?thesis using mk_permission_value[of "''kernel.internal''"] by (auto simp: kernel_internal_def)
qed

definition health_dispatcher :: "nat dispatcher" where
  "health_dispatcher = demo_dispatcher\<lparr>dp_tools :=
     (\<lambda>_. [(''health_check'', health_check_tool (\<lambda>_ _. new_kernel ''INFO''))])\<rparr>"

theorem authorization_agrees_with_pipeline_witness:
  "(\<exists>r. dispatch_to_tool health_dispatcher (tool_request ''health_check'') demo_exec_context [] 0 = (Inr r, 0)
      \<and> er_error r = Some (missing_message [kernel_internal]))
   \<and> fst (pipeline_run counting_env (health_check_tool (\<lambda>_ _. new_kernel ''INFO''))
          (tool_context_of demo_exec_context) [] [kernel_internal] 0) =
      fst (executed counting_env (health_check_tool (\<lambda>_ _. new_kernel ''INFO''))
          (tool_context_of demo_exec_context) [] 0)"
proof -
  let ?A = "\<lparr>ae_tools = dp_tools health_dispatcher, ae_bus = None, ae_audit = None\<rparr>"
  let ?t = "health_check_tool (\<lambda>_ _. new_kernel ''INFO'') :: nat tool"
  let ?req = "tool_request ''health_check''"
  have req: "exec_request_ok ?req" "xr_target ?req = TOOL" "xr_payload ?req = []"
    by (simp_all add: exec_request_ok_def tool_request_def py_isspace_def Let_def)
  have lookup: "tool_lookup (xr_operation ?req) (dp_tools health_dispatcher u) = Inr ?t" for u
    by (simp add: tool_lookup_def tool_request_def health_dispatcher_def)
  have env: "dp_env health_dispatcher = counting_env" by (simp add: health_dispatcher_def demo_dispatcher_def)
  have check: "auth_check ?A ?req demo_exec_context g 0 = (Inr (decision (dp_tools health_dispatcher 0) ?req g), 0)" for g
    by (simp add: auth_check_decision[OF req(1)] conclude_def auth_publish_def auth_audit_def andthen_def bnd_def)
  have perms: "required_of (dp_tools health_dispatcher 0) ?req = [kernel_internal]"
    using lookup by (simp add: required_of_def req(2) health_check_tool_def)
  have valid: "tool_validate ?t (xr_payload ?req) 0 = (Inr (), 0)" by (simp add: health_check_tool_def)
  have parsed: "resolve_permissions [''kernel.internal''] = Inr [kernel_internal]"
    by (rule kernel_internal_parses)
  have lookup': "tool_lookup (xr_operation ?req) (ae_tools ?A 0) = Inr ?t" using lookup by simp
  note agree = authorization_agrees_with_pipeline[OF req(1,2) lookup' lookup valid check]
  have denied: "decision (dp_tools health_dispatcher 0) ?req [] = denied (missing_message [kernel_internal])"
    by (simp add: decision_def perms missing_permissions_def)
  have granted: "decision (dp_tools health_dispatcher 0) ?req [''kernel.internal''] = granted_with [kernel_internal]"
    unfolding decision_def parsed perms by (simp add: missing_permissions_def)
  from agree[of "[]"] agree[of "[''kernel.internal'']"] show ?thesis
    unfolding denied granted parsed req(3) env by auto
qed

text \<open>The composed engine (this authorizer over the dispatcher's own registry, an in-memory
  store) returns a well-formed result for every valid request, whatever permissions are
  claimed.\<close>

theorem authorized_engine_total:
  assumes "exec_request_ok req" and "dispatcher_contained D"
  shows "\<exists>r w'. execute (authorized_engine D render) req ctx granted w = (Inr r, w') \<and> exec_result_ok r"
  by (rule authorized.execute_returns[OF assms(1)]) (simp add: authorized_engine_def assms(2))

theorem authorized_engine_total_witness:
  "\<exists>r w'. execute (authorized_engine \<lparr>dp_env = \<lparr>env_perf = Pair 0,
        env_now = Pair (me_created_at (demo_entry [] [])), env_uuid = Pair []\<rparr>,
      dp_tools = (\<lambda>_. []), dp_providers = (\<lambda>_. [])\<rparr> (\<lambda>_. [])) (tool_request ''x'') demo_exec_context
      [''not a permission''] ([], 0 :: nat) = (Inr r, w') \<and> exec_result_ok r"
  by (rule authorized_engine_total)
    (simp_all add: exec_request_ok_def tool_request_def py_isspace_def Let_def dispatcher_contained_def
      tool_lookup_def provider_get_def)

end
