(* ===== verification/Security.thy ===== *)
theory Security
  imports Values Regex
begin

text \<open>
  The security foundation (\<open>security/\<close>): secrets, the provider over environment
  variables and the registry that falls through its providers. (Audit records are with
  authorization, which writes them.)
\<close>

section \<open>Secrets and their providers\<close>

record secret =
  secret_name :: string
  secret_value :: string

definition mk_secret :: "string \<Rightarrow> string \<Rightarrow> secret res" where
  "mk_secret name val =
     (if blank name then Inl (Exn SecurityError ''Secret name must not be empty.'')
      else if val = [] then Inl (Exn SecurityError ''Secret value must not be empty.'')
      else Inr \<lparr>secret_name = name, secret_value = val\<rparr>)"

definition secret_repr :: "secret \<Rightarrow> string" where
  "secret_repr s = ''Secret(name='' @ repr_str (secret_name s) @ '', value='' @ [CHR 0x27]
     @ ''***REDACTED***'' @ [CHR 0x27] @ '')''"

type_synonym 'w secret_source = "string \<Rightarrow> ('w, secret) py"

section \<open>Environment variables\<close>

definition letter_or_underscore :: "char \<Rightarrow> bool" where
  "letter_or_underscore c = (CHR ''A'' \<le> c \<and> c \<le> CHR ''Z'' \<or> CHR ''a'' \<le> c \<and> c \<le> CHR ''z'' \<or> c = CHR ''_'')"

definition env_word_char :: "char \<Rightarrow> bool" where
  "env_word_char c = (letter_or_underscore c \<or> CHR ''0'' \<le> c \<and> c \<le> CHR ''9'')"

definition env_var_pattern :: regex where
  "env_var_pattern = Seq (Chars letter_or_underscore) (Many (Chars env_word_char))"

text \<open>\<open>os.environ\<close> is what the world says at the time of the call.\<close>

definition env_resolve :: "('w \<Rightarrow> (string, string) dict) \<Rightarrow> string \<Rightarrow> 'w secret_source" where
  "env_resolve environ prefix name = (\<lambda>w.
     if blank name then (Inl (Exn SecretConfigurationError ''Secret name must not be blank.''), w)
     else let key = prefix @ name in
       if \<not> match_dollar env_var_pattern key
       then (Inl (Exn SecretConfigurationError (''Secret '' @ repr_str name
              @ '' resolves to environment variable key '' @ repr_str key
              @ '', which is not a valid environment variable identifier ''
              @ ''(expected to match ^[A-Za-z_][A-Za-z0-9_]*$).'')), w)
       else case map_of (environ w) key of
         None \<Rightarrow> (Inl (Exn SecretNotFoundError (''Secret '' @ repr_str name
              @ '' is not set (expected environment variable '' @ repr_str key @ '').'')), w)
       | Some val \<Rightarrow>
           (case mk_secret name val of
              Inr s \<Rightarrow> (Inr s, w)
            | Inl e \<Rightarrow>
                (if exn_isa SecurityError e
                 then Inl (Exn SecretValueError (''Secret '' @ repr_str name
                        @ '' is set via environment variable '' @ repr_str key
                        @ '' but its value is invalid: '' @ exn_text e))
                 else Inl e, w)))"

section \<open>The registry\<close>

type_synonym 'w secret_registry = "'w secret_source list"

definition secrets_register :: "'w secret_source \<Rightarrow> 'w secret_registry \<Rightarrow> 'w secret_registry" where
  "secrets_register p r = r @ [p]"

primrec secrets_resolve :: "'w secret_registry \<Rightarrow> 'w secret_source" where
  "secrets_resolve [] name = throw (Exn SecurityError
     (''Secret '' @ repr_str name @ '' is not available from any registered provider.''))"
| "secrets_resolve (p # ps) name =
     attempt (p name) (\<lambda>e. if exn_isa SecurityError e then secrets_resolve ps name else throw e) ret"

section \<open>The contract of a provider\<close>

text \<open>
  A provider raises only \<open>SecurityError\<close>s, which is what lets the registry fall through,
  and gives a secret of the requested name with a value that is not empty.
\<close>

locale secret_provider =
  fixes resolve :: "'w secret_source"
  assumes fails_securely: "resolve n w = (Inl e, w') \<Longrightarrow> exn_isa SecurityError e"
    and gives_requested: "resolve n w = (Inr s, w') \<Longrightarrow> secret_name s = n \<and> secret_value s \<noteq> []"

lemma mk_secret_iff: "mk_secret n v = Inr s \<longleftrightarrow>
    \<not> blank n \<and> v \<noteq> [] \<and> s = \<lparr>secret_name = n, secret_value = v\<rparr>"
  by (auto simp: mk_secret_def)

lemma mk_secret_error: "mk_secret n v = Inl e \<Longrightarrow> exn_isa SecurityError e"
  by (auto simp: mk_secret_def split: if_splits)

lemma env_resolve_iff:
  "env_resolve environ prefix n w = (Inr s, w') \<longleftrightarrow>
     \<not> blank n \<and> match_dollar env_var_pattern (prefix @ n) \<and> w' = w \<and>
     (\<exists>v. map_of (environ w) (prefix @ n) = Some v \<and> v \<noteq> [] \<and> s = \<lparr>secret_name = n, secret_value = v\<rparr>)"
  by (auto simp: env_resolve_def Let_def mk_secret_iff mk_secret_def split: option.splits)

lemma env_resolve_error: "env_resolve environ prefix n w = (Inl e, w') \<Longrightarrow> exn_isa SecurityError e \<and> w' = w"
  unfolding env_resolve_def Let_def
  by (auto split: option.splits sum.splits if_splits dest: mk_secret_error)

interpretation env_secrets: secret_provider "env_resolve environ prefix"
  by unfold_locales (auto simp: env_resolve_iff dest: env_resolve_error)

context secret_provider begin

lemma fall_through:
  "secrets_resolve (resolve # ps) n w =
    (case resolve n w of (Inr s, w') \<Rightarrow> (Inr s, w') | (Inl _, w') \<Rightarrow> secrets_resolve ps n w')"
  using fails_securely[of n w] by (auto simp: attempt_def split: prod.splits sum.splits)

end

text \<open>A registry of such providers is such a provider: registries nest.\<close>

lemma secrets_resolve_contract: "list_all secret_provider ps \<Longrightarrow> secret_provider (secrets_resolve ps)"
proof (induction ps)
  case Nil
  show ?case by unfold_locales simp_all
next
  case (Cons p ps)
  then have p: "secret_provider p" and ps: "secret_provider (secrets_resolve ps)" by simp_all
  note fall = secret_provider.fall_through[OF p]
  show ?case
  proof (unfold_locales, goal_cases)
    case (1 n w e w')
    then show ?case
      using secret_provider.fails_securely[OF ps] unfolding fall by (auto split: prod.splits sum.splits)
  next
    case (2 n w s w')
    then show ?case
      using secret_provider.gives_requested[OF ps] secret_provider.gives_requested[OF p]
      unfolding fall by (auto split: prod.splits sum.splits)
  qed
qed

lemma secrets_resolve_append:
  "secrets_resolve ps n w = (Inr s, w') \<Longrightarrow> secrets_resolve (ps @ qs) n w = (Inr s, w')"
  by (induction ps arbitrary: w) (auto simp: attempt_def split: prod.splits sum.splits if_splits)

section \<open>Properties\<close>

text \<open>C20 The environment provider gives a secret exactly when the prefixed name is a valid
  identifier of a variable that is set to a value that is not empty, and then that value under
  the requested name; it changes nothing and whatever else happens is a \<open>SecurityError\<close>.\<close>

theorem env_secret_resolution:
  "(env_resolve environ prefix n w = (Inr s, w') \<longleftrightarrow>
     \<not> blank n \<and> match_dollar env_var_pattern (prefix @ n) \<and> w' = w \<and>
     (\<exists>v. map_of (environ w) (prefix @ n) = Some v \<and> v \<noteq> [] \<and> s = \<lparr>secret_name = n, secret_value = v\<rparr>))
   \<and> (\<forall>e. env_resolve environ prefix n w = (Inl e, w') \<longrightarrow> exn_isa SecurityError e \<and> w' = w)"
  using env_resolve_iff env_resolve_error by fastforce

theorem env_secret_resolution_witness:
  "exn_isa SecurityError (Exn SecretConfigurationError ''Secret name must not be blank.'')"
  using env_secret_resolution[of "\<lambda>_ :: nat. []" "[]" "[]" 0 _ 0] by (simp add: env_resolve_def)

text \<open>Falling through never hides what an earlier provider could give: with well-behaved
  providers the registry answers with the first of them, in registration order, that gives a
  secret, and raises \<open>SecurityError\<close> only when every one of them does; providers registered
  later never change an answer.\<close>

theorem secrets_fall_through:
  assumes "list_all secret_provider ps" and "secret_provider p"
  shows "secrets_resolve (secrets_register p ps) n w =
      (case secrets_resolve ps n w of
         (Inr s, w') \<Rightarrow> (Inr s, w')
       | (Inl _, w') \<Rightarrow> secrets_resolve [p] n w')
    \<and> secret_provider (secrets_resolve (secrets_register p ps))"
proof
  show "secrets_resolve (secrets_register p ps) n w =
      (case secrets_resolve ps n w of (Inr s, w') \<Rightarrow> (Inr s, w') | (Inl _, w') \<Rightarrow> secrets_resolve [p] n w')"
    using assms(1)
  proof (induction ps arbitrary: w)
    case (Cons q qs)
    then have "secret_provider q" "list_all secret_provider qs" by simp_all
    with Cons.IH show ?case
      unfolding secrets_register_def append_Cons secret_provider.fall_through[OF \<open>secret_provider q\<close>]
      by (auto split: prod.splits sum.splits)
  qed (simp add: secrets_register_def)
  show "secret_provider (secrets_resolve (secrets_register p ps))"
    by (rule secrets_resolve_contract) (simp add: secrets_register_def assms)
qed

theorem secrets_fall_through_witness:
  "secret_provider (secrets_resolve (secrets_register (env_resolve (\<lambda>w :: nat. []) ''B_'')
     [env_resolve (\<lambda>_. [(''A_k'', ''v'')]) ''A_'']))"
  using secrets_fall_through[of "[env_resolve (\<lambda>_ :: nat. [(''A_k'', ''v'')]) ''A_'']" "env_resolve (\<lambda>w :: nat. []) ''B_''"]
  by (simp add: env_secrets.secret_provider_axioms)

end
