(* ===== verification/Tool_Loop.thy ===== *)
theory Tool_Loop
  imports Authorization
begin

text \<open>
  The tool loop (\<open>execution/tool_loop.py\<close>): a conversation with a provider in which the
  model chooses among the offered tools and every call goes through the execution engine.
  The definitions take the engine's \<open>execute\<close> as an argument, so that what the loop asks of
  it can be stated.
\<close>

section \<open>Decisions, records, results, options\<close>

record tool_call_decision =
  td_allowed :: bool
  td_reason :: "string option"

definition allow :: tool_call_decision where
  "allow = \<lparr>td_allowed = True, td_reason = None\<rparr>"

record tool_call_record =
  rc_call :: tool_call
  rc_executed :: bool
  rc_success :: bool
  rc_result :: string

record tool_loop_result =
  lr_success :: bool
  lr_text :: "string option"
  lr_messages :: "payload list"
  lr_tool_calls :: "tool_call_record list"
  lr_iterations :: nat
  lr_exhausted :: bool
  lr_error :: "string option"

record 'w loop_options =
  lo_max_iterations :: int
  lo_system :: "string option"
  lo_max_tokens :: "int option"
  lo_before :: "tool_call \<Rightarrow> ('w, tool_call_decision) py"

definition check_loop_options :: "'w loop_options \<Rightarrow> 'w loop_options res" where
  "check_loop_options o' =
     (if lo_max_iterations o' < 1
      then Inl (Exn ToolLoopError ''ToolLoopOptions.max_iterations must be at least 1.'')
      else Inr o')"

definition default_loop_options :: "'w loop_options" where
  "default_loop_options = \<lparr>lo_max_iterations = 8, lo_system = None, lo_max_tokens = None,
     lo_before = (\<lambda>_. ret allow)\<rparr>"

section \<open>The loop\<close>

type_synonym 'w executor =
  "exec_request \<Rightarrow> exec_context \<Rightarrow> string frozenset \<Rightarrow> ('w, exec_result) py"

text \<open>
  \<open>tl_dumps\<close> is \<open>json.dumps(d, ensure_ascii=False, default=str)\<close> and \<open>tl_str\<close> is
  \<open>str\<close> of a dictionary: both render objects of the tool.
\<close>

record 'w tool_loop =
  tl_execute :: "'w executor"
  tl_tools :: "'w \<Rightarrow> 'w tool_registry"
  tl_providers :: "'w \<Rightarrow> 'w provider_registry"
  tl_bus :: "(event \<Rightarrow> ('w, unit) py) option"
  tl_env :: "'w env"
  tl_dumps :: "payload \<Rightarrow> string res"
  tl_str :: "payload \<Rightarrow> string"

definition loop_publish :: "'w tool_loop \<Rightarrow> event \<Rightarrow> ('w, unit) py" where
  "loop_publish L e = (case tl_bus L of None \<Rightarrow> ret () | Some publish \<Rightarrow> publish e)"

text \<open>\<open>_describe\<close>: \<open>exists\<close>, \<open>lookup\<close>, and the checks of \<open>ToolSpec\<close>.\<close>

fun describe_tools :: "'w tool_registry \<Rightarrow> string list \<Rightarrow> pyval list res" where
  "describe_tools r [] = Inr []"
| "describe_tools r (i # is) =
     (if \<not> tool_exists i r
      then Inl (Exn ToolLoopError (''Tool '' @ repr_str i @ '' is not registered.''))
      else rbind (tool_lookup i r) (\<lambda>t.
           rbind (mk_tool_spec (tool_id t) (tool_description t) (PDict (tool_input_schema t))) (\<lambda>spec.
           rbind (describe_tools r is) (\<lambda>specs. Inr (spec # specs)))))"

fun spec_name :: "pyval \<Rightarrow> string" where
  "spec_name (PToolSpec n _ _) = n"
| "spec_name _ = []"

definition require_tool_calls :: "'w provider_registry \<Rightarrow> string \<Rightarrow> unit res" where
  "require_tool_calls r n =
     (if \<not> provider_is_registered n r
      then Inl (Exn ProviderCapabilityError (''Provider '' @ repr_str n @ '' is not registered.''))
      else rbind (provider_get n r) (\<lambda>p.
        if \<not> cap_tool_calls (prov_capabilities p)
        then Inl (Exn ProviderCapabilityError
               (''Provider '' @ repr_str n @ '' does not declare supports_tool_calls.''))
        else Inr ()))"

definition provider_payload :: "payload list \<Rightarrow> pyval list \<Rightarrow> 'w loop_options \<Rightarrow> payload" where
  "provider_payload history specs opts =
     [(''messages'', PList (map PDict history)), (''tools'', PTuple specs)]
     @ (case lo_system opts of None \<Rightarrow> [] | Some s \<Rightarrow> [(''system'', PStr s)])
     @ (case lo_max_tokens opts of None \<Rightarrow> [] | Some n \<Rightarrow> [(''max_tokens'', PInt n)])"

definition parse_response :: "payload \<Rightarrow> string \<times> tool_call list" where
  "parse_response p =
     ((case get_or p ''text'' (PStr []) of PStr s \<Rightarrow> s | _ \<Rightarrow> []),
      (case sequence_items (get_or p ''tool_calls'' (PTuple [])) of
         None \<Rightarrow> []
       | Some entries \<Rightarrow> List.map_filter as_tool_call entries))"

definition render_payload :: "'w tool_loop \<Rightarrow> payload option \<Rightarrow> string res" where
  "render_payload L p =
     (case p of
        None \<Rightarrow> Inr []
      | Some d \<Rightarrow>
          (case tl_dumps L d of
             Inr s \<Rightarrow> Inr s
           | Inl e \<Rightarrow> if exn_isa (ForeignException ''TypeError'') e \<or> exn_isa (ForeignException ''ValueError'') e
                      then Inr (tl_str L d) else Inl e))"

definition reject_call ::
  "'w tool_loop \<Rightarrow> tool_call \<Rightarrow> string \<Rightarrow> string \<Rightarrow> tool_call_record list
     \<Rightarrow> ('w, tool_result_block \<times> tool_call_record list) py" where
  "reject_call L call reason loop_id records =
     (let records' = records @ [\<lparr>rc_call = call, rc_executed = False, rc_success = False, rc_result = reason\<rparr>]
      in andthen (loop_publish L (ToolCallRejected loop_id (call_id call) (call_name call) reason))
         (bnd (lift_res (mk_tool_result_block (call_id call) reason True)) (\<lambda>b. ret (b, records'))))"

text \<open>A request gets a fresh UUID as its id and passes its checks.\<close>

definition new_request ::
  "'w env \<Rightarrow> exec_target \<Rightarrow> string \<Rightarrow> payload \<Rightarrow> ('w, exec_request) py" where
  "new_request E target operation p = bnd (reading (env_uuid E)) (\<lambda>i.
     lift_res (check_exec_request
       \<lparr>xr_target = target, xr_operation = operation, xr_payload = p, xr_id = i\<rparr>))"

definition run_call ::
  "'w tool_loop \<Rightarrow> exec_context \<Rightarrow> string frozenset \<Rightarrow> string \<Rightarrow> tool_call \<Rightarrow> tool_call_record list
     \<Rightarrow> ('w, tool_result_block \<times> tool_call_record list) py" where
  "run_call L ctx granted loop_id call records =
     bnd (new_request (tl_env L) TOOL (call_name call) (call_arguments call)) (\<lambda>req.
     bnd (tl_execute L req ctx granted) (\<lambda>outcome.
     bnd (lift_res (if er_success outcome then render_payload L (er_payload outcome)
                    else Inr (str_or (er_error outcome) ''Tool execution failed.''))) (\<lambda>rendered.
     let records' = records @ [\<lparr>rc_call = call, rc_executed = True,
           rc_success = er_success outcome, rc_result = rendered\<rparr>]
     in andthen (loop_publish L (ToolCallCompleted loop_id (call_id call) (call_name call) (er_success outcome)))
        (bnd (lift_res (mk_tool_result_block (call_id call) rendered (\<not> er_success outcome)))
           (\<lambda>b. ret (b, records'))))))"

definition handle_call ::
  "'w tool_loop \<Rightarrow> string list \<Rightarrow> 'w loop_options \<Rightarrow> exec_context \<Rightarrow> string frozenset \<Rightarrow> string \<Rightarrow> nat
     \<Rightarrow> tool_call \<Rightarrow> tool_call_record list \<Rightarrow> ('w, tool_result_block \<times> tool_call_record list) py" where
  "handle_call L allowed opts ctx granted loop_id iteration call records =
     andthen (loop_publish L (ToolCallRequested loop_id (call_id call) (call_name call) iteration))
     (if call_name call \<notin> set allowed
      then reject_call L call ''Tool is not in the offered set.'' loop_id records
      else bnd (lo_before opts call) (\<lambda>d.
        if \<not> td_allowed d
        then reject_call L call (str_or (td_reason d) ''Tool call declined.'') loop_id records
        else run_call L ctx granted loop_id call records))"

primrec handle_calls ::
  "'w tool_loop \<Rightarrow> string list \<Rightarrow> 'w loop_options \<Rightarrow> exec_context \<Rightarrow> string frozenset \<Rightarrow> string \<Rightarrow> nat
     \<Rightarrow> tool_call list \<Rightarrow> tool_call_record list
     \<Rightarrow> ('w, tool_result_block list \<times> tool_call_record list) py" where
  "handle_calls L allowed opts ctx granted loop_id iteration [] records = ret ([], records)"
| "handle_calls L allowed opts ctx granted loop_id iteration (c # cs) records =
     bnd (handle_call L allowed opts ctx granted loop_id iteration c records) (\<lambda>(b, records1).
     bnd (handle_calls L allowed opts ctx granted loop_id iteration cs records1) (\<lambda>(bs, records2).
     ret (b # bs, records2)))"

definition exhausted_message :: "int \<Rightarrow> string" where
  "exhausted_message n = ''Tool loop stopped after '' @ int_str n @ '' iteration(s) without a final answer.''"

text \<open>
  The part of a round behind the provider's answer: give up, answer, or run the calls and go
  on with \<open>continue_with\<close> on the longer history.
\<close>

definition conclude_round ::
  "'w tool_loop \<Rightarrow> string list \<Rightarrow> exec_context \<Rightarrow> 'w loop_options \<Rightarrow> string frozenset
     \<Rightarrow> string \<Rightarrow> nat \<Rightarrow> payload list \<Rightarrow> tool_call_record list \<Rightarrow> exec_result
     \<Rightarrow> (payload list \<Rightarrow> tool_call_record list \<Rightarrow> ('w, tool_loop_result) py) \<Rightarrow> ('w, tool_loop_result) py" where
  "conclude_round L allowed ctx opts granted loop_id iteration history records response continue_with =
     (if \<not> er_success response \<or> er_payload response = None
      then ret \<lparr>lr_success = False, lr_text = None, lr_messages = history, lr_tool_calls = records,
                lr_iterations = iteration, lr_exhausted = False,
                lr_error = Some (str_or (er_error response) ''Provider returned no payload.'')\<rparr>
      else case parse_response (the (er_payload response)) of (text, calls) \<Rightarrow>
        let history' = history @ [assistant_message text calls] in
        if calls = []
        then ret \<lparr>lr_success = True, lr_text = Some text, lr_messages = history',
                  lr_tool_calls = records, lr_iterations = iteration, lr_exhausted = False,
                  lr_error = None\<rparr>
        else bnd (handle_calls L allowed opts ctx granted loop_id iteration calls records)
          (\<lambda>(results, records').
           bnd (lift_res (tool_results_message results)) (\<lambda>m. continue_with (history' @ [m]) records')))"

text \<open>
  The \<open>while\<close> loop, by recursion on the rounds that remain: \<open>iteration\<close> counts up to
  \<open>max_iterations\<close> as they count down to zero.
\<close>

primrec loop_rounds ::
  "nat \<Rightarrow> 'w tool_loop \<Rightarrow> string \<Rightarrow> pyval list \<Rightarrow> exec_context \<Rightarrow> 'w loop_options \<Rightarrow> string frozenset
     \<Rightarrow> string \<Rightarrow> nat \<Rightarrow> payload list \<Rightarrow> tool_call_record list \<Rightarrow> ('w, tool_loop_result) py" where
  "loop_rounds 0 L provider specs ctx opts granted loop_id iteration history records =
     ret \<lparr>lr_success = False, lr_text = None, lr_messages = history, lr_tool_calls = records,
          lr_iterations = iteration, lr_exhausted = True,
          lr_error = Some (exhausted_message (lo_max_iterations opts))\<rparr>"
| "loop_rounds (Suc n) L provider specs ctx opts granted loop_id iteration history records =
     bnd (new_request (tl_env L) PROVIDER provider (provider_payload history specs opts)) (\<lambda>req.
     bnd (tl_execute L req ctx []) (\<lambda>response.
     conclude_round L (map spec_name specs) ctx opts granted loop_id (iteration + 1) history records response
       (loop_rounds n L provider specs ctx opts granted loop_id (iteration + 1))))"

definition loop_run ::
  "'w tool_loop \<Rightarrow> string \<Rightarrow> payload list \<Rightarrow> string list \<Rightarrow> exec_context \<Rightarrow> 'w loop_options option
     \<Rightarrow> string frozenset \<Rightarrow> ('w, tool_loop_result) py" where
  "loop_run L provider messages tool_ids ctx options granted =
     (let opts = (case options of None \<Rightarrow> default_loop_options | Some o' \<Rightarrow> o') in
      if messages = []
      then throw (Exn ToolLoopError ''ToolCallLoop.run requires at least one message.'')
      else if tool_ids = []
      then throw (Exn ToolLoopError (''ToolCallLoop.run requires a non-empty tool allowlist; ''
             @ ''invoke the provider directly for requests without tools.''))
      else (\<lambda>w. case describe_tools (tl_tools L w) tool_ids of
          Inl e \<Rightarrow> (Inl e, w)
        | Inr specs \<Rightarrow>
            (case require_tool_calls (tl_providers L w) provider of
               Inl e \<Rightarrow> (Inl e, w)
             | Inr _ \<Rightarrow>
                 bnd (reading (env_uuid (tl_env L))) (\<lambda>loop_id.
                   loop_rounds (nat (lo_max_iterations opts)) L provider specs ctx opts granted
                     loop_id 0 messages []) w)))"

section \<open>One call\<close>

lemma mk_tool_result_block_Inr:
  "mk_tool_result_block i c e = Inr b \<Longrightarrow> b = \<lparr>trb_call_id = i, trb_content = c, trb_is_error = e\<rparr>"
  by (simp add: mk_tool_result_block_def split: if_splits)

lemma new_request_Inr:
  "new_request E t op p w = (Inr req, w') \<Longrightarrow>
    xr_target req = t \<and> xr_operation req = op \<and> xr_payload req = p \<and> exec_request_ok req"
  unfolding new_request_def by (auto dest!: bnd_InrD simp: check_exec_request_iff)

text \<open>A handled call leaves one record behind the others and gives the block that answers it.\<close>

definition answers :: "string list \<Rightarrow> tool_call \<Rightarrow> tool_call_record \<Rightarrow> tool_result_block \<Rightarrow> bool" where
  "answers allowed c r b \<longleftrightarrow> rc_call r = c \<and> trb_call_id b = call_id c \<and> trb_content b = rc_result r
     \<and> trb_is_error b = (\<not> rc_success r) \<and> (rc_executed r \<longrightarrow> call_name c \<in> set allowed)
     \<and> (rc_success r \<longrightarrow> rc_executed r)"

lemma reject_call_answers:
  "reject_call L c reason i records w = (Inr (b, records'), w') \<Longrightarrow>
    \<exists>r. records' = records @ [r] \<and> answers allowed c r b"
  unfolding reject_call_def Let_def
  by (auto dest!: andthen_InrD bnd_InrD mk_tool_result_block_Inr simp: answers_def)

lemma run_call_answers:
  "run_call L ctx granted i c records w = (Inr (b, records'), w') \<Longrightarrow> call_name c \<in> set allowed \<Longrightarrow>
    \<exists>r. records' = records @ [r] \<and> answers allowed c r b"
  unfolding run_call_def Let_def
  by (auto dest!: andthen_InrD bnd_InrD mk_tool_result_block_Inr simp: answers_def)

lemma handle_call_answers:
  assumes "handle_call L allowed opts ctx granted i k c records w = (Inr (b, records'), w')"
  shows "\<exists>r. records' = records @ [r] \<and> answers allowed c r b"
  using assms unfolding handle_call_def
  by (auto dest!: andthen_InrD bnd_InrD intro: reject_call_answers run_call_answers split: if_splits)

lemma handle_calls_answers:
  "handle_calls L allowed opts ctx granted i k cs records w = (Inr (bs, records'), w') \<Longrightarrow>
    \<exists>rs. records' = records @ rs \<and> length rs = length cs \<and> length bs = length cs
      \<and> (\<forall>j < length cs. answers allowed (cs ! j) (rs ! j) (bs ! j))"
proof (induction cs arbitrary: records w bs records' w')
  case (Cons c cs)
  from Cons.prems obtain b records1 v bs' v' where
    one: "handle_call L allowed opts ctx granted i k c records w = (Inr (b, records1), v)" and
    rest: "handle_calls L allowed opts ctx granted i k cs records1 v = (Inr (bs', records'), v')" and
    bs: "bs = b # bs'"
    by (auto dest!: bnd_InrD)
  obtain r where r: "records1 = records @ [r]" "answers allowed c r b"
    using handle_call_answers[OF one] by blast
  obtain rs where "records' = records1 @ rs" "length rs = length cs" "length bs' = length cs"
      "\<forall>j < length cs. answers allowed (cs ! j) (rs ! j) (bs' ! j)"
    using Cons.IH[OF rest] by blast
  with r bs show ?case by (intro exI[of _ "r # rs"]) (auto simp: less_Suc_eq_0_disj)
qed simp

section \<open>A whole run\<close>

text \<open>A round that asked for tools: its text, its calls, their records and blocks.\<close>

record tool_round =
  rd_text :: string
  rd_calls :: "tool_call list"
  rd_records :: "tool_call_record list"
  rd_blocks :: "tool_result_block list"

definition round_ok :: "string list \<Rightarrow> tool_round \<Rightarrow> bool" where
  "round_ok allowed d \<longleftrightarrow> rd_calls d \<noteq> [] \<and> length (rd_records d) = length (rd_calls d)
     \<and> length (rd_blocks d) = length (rd_calls d)
     \<and> (\<forall>j < length (rd_calls d). answers allowed (rd_calls d ! j) (rd_records d ! j) (rd_blocks d ! j))"

definition round_messages :: "tool_round \<Rightarrow> payload list" where
  "round_messages d = [assistant_message (rd_text d) (rd_calls d),
     [(''role'', PStr ''user''), (''content'', PTuple (map tool_result_entry (rd_blocks d)))]]"

text \<open>A result told by its rounds.\<close>

definition told_by :: "string list \<Rightarrow> payload list \<Rightarrow> nat \<Rightarrow> tool_round list \<Rightarrow> tool_loop_result \<Rightarrow> bool" where
  "told_by allowed messages limit ds r \<longleftrightarrow>
     list_all (round_ok allowed) ds
     \<and> lr_messages r = messages @ concat (map round_messages ds)
         @ (if lr_success r then [assistant_message (the (lr_text r)) []] else [])
     \<and> lr_tool_calls r = concat (map rd_records ds)
     \<and> lr_iterations r = length ds + (if lr_exhausted r then 0 else 1)
     \<and> lr_iterations r \<le> limit \<and> (lr_exhausted r \<longrightarrow> length ds = limit \<and> \<not> lr_success r)
     \<and> (lr_success r \<longleftrightarrow> lr_text r \<noteq> None) \<and> (lr_success r \<longleftrightarrow> lr_error r = None)"

lemma loop_rounds_told:
  assumes "loop_rounds n L provider specs ctx opts granted i k history records w = (Inr r, w')"
  shows "\<exists>ds. told_by (map spec_name specs) history n ds
      (r\<lparr>lr_iterations := lr_iterations r - k, lr_tool_calls := drop (length records) (lr_tool_calls r)\<rparr>)
    \<and> lr_iterations r \<ge> k \<and> take (length records) (lr_tool_calls r) = records"
  using assms
proof (induction n arbitrary: k history records w)
  case 0
  then show ?case by (intro exI[of _ "[]"]) (auto simp: told_by_def)
next
  case (Suc n)
  let ?allowed = "map spec_name specs"
  from Suc.prems obtain response u where
    "conclude_round L ?allowed ctx opts granted i (k + 1) history records response
       (loop_rounds n L provider specs ctx opts granted i (k + 1)) u = (Inr r, w')"
    by (auto dest!: bnd_InrD)
  note run = this[unfolded conclude_round_def]
  show ?case
  proof (cases "\<not> er_success response \<or> er_payload response = None")
    case True
    with run show ?thesis by (intro exI[of _ "[]"]) (auto simp: told_by_def)
  next
    case False
    obtain reply calls where parsed: "parse_response (the (er_payload response)) = (reply, calls)"
      by (cases "parse_response (the (er_payload response))")
    show ?thesis
    proof (cases "calls = []")
      case True
      with False run parsed show ?thesis by (intro exI[of _ "[]"]) (auto simp: told_by_def)
    next
      case calls: False
      with False run parsed obtain bs records' v' m where
        handled: "handle_calls L (map spec_name specs) opts ctx granted i (k + 1) calls records u
          = (Inr (bs, records'), v')" and
        m: "tool_results_message bs = Inr m" and
        rest: "loop_rounds n L provider specs ctx opts granted i (k + 1)
          ((history @ [assistant_message reply calls]) @ [m]) records' v' = (Inr r, w')"
        by (auto simp: Let_def dest!: bnd_InrD)
      obtain rs where rs: "records' = records @ rs" "length rs = length calls" "length bs = length calls"
          "\<forall>j < length calls. answers (map spec_name specs) (calls ! j) (rs ! j) (bs ! j)"
        using handle_calls_answers[OF handled] by blast
      define d where "d = \<lparr>rd_text = reply, rd_calls = calls, rd_records = rs, rd_blocks = bs\<rparr>"
      have d: "round_ok (map spec_name specs) d" "rd_records d = rs" "round_messages d = [assistant_message reply calls, m]"
        using rs calls m by (auto simp: d_def round_ok_def round_messages_def tool_results_message_def split: if_splits)
      obtain ds where ds: "told_by (map spec_name specs) ((history @ [assistant_message reply calls]) @ [m]) n ds
          (r\<lparr>lr_iterations := lr_iterations r - (k + 1), lr_tool_calls := drop (length records') (lr_tool_calls r)\<rparr>)"
          "lr_iterations r \<ge> k + 1" "take (length records') (lr_tool_calls r) = records'"
        using Suc.IH[OF rest] by blast
      have "drop (length records) (lr_tool_calls r) = rs @ drop (length records') (lr_tool_calls r)"
        using ds(3) rs(1) by (metis append_take_drop_id append_eq_conv_conj append_assoc)
      moreover have "take (length records) (lr_tool_calls r) = records"
        using ds(3) rs(1) by (metis append_eq_conv_conj append_take_drop_id append_assoc)
      ultimately show ?thesis
        using ds(1,2) d by (intro exI[of _ "d # ds"]) (auto simp: told_by_def)
    qed
  qed
qed

section \<open>What the loop asks of the engine\<close>

text \<open>Two executors that agree on provider requests and on the tools of a set.\<close>

definition agree_on :: "string list \<Rightarrow> 'w executor \<Rightarrow> 'w executor \<Rightarrow> bool" where
  "agree_on allowed f g \<longleftrightarrow> (\<forall>req ctx granted w.
     xr_target req = PROVIDER \<or> xr_operation req \<in> set allowed \<longrightarrow> f req ctx granted w = g req ctx granted w)"

lemma loop_publish_execute [simp]: "loop_publish (L\<lparr>tl_execute := g\<rparr>) = loop_publish L"
  by (rule ext) (simp add: loop_publish_def)

lemma render_payload_execute [simp]: "render_payload (L\<lparr>tl_execute := g\<rparr>) = render_payload L"
proof
  show "render_payload (L\<lparr>tl_execute := g\<rparr>) p = render_payload L p" for p
    by (cases p) (auto simp: render_payload_def split: sum.split)
qed

lemma reject_call_execute [simp]: "reject_call (L\<lparr>tl_execute := g\<rparr>) = reject_call L"
  by (intro ext) (simp add: reject_call_def)

lemma run_call_agree:
  assumes "agree_on allowed (tl_execute L) g" and "call_name c \<in> set allowed"
  shows "run_call (L\<lparr>tl_execute := g\<rparr>) ctx granted i c records w = run_call L ctx granted i c records w"
proof -
  have sel: "tl_env (L\<lparr>tl_execute := g\<rparr>) = tl_env L" "tl_execute (L\<lparr>tl_execute := g\<rparr>) = g" by simp_all
  have same: "g req ctx granted = tl_execute L req ctx granted"
    if "new_request (tl_env L) TOOL (call_name c) (call_arguments c) w = (Inr req, v)" for req v
    using new_request_Inr[OF that] assms by (intro ext) (simp add: agree_on_def)
  show ?thesis
    unfolding run_call_def loop_publish_execute render_payload_execute sel
    by (rule bnd_cong_run) (simp add: same)
qed

lemma handle_call_agree:
  assumes "agree_on allowed (tl_execute L) g"
  shows "handle_call (L\<lparr>tl_execute := g\<rparr>) allowed opts ctx granted i k c records w =
    handle_call L allowed opts ctx granted i k c records w"
  unfolding handle_call_def loop_publish_execute reject_call_execute
  using run_call_agree[OF assms] by (intro andthen_cong_run) (auto intro!: bnd_cong_run)

lemma handle_calls_agree:
  assumes "agree_on allowed (tl_execute L) g"
  shows "handle_calls (L\<lparr>tl_execute := g\<rparr>) allowed opts ctx granted i k cs records w =
    handle_calls L allowed opts ctx granted i k cs records w"
proof (induction cs arbitrary: records w)
  case (Cons c cs)
  have "handle_calls (L\<lparr>tl_execute := g\<rparr>) allowed opts ctx granted i k cs =
      handle_calls L allowed opts ctx granted i k cs" by (intro ext) (rule Cons.IH)
  moreover have "handle_call (L\<lparr>tl_execute := g\<rparr>) allowed opts ctx granted i k c records =
      handle_call L allowed opts ctx granted i k c records" by (intro ext) (rule handle_call_agree[OF assms])
  ultimately show ?case by simp
qed simp

lemma loop_rounds_agree:
  assumes "agree_on (map spec_name specs) (tl_execute L) g"
  shows "loop_rounds n (L\<lparr>tl_execute := g\<rparr>) provider specs ctx opts granted i k history records w =
    loop_rounds n L provider specs ctx opts granted i k history records w"
proof (induction n arbitrary: k history records w)
  case (Suc n)
  have next_round: "loop_rounds n (L\<lparr>tl_execute := g\<rparr>) provider specs ctx opts granted i (k + 1) =
      loop_rounds n L provider specs ctx opts granted i (k + 1)" by (intro ext) (rule Suc.IH)
  have calls: "handle_calls (L\<lparr>tl_execute := g\<rparr>) (map spec_name specs) opts ctx granted i (k + 1) =
      handle_calls L (map spec_name specs) opts ctx granted i (k + 1)"
    by (intro ext) (rule handle_calls_agree[OF assms])
  have concl: "conclude_round (L\<lparr>tl_execute := g\<rparr>) (map spec_name specs) ctx opts granted i (k + 1) history records =
      conclude_round L (map spec_name specs) ctx opts granted i (k + 1) history records"
    unfolding conclude_round_def calls ..
  have sel: "tl_env (L\<lparr>tl_execute := g\<rparr>) = tl_env L" "tl_execute (L\<lparr>tl_execute := g\<rparr>) = g" by simp_all
  have "g req ctx [] v = tl_execute L req ctx [] v"
    if "new_request (tl_env L) PROVIDER provider p w = (Inr req, v)" for req v p
    using new_request_Inr[OF that] assms by (simp add: agree_on_def)
  then have same: "bnd (g req ctx []) f v = bnd (tl_execute L req ctx []) f v"
    if "new_request (tl_env L) PROVIDER provider p w = (Inr req, v)" for req v p and f :: "exec_result \<Rightarrow> ('a, tool_loop_result) py"
    using that by (simp add: bnd_def)
  show ?case
    unfolding loop_rounds.simps next_round concl sel by (rule bnd_cong_run) (rule same)
qed simp

lemma describe_tools_names:
  "keyed_by tool_id r \<Longrightarrow> describe_tools r is = Inr specs \<Longrightarrow> map spec_name specs = is"
proof (induction "is" arbitrary: specs)
  case (Cons i "is")
  from Cons.prems(2) obtain t spec specs' where t: "tool_lookup i r = Inr t"
    "mk_tool_spec (tool_id t) (tool_description t) (PDict (tool_input_schema t)) = Inr spec"
    "describe_tools r is = Inr specs'" "specs = spec # specs'"
    by (auto simp: rbind_Inr_iff split: if_splits)
  have "tool_id t = i" using tools.lookup_key[OF Cons.prems(1) t(1)] .
  with t Cons.IH[OF Cons.prems(1) t(3)] show ?case by (auto simp: mk_tool_spec_iff)
qed simp

lemma loop_run_rounds:
  assumes "messages \<noteq> []" and "tool_ids \<noteq> []"
    and "describe_tools (tl_tools L w) tool_ids = Inr specs"
    and "require_tool_calls (tl_providers L w) provider = Inr ()"
  shows "loop_run L provider messages tool_ids ctx (Some opts) granted w =
    loop_rounds (nat (lo_max_iterations opts)) L provider specs ctx opts granted
      (fst (env_uuid (tl_env L) w)) 0 messages [] (snd (env_uuid (tl_env L) w))"
  using assms by (simp add: loop_run_def bnd_def reading_def split: prod.split)

lemma loop_run_starts:
  assumes "loop_run L provider messages tool_ids ctx options granted w = (Inr r, w')"
  shows "messages \<noteq> [] \<and> tool_ids \<noteq> [] \<and> (\<exists>specs. describe_tools (tl_tools L w) tool_ids = Inr specs)
    \<and> require_tool_calls (tl_providers L w) provider = Inr ()"
  using assms unfolding loop_run_def Let_def by (auto split: if_splits sum.splits)

section \<open>Properties\<close>

definition demo_loop :: "nat tool_loop" where
  "demo_loop = \<lparr>
     tl_execute = (\<lambda>req ctx granted. ret \<lparr>er_success = True, er_payload = Some [(''text'', PStr ''hi'')],
       er_error = None, er_time = 0, er_metadata = []\<rparr>),
     tl_tools = (\<lambda>_. [(''echo'', echo_tool)]), tl_providers = (\<lambda>_. [(''p'', demo_provider ''p'')]),
     tl_bus = None, tl_env = counting_env, tl_dumps = (\<lambda>_. Inr ''{}''), tl_str = (\<lambda>_. ''{}'')\<rparr>"

lemma demo_loop_tools [simp]: "keyed_by tool_id (tl_tools demo_loop w)"
  by (simp add: demo_loop_def keyed_by_def echo_tool_def dict_ok_def)



text \<open>C11 The offered set confines the model: the run does not depend on what the engine would
  do for a tool outside it, so no such tool is ever asked for, whatever calls the model makes
  up and whatever the approval hook says.\<close>

theorem loop_confined_to_offered_tools:
  assumes "keyed_by tool_id (tl_tools L w)" and "agree_on tool_ids (tl_execute L) g"
  shows "loop_run (L\<lparr>tl_execute := g\<rparr>) provider messages tool_ids ctx options granted w =
    loop_run L provider messages tool_ids ctx options granted w"
proof (cases "describe_tools (tl_tools L w) tool_ids")
  case (Inl e)
  then show ?thesis by (simp add: loop_run_def Let_def cong: if_cong)
next
  case (Inr specs)
  with assms have "agree_on (map spec_name specs) (tl_execute L) g"
    by (simp add: describe_tools_names)
  then have "loop_rounds n (L\<lparr>tl_execute := g\<rparr>) provider specs ctx opts granted i k history records =
      loop_rounds n L provider specs ctx opts granted i k history records"
    for n ctx opts granted i k history records
    by (intro ext) (rule loop_rounds_agree)
  then show ?thesis
    using Inr by (cases "require_tool_calls (tl_providers L w) provider")
      (simp_all add: loop_run_def Let_def cong: if_cong)
qed

theorem loop_confined_to_offered_tools_witness:
  "loop_run (demo_loop\<lparr>tl_execute := \<lambda>req. if xr_target req = TOOL \<and> xr_operation req \<noteq> ''echo''
       then (\<lambda>_ _. throw (Exn ExecutionError ''ran it'')) else tl_execute demo_loop req\<rparr>)
     ''p'' [[]] [''echo''] demo_exec_context None [] 0 =
   loop_run demo_loop ''p'' [[]] [''echo''] demo_exec_context None [] 0"
  by (rule loop_confined_to_offered_tools) (auto simp: agree_on_def)

text \<open>A run that cannot start raises before anything happened: with no message, no tool, a
  tool that is not registered, or a provider that is not registered or does not declare tool
  calls, the state is untouched and the error is a \<open>ToolLoopError\<close>, unless describing an
  earlier tool already failed.\<close>

theorem loop_refuses_to_start:
  assumes "messages = [] \<or> tool_ids = [] \<or> (\<exists>i. i \<in> set tool_ids \<and> \<not> tool_exists i (tl_tools L w))
    \<or> \<not> provider_is_registered provider (tl_providers L w)
    \<or> (\<exists>p. provider_get provider (tl_providers L w) = Inr p \<and> \<not> cap_tool_calls (prov_capabilities p))"
  shows "\<exists>e. loop_run L provider messages tool_ids ctx options granted w = (Inl e, w)
    \<and> (exn_isa ToolLoopError e \<or> exn_isa ToolCallingError e)"
proof -
  have desc_err: "exn_isa ToolLoopError e \<or> exn_isa ToolCallingError e"
    if "describe_tools r ids = Inl e" for e ids and r :: "'a tool_registry"
    using that
  proof (induction ids arbitrary: e)
    case (Cons i ids)
    show ?case
    proof (cases "tool_lookup i r")
      case (Inl e')
      with Cons.prems show ?thesis
        by (auto simp: tool_exists_def has_key_def tool_lookup_def split: option.splits if_splits)
    next
      case (Inr t)
      with Cons show ?thesis
        by (cases "mk_tool_spec (tool_id t) (tool_description t) (PDict (tool_input_schema t))";
            cases "describe_tools r ids")
          (auto split: if_splits simp: mk_tool_spec_def)
    qed
  qed simp
  have unregistered: "\<exists>e. describe_tools r ids = Inl e" if "\<not> tool_exists i r" "i \<in> set ids"
    for i ids and r :: "'a tool_registry"
    using that by (induction ids) (auto simp: rbind_def split: sum.splits)
  have incapable: "\<exists>e. require_tool_calls (tl_providers L w) provider = Inl e \<and> exn_isa ToolLoopError e"
    if "\<not> provider_is_registered provider (tl_providers L w)
      \<or> (\<exists>p. provider_get provider (tl_providers L w) = Inr p \<and> \<not> cap_tool_calls (prov_capabilities p))"
    using that by (auto simp: require_tool_calls_def)
  show ?thesis
  proof (cases "messages = [] \<or> tool_ids = []")
    case True
    then show ?thesis by (auto simp: loop_run_def Let_def)
  next
    case False
    then have start: "loop_run L provider messages tool_ids ctx options granted w =
      (case describe_tools (tl_tools L w) tool_ids of Inl e \<Rightarrow> (Inl e, w) | Inr specs \<Rightarrow>
        (case require_tool_calls (tl_providers L w) provider of Inl e \<Rightarrow> (Inl e, w) | Inr _ \<Rightarrow>
          bnd (reading (env_uuid (tl_env L))) (\<lambda>loop_id.
            loop_rounds (nat (lo_max_iterations (case options of None \<Rightarrow> default_loop_options | Some o' \<Rightarrow> o')))
              L provider specs ctx (case options of None \<Rightarrow> default_loop_options | Some o' \<Rightarrow> o') granted
              loop_id 0 messages []) w))"
      by (simp add: loop_run_def Let_def)
    show ?thesis
    proof (cases "describe_tools (tl_tools L w) tool_ids")
      case (Inl e)
      then show ?thesis using desc_err[OF Inl] by (simp add: start)
    next
      case (Inr specs)
      with assms False unregistered[of _ "tl_tools L w" tool_ids] incapable
      show ?thesis by (auto simp: start)
    qed
  qed
qed

theorem loop_refuses_to_start_witness:
  "\<exists>e. loop_run demo_loop ''p'' [[]] [''nothing''] demo_exec_context None [] 0 = (Inl e, 0)
    \<and> (exn_isa ToolLoopError e \<or> exn_isa ToolCallingError e)"
  by (rule loop_refuses_to_start) (simp add: demo_loop_def tool_exists_def has_key_def)

end
