(* ===== verification/Worker_Pool.thy ===== *)
theory Worker_Pool
  imports Execution
begin

text \<open>
  The thread pool of a parallel workflow group (\<open>WorkflowEngine._run_parallel_group\<close>):
  the states its futures go through, as a step relation over every interleaving of the
  workers with the thread that collects results, and an executor driven by a schedule whose
  runs are runs of the relation. What a task does to the world happens at the instant it
  finishes; effects of tasks that overlap are not interleaved any finer.
\<close>

section \<open>Futures and the steps of the pool\<close>

datatype task = Pending | Running | Done exec_result | Raised exn | Cancelled

fun settled :: "task \<Rightarrow> bool" where
  "settled Pending = False"
| "settled Running = False"
| "settled _ = True"

text \<open>
  Futures in the order of submission, the indices the collecting thread has seen,
  whether it has cancelled the rest, and the exception outside \<open>Exception\<close> that ended it.
\<close>

record pool =
  pl_tasks :: "task list"
  pl_seen :: "nat list"
  pl_stopped :: bool
  pl_aborted :: "exn option"

definition new_pool :: "nat \<Rightarrow> pool" where
  "new_pool n = \<lparr>pl_tasks = replicate n Pending, pl_seen = [], pl_stopped = False, pl_aborted = None\<rparr>"

definition running :: "pool \<Rightarrow> nat" where
  "running p = length (filter (\<lambda>t. t = Running) (pl_tasks p))"

definition set_task :: "nat \<Rightarrow> task \<Rightarrow> pool \<Rightarrow> pool" where
  "set_task i t p = p\<lparr>pl_tasks := (pl_tasks p)[i := t]\<rparr>"

text \<open>\<open>Future.cancel()\<close> on every other future: only one that has not started is cancelled.\<close>

definition cancel_pending :: "task list \<Rightarrow> task list" where
  "cancel_pending ts = map (\<lambda>t. if t = Pending then Cancelled else t) ts"

definition task_of :: "exec_result res \<Rightarrow> task" where
  "task_of x = (case x of Inl e \<Rightarrow> Raised e | Inr r \<Rightarrow> Done r)"

text \<open>The body of the loop over \<open>as_completed\<close>; \<open>conts\<close> are the steps' \<open>continue_on_failure\<close>.\<close>

definition observe :: "bool list \<Rightarrow> nat \<Rightarrow> pool \<Rightarrow> pool" where
  "observe conts i p =
     (let p' = p\<lparr>pl_seen := pl_seen p @ [i]\<rparr> in
      case pl_tasks p ! i of
        Done r \<Rightarrow>
          if \<not> pl_stopped p \<and> \<not> er_success r \<and> \<not> conts ! i
          then p'\<lparr>pl_stopped := True, pl_tasks := cancel_pending (pl_tasks p)\<rparr> else p'
      | Raised e \<Rightarrow> if exn_is_exception e then p' else p'\<lparr>pl_aborted := Some e\<rparr>
      | _ \<Rightarrow> p')"

definition startable :: "nat \<Rightarrow> pool \<Rightarrow> nat \<Rightarrow> bool" where
  "startable workers p i \<longleftrightarrow> i < length (pl_tasks p) \<and> pl_tasks p ! i = Pending
     \<and> list_all (\<lambda>t. t \<noteq> Pending) (take i (pl_tasks p)) \<and> running p < workers"

definition finishable :: "pool \<Rightarrow> nat \<Rightarrow> bool" where
  "finishable p i \<longleftrightarrow> i < length (pl_tasks p) \<and> pl_tasks p ! i = Running"

definition observable :: "pool \<Rightarrow> nat \<Rightarrow> bool" where
  "observable p i \<longleftrightarrow> i < length (pl_tasks p) \<and> settled (pl_tasks p ! i) \<and> i \<notin> set (pl_seen p)
     \<and> pl_aborted p = None"

inductive pool_step :: "nat \<Rightarrow> bool list \<Rightarrow> pool \<Rightarrow> pool \<Rightarrow> bool" for workers conts where
  start: "startable workers p i \<Longrightarrow> pool_step workers conts p (set_task i Running p)"
| finish: "finishable p i \<Longrightarrow> pool_step workers conts p (set_task i (task_of x) p)"
| observe: "observable p i \<Longrightarrow> pool_step workers conts p (observe conts i p)"

inductive_cases pool_stepE: "pool_step workers conts p q"

inductive pool_reachable :: "nat \<Rightarrow> bool list \<Rightarrow> pool \<Rightarrow> bool" for workers conts where
  initial: "pool_reachable workers conts (new_pool (length conts))"
| step: "pool_reachable workers conts p \<Longrightarrow> pool_step workers conts p q \<Longrightarrow> pool_reachable workers conts q"

section \<open>The executor\<close>

datatype action = Start nat | Finish nat | Observe nat

definition enabled :: "nat \<Rightarrow> pool \<Rightarrow> action list" where
  "enabled workers p = (let is = [0 ..< length (pl_tasks p)] in
     map Start (filter (startable workers p) is) @ map Finish (filter (finishable p) is)
     @ map Observe (filter (observable p) is))"

fun perform ::
  "(nat \<Rightarrow> ('w, exec_result) py) \<Rightarrow> bool list \<Rightarrow> action \<Rightarrow> pool \<times> 'w \<Rightarrow> pool \<times> 'w" where
  "perform run conts (Start i) (p, w) = (set_task i Running p, w)"
| "perform run conts (Finish i) (p, w) = (case run i w of (x, w') \<Rightarrow> (set_task i (task_of x) p, w'))"
| "perform run conts (Observe i) (p, w) = (observe conts i p, w)"

text \<open>The \<open>k\<close>th decision of a schedule picks among the actions that are enabled.\<close>

fun pool_loop ::
  "nat \<Rightarrow> (nat \<Rightarrow> nat) \<Rightarrow> nat \<Rightarrow> (nat \<Rightarrow> ('w, exec_result) py) \<Rightarrow> bool list \<Rightarrow> pool \<times> 'w \<Rightarrow> pool \<times> 'w" where
  "pool_loop 0 schedule workers run conts s = s"
| "pool_loop (Suc n) schedule workers run conts s =
     (case enabled workers (fst s) of
        [] \<Rightarrow> s
      | as \<Rightarrow> pool_loop n schedule workers run conts (perform run conts (as ! (schedule n mod length as)) s))"

definition run_pool ::
  "(nat \<Rightarrow> nat) \<Rightarrow> nat \<Rightarrow> (nat \<Rightarrow> ('w, exec_result) py) \<Rightarrow> bool list \<Rightarrow> 'w \<Rightarrow> pool \<times> 'w" where
  "run_pool schedule workers run conts w =
     pool_loop (3 * length conts) schedule workers run conts (new_pool (length conts), w)"

section \<open>What every reachable pool satisfies\<close>

text \<open>A result that makes the collecting thread cancel the rest.\<close>

definition stopping :: "bool list \<Rightarrow> nat \<Rightarrow> task \<Rightarrow> bool" where
  "stopping conts i t = (case t of Done r \<Rightarrow> \<not> er_success r \<and> \<not> conts ! i | _ \<Rightarrow> False)"

definition pool_inv :: "nat \<Rightarrow> bool list \<Rightarrow> pool \<Rightarrow> bool" where
  "pool_inv workers conts p \<longleftrightarrow> length (pl_tasks p) = length conts \<and> running p \<le> workers
     \<and> distinct (pl_seen p) \<and> (\<forall>i \<in> set (pl_seen p). i < length conts \<and> settled (pl_tasks p ! i))
     \<and> (pl_stopped p \<longleftrightarrow> (\<exists>i \<in> set (pl_seen p). stopping conts i (pl_tasks p ! i)))
     \<and> (\<forall>i < length conts. pl_tasks p ! i = Cancelled \<longrightarrow> pl_stopped p)
     \<and> (\<forall>e. pl_aborted p = Some e \<longrightarrow> \<not> exn_is_exception e
          \<and> (\<exists>i < length conts. pl_tasks p ! i = Raised e))
     \<and> (pl_aborted p = None \<longrightarrow> (\<forall>i \<in> set (pl_seen p). \<forall>e. pl_tasks p ! i = Raised e \<longrightarrow> exn_is_exception e))"

lemma settled_cancel [simp]: "settled (if t = Pending then Cancelled else t) \<longleftrightarrow> t \<noteq> Running"
  by (cases t) auto

lemma running_set_task:
  "i < length (pl_tasks p) \<Longrightarrow> running (set_task i t p) + (if pl_tasks p ! i = Running then 1 else 0) =
    running p + (if t = Running then 1 else 0)"
proof -
  have "length (filter P (xs[i := t])) + (if P (xs ! i) then 1 else 0) =
      length (filter P xs) + (if P t then 1 else 0)" if "i < length xs" for P i and xs :: "task list"
    using that
  proof (induction xs arbitrary: i)
    case (Cons x xs)
    show ?case
    proof (cases i)
      case (Suc j)
      with Cons.IH[of j] Cons.prems show ?thesis by simp
    qed simp
  qed simp
  from this[of i "pl_tasks p" "\<lambda>t. t = Running"]
  show "i < length (pl_tasks p) \<Longrightarrow> ?thesis" by (simp add: running_def set_task_def)
qed

lemma running_cancel: "length (filter (\<lambda>t. t = Running) (cancel_pending ts)) = length (filter (\<lambda>t. t = Running) ts)"
  by (induction ts) (auto simp: cancel_pending_def)

lemma length_cancel [simp]: "length (cancel_pending ts) = length ts"
  by (simp add: cancel_pending_def)

lemma pool_inv_new: "pool_inv workers conts (new_pool (length conts))"
  by (auto simp: pool_inv_def new_pool_def running_def)

lemma pool_inv_set:
  assumes "pool_inv workers conts p" and "i < length (pl_tasks p)" and "\<not> settled (pl_tasks p ! i)"
    and "running (set_task i t p) \<le> workers" and "t \<noteq> Cancelled"
  shows "pool_inv workers conts (set_task i t p)"
proof -
  have "i \<notin> set (pl_seen p)" using assms by (auto simp: pool_inv_def)
  then have same: "j \<in> set (pl_seen p) \<Longrightarrow> (pl_tasks p)[i := t] ! j = pl_tasks p ! j" for j
    by (metis nth_list_update_neq)
  have raised: "pl_tasks p ! j = Raised e \<Longrightarrow> (pl_tasks p)[i := t] ! j = Raised e" for j e
    using assms(3) by (metis nth_list_update_neq settled.simps(4))
  have cancelled: "(pl_tasks p)[i := t] ! j = Cancelled \<Longrightarrow> pl_tasks p ! j = Cancelled" for j
    using assms(2,5) by (metis nth_list_update_eq nth_list_update_neq)
  show ?thesis
    using assms(1,4) raised cancelled unfolding pool_inv_def set_task_def
    by (simp add: same cong: ball_cong) (metis raised)
qed

lemma pool_inv_observe:
  assumes "pool_inv workers conts p" and "observable p i"
  shows "pool_inv workers conts (observe conts i p)"
proof -
  note o' = assms(2)[unfolded observable_def]
  have len: "length (pl_tasks p) = length conts" using assms(1) by (simp add: pool_inv_def)
  show ?thesis
  proof (cases "stopping conts i (pl_tasks p ! i) \<and> \<not> pl_stopped p")
    case True
    then obtain r where r: "pl_tasks p ! i = Done r" "\<not> er_success r" "\<not> conts ! i"
      by (auto simp: stopping_def split: task.splits)
    have eq: "observe conts i p =
        p\<lparr>pl_seen := pl_seen p @ [i], pl_stopped := True, pl_tasks := cancel_pending (pl_tasks p)\<rparr>"
      using r True by (simp add: observe_def)
    have nth: "j < length conts \<Longrightarrow> cancel_pending (pl_tasks p) ! j =
        (if pl_tasks p ! j = Pending then Cancelled else pl_tasks p ! j)" for j
      by (simp add: cancel_pending_def len)
    have seen: "j \<in> set (pl_seen p) \<Longrightarrow> cancel_pending (pl_tasks p) ! j = pl_tasks p ! j" for j
      using assms(1) nth[of j] by (auto simp: pool_inv_def)
    have self: "cancel_pending (pl_tasks p) ! i = Done r" using nth[of i] o' r len by simp
    show ?thesis
      unfolding eq using assms(1) o' r(2,3) len True
      by (auto simp: pool_inv_def running_def running_cancel seen self stopping_def nth length_cancel)
  next
    case False
    then have eq: "observe conts i p = p\<lparr>pl_seen := pl_seen p @ [i],
        pl_aborted := (case pl_tasks p ! i of Raised e \<Rightarrow> if exn_is_exception e then None else Some e | _ \<Rightarrow> None)\<rparr>"
      using o' by (cases "pl_tasks p ! i") (auto simp: observe_def stopping_def)
    show ?thesis
      unfolding eq using assms(1) o' False len
      by (auto simp: pool_inv_def running_def split: task.splits)
  qed
qed

lemma pool_inv_step: "pool_inv workers conts p \<Longrightarrow> pool_step workers conts p q \<Longrightarrow> pool_inv workers conts q"
proof (erule pool_stepE, goal_cases)
  case (1 i)
  then have "i < length (pl_tasks p)" "pl_tasks p ! i = Pending" "running p < workers" by (auto simp: startable_def)
  with 1 running_set_task[of i p Running] show ?case by (auto intro!: pool_inv_set)
next
  case (2 i x)
  then have "i < length (pl_tasks p)" "pl_tasks p ! i = Running" "running p \<le> workers"
    by (auto simp: finishable_def pool_inv_def)
  with 2 running_set_task[of i p "task_of x"] show ?case
    by (auto intro!: pool_inv_set simp: task_of_def split: sum.splits)
next
  case (3 i)
  then show ?case by (simp add: pool_inv_observe)
qed

lemma pool_reachable_inv: "pool_reachable workers conts p \<Longrightarrow> pool_inv workers conts p"
  by (induction rule: pool_reachable.induct) (simp add: pool_inv_new, rule pool_inv_step)

section \<open>Every schedule ends\<close>

lemma enabled_step:
  "a \<in> set (enabled workers p) \<Longrightarrow> pool_step workers conts p (fst (perform run conts a (p, w)))"
  by (auto simp: enabled_def Let_def intro: pool_step.intros split: prod.splits)

text \<open>How many actions a future still needs, and a pool.\<close>

definition task_weight :: "pool \<Rightarrow> nat \<Rightarrow> nat" where
  "task_weight p i = (case pl_tasks p ! i of Pending \<Rightarrow> 3 | Running \<Rightarrow> 2
     | _ \<Rightarrow> if i \<in> set (pl_seen p) then 0 else 1)"

definition pool_weight :: "pool \<Rightarrow> nat" where
  "pool_weight p = (\<Sum>i < length (pl_tasks p). task_weight p i)"

lemma task_weight_settled: "settled (pl_tasks p ! i) \<Longrightarrow> task_weight p i = (if i \<in> set (pl_seen p) then 0 else 1)"
  by (cases "pl_tasks p ! i") (auto simp: task_weight_def)

lemma weight_set_task:
  assumes "i < length (pl_tasks p)" and "task_weight (set_task i t p) i < task_weight p i"
  shows "pool_weight (set_task i t p) < pool_weight p"
  unfolding pool_weight_def
proof (simp add: set_task_def, rule sum_strict_mono_ex1, goal_cases)
  case 2
  show ?case
  proof
    fix j assume "j \<in> {..<length (pl_tasks p)}"
    show "task_weight (p\<lparr>pl_tasks := (pl_tasks p)[i := t]\<rparr>) j \<le> task_weight p j"
      using assms by (cases "j = i") (simp_all add: set_task_def task_weight_def)
  qed
next
  case 3
  then show ?case using assms by (auto simp: set_task_def)
qed simp

lemma weight_observe:
  assumes "observable p i"
  shows "pool_weight (observe conts i p) < pool_weight p"
proof -
  have len: "length (pl_tasks (observe conts i p)) = length (pl_tasks p)"
    by (auto simp: observe_def Let_def split: task.splits)
  have seen: "pl_seen (observe conts i p) = pl_seen p @ [i]"
    by (auto simp: observe_def Let_def split: task.splits)
  have nth: "pl_tasks (observe conts i p) ! j = pl_tasks p ! j
      \<or> pl_tasks p ! j = Pending \<and> pl_tasks (observe conts i p) ! j = Cancelled" if "j < length (pl_tasks p)" for j
    using that by (auto simp: observe_def Let_def cancel_pending_def split: task.splits)
  show ?thesis
    unfolding pool_weight_def len
  proof (rule sum_strict_mono_ex1, goal_cases)
    case 2
    show ?case
    proof
      fix j assume "j \<in> {..<length (pl_tasks p)}"
      then have "pl_tasks (observe conts i p) ! j = pl_tasks p ! j
          \<or> pl_tasks p ! j = Pending \<and> pl_tasks (observe conts i p) ! j = Cancelled" using nth[of j] by simp
      then show "task_weight (observe conts i p) j \<le> task_weight p j"
        by (elim disjE conjE) (simp_all add: task_weight_def seen split: task.split)
    qed
  next
    case 3
    from assms have i: "i < length (pl_tasks p)" "settled (pl_tasks p ! i)" "i \<notin> set (pl_seen p)"
      by (auto simp: observable_def)
    then have "settled (pl_tasks (observe conts i p) ! i)" using nth[of i] by auto
    with i have "task_weight (observe conts i p) i < task_weight p i"
      by (simp add: task_weight_settled seen)
    with i(1) show ?case by auto
  qed simp
qed

lemma weight_step: "pool_step workers conts p q \<Longrightarrow> pool_weight q < pool_weight p"
proof (erule pool_stepE, goal_cases)
  case (1 i)
  then have "i < length (pl_tasks p)" "pl_tasks p ! i = Pending" by (auto simp: startable_def)
  then have "pool_weight (set_task i Running p) < pool_weight p"
    by (intro weight_set_task) (simp_all add: task_weight_def set_task_def)
  with 1 show ?case by simp
next
  case (2 i x)
  then have "i < length (pl_tasks p)" "pl_tasks p ! i = Running" by (auto simp: finishable_def)
  moreover have "task_weight (set_task i (task_of x) p) i \<le> 1"
    using \<open>i < length (pl_tasks p)\<close> by (cases x) (auto simp: task_weight_def set_task_def task_of_def)
  ultimately have "pool_weight (set_task i (task_of x) p) < pool_weight p"
    by (intro weight_set_task) (simp_all add: task_weight_def[of p])
  with 2 show ?case by simp
next
  case (3 i)
  then show ?case by (simp add: weight_observe)
qed

lemma pool_loop_ends:
  assumes "pool_weight p \<le> n" and "pool_loop n schedule workers run conts (p, w) = (q, w')"
  shows "enabled workers q = []"
  using assms
proof (induction n arbitrary: p w)
  case 0
  have none: "\<not> pool_step workers [] p r" for r
  proof
    assume "pool_step workers [] p r"
    from weight_step[OF this] 0 show False by simp
  qed
  have "enabled workers p = []"
  proof (rule ccontr)
    assume "enabled workers p \<noteq> []"
    then have "hd (enabled workers p) \<in> set (enabled workers p)" by simp
    from enabled_step[OF this, of "[]" "\<lambda>_. throw undefined" w] none show False by blast
  qed
  with 0 show ?case by simp
next
  case (Suc n)
  show ?case
  proof (cases "enabled workers p")
    case Nil
    with Suc.prems show ?thesis by simp
  next
    case (Cons a as)
    define act where "act = (a # as) ! (schedule n mod Suc (length as))"
    have "act \<in> set (enabled workers p)" unfolding Cons act_def by (rule nth_mem) simp
    then have "pool_step workers conts p (fst (perform run conts act (p, w)))" by (rule enabled_step)
    then have "pool_weight (fst (perform run conts act (p, w))) \<le> n"
      using weight_step Suc.prems(1) by fastforce
    moreover obtain p1 w1 where act: "perform run conts act (p, w) = (p1, w1)" by fastforce
    moreover have "pool_loop n schedule workers run conts (p1, w1) = (q, w')"
      using Suc.prems(2) Cons act by (simp add: act_def)
    ultimately show ?thesis using Suc.IH by simp
  qed
qed

lemma pool_loop_reachable:
  assumes "pool_reachable workers conts p" and "pool_loop n schedule workers run conts (p, w) = (q, w')"
  shows "pool_reachable workers conts q"
  using assms
proof (induction n arbitrary: p w)
  case (Suc n)
  show ?case
  proof (cases "enabled workers p")
    case Nil
    with Suc.prems show ?thesis by simp
  next
    case (Cons a as)
    define act where "act = (a # as) ! (schedule n mod Suc (length as))"
    have "act \<in> set (enabled workers p)" unfolding Cons act_def by (rule nth_mem) simp
    then have "pool_reachable workers conts (fst (perform run conts act (p, w)))"
      by (rule pool_reachable.step[OF Suc.prems(1) enabled_step])
    moreover obtain p1 w1 where act: "perform run conts act (p, w) = (p1, w1)" by fastforce
    moreover have "pool_loop n schedule workers run conts (p1, w1) = (q, w')"
      using Suc.prems(2) Cons act by (simp add: act_def)
    ultimately show ?thesis using Suc.IH by simp
  qed
qed simp

text \<open>
  Whatever every run satisfies holds of every future at every moment; when what is raised lies
  inside \<open>Exception\<close>, the collection is never aborted.
\<close>

definition all_tasks :: "(task \<Rightarrow> bool) \<Rightarrow> nat \<Rightarrow> pool \<Rightarrow> bool" where
  "all_tasks Q n p \<longleftrightarrow> length (pl_tasks p) = n \<and> list_all Q (pl_tasks p) \<and> pl_aborted p = None"

lemma perform_tasks:
  assumes "all_tasks Q n p" and "Q Running" and "Q Cancelled"
    and "\<And>i w. i < n \<Longrightarrow> Q (task_of (fst (run i w)))"
    and "\<And>e. Q (Raised e) \<Longrightarrow> exn_is_exception e" and "act \<in> set (enabled workers p)"
  shows "all_tasks Q n (fst (perform run conts act (p, w)))"
proof -
  have upd: "list_all Q ts \<Longrightarrow> Q t \<Longrightarrow> list_all Q (ts[i := t])" for ts t i
    using set_update_subset_insert[of ts i t] by (auto simp: list_all_iff)
  show ?thesis
  proof (cases act)
    case (Start i)
    with assms upd show ?thesis by (simp add: set_task_def all_tasks_def)
  next
    case (Finish i)
    with assms(1,6) have "i < n" by (auto simp: enabled_def Let_def finishable_def all_tasks_def)
    moreover obtain x w1 where "run i w = (x, w1)" by fastforce
    ultimately show ?thesis using Finish assms(1) assms(4)[of i w] upd by (simp add: set_task_def all_tasks_def)
  next
    case (Observe i)
    with assms(6) have "i < length (pl_tasks p)" by (auto simp: enabled_def Let_def observable_def)
    then have "Q (pl_tasks p ! i)" using assms(1) by (simp add: list_all_length all_tasks_def)
    moreover have "list_all Q (cancel_pending (pl_tasks p))"
      using assms(1,3) by (auto simp: cancel_pending_def list_all_iff all_tasks_def)
    ultimately show ?thesis using Observe assms(1,5)
      by (auto simp: observe_def Let_def all_tasks_def split: task.splits)
  qed
qed

lemma pool_loop_tasks:
  assumes "all_tasks Q n p" and "Q Running" and "Q Cancelled"
    and "\<And>i w. i < n \<Longrightarrow> Q (task_of (fst (run i w)))"
    and "\<And>e. Q (Raised e) \<Longrightarrow> exn_is_exception e"
    and "pool_loop k schedule workers run conts (p, w) = (q, w')"
  shows "all_tasks Q n q"
  using assms(1,6)
proof (induction k arbitrary: p w)
  case (Suc k)
  show ?case
  proof (cases "enabled workers p")
    case Nil
    with Suc.prems show ?thesis by simp
  next
    case (Cons a as)
    define act where "act = (a # as) ! (schedule k mod Suc (length as))"
    have act: "act \<in> set (enabled workers p)" unfolding Cons act_def by (rule nth_mem) simp
    obtain p1 w1 where p1: "perform run conts act (p, w) = (p1, w1)" by fastforce
    have "all_tasks Q n (fst (perform run conts act (p, w)))"
      by (rule perform_tasks[OF Suc.prems(1) assms(2,3) _ _ act]) (use assms(4,5) in blast)+
    moreover have "pool_loop k schedule workers run conts (p1, w1) = (q, w')"
      using Suc.prems(2) Cons p1 by (simp add: act_def)
    ultimately show ?thesis using Suc.IH p1 by simp
  qed
qed simp

text \<open>A pool in which nothing is enabled has settled every future and seen them all.\<close>

lemma enabled_Nil_settled:
  assumes "enabled workers p = []" and "0 < workers" and "i < length (pl_tasks p)"
  shows "settled (pl_tasks p ! i)"
proof -
  have no_start: "\<not> startable workers p j" if "j < length (pl_tasks p)" for j
    using assms(1) that by (simp add: enabled_def Let_def filter_empty_conv)
  have no_running: "pl_tasks p ! j \<noteq> Running" if "j < length (pl_tasks p)" for j
    using assms(1) that by (simp add: enabled_def Let_def filter_empty_conv finishable_def)
  then have "running p = 0" by (auto simp: running_def filter_empty_conv in_set_conv_nth)
  have "pl_tasks p ! i \<noteq> Pending"
    using assms(3)
  proof (induction i rule: less_induct)
    case (less i)
    then have "list_all (\<lambda>t. t \<noteq> Pending) (take i (pl_tasks p))"
      by (auto simp: list_all_length)
    with no_start[OF less.prems] less.prems \<open>running p = 0\<close> assms(2) show ?case by (auto simp: startable_def)
  qed
  with no_running[OF assms(3)] show ?thesis by (cases "pl_tasks p ! i") auto
qed

lemma run_pool_final:
  assumes "run_pool schedule workers run conts w = (p, w')" and "0 < workers"
  shows "pool_inv workers conts p \<and> (\<forall>i < length conts. settled (pl_tasks p ! i))
    \<and> (pl_aborted p = None \<longrightarrow> set (pl_seen p) = {..< length conts})"
proof -
  have weight: "pool_weight (new_pool (length conts)) \<le> 3 * length conts"
    by (simp add: pool_weight_def task_weight_def new_pool_def)
  note loop = assms(1)[unfolded run_pool_def]
  have inv: "pool_inv workers conts p"
    using pool_reachable_inv[OF pool_loop_reachable[OF pool_reachable.initial loop]] .
  then have len: "length (pl_tasks p) = length conts" by (simp add: pool_inv_def)
  have ended: "enabled workers p = []" using pool_loop_ends[OF weight loop] .
  have settled: "\<forall>i < length conts. settled (pl_tasks p ! i)"
    using enabled_Nil_settled[OF ended assms(2)] len by simp
  have "i \<in> set (pl_seen p)" if "pl_aborted p = None" "i < length conts" for i
  proof -
    have "\<not> observable p i"
      using ended that(2) len by (auto simp: enabled_def Let_def filter_empty_conv)
    with settled that len show ?thesis by (auto simp: observable_def)
  qed
  with inv settled show ?thesis by (auto simp: pool_inv_def)
qed

section \<open>Properties\<close>

text \<open>C5 In every moment of every interleaving at most \<open>max_workers\<close> steps run, a step is
  cancelled only after the collecting thread has seen the result of a step that fails without
  \<open>continue_on_failure\<close>, and a step is collected at most once and only once it has ended.\<close>

theorem pool_safety:
  assumes "pool_reachable workers conts p"
  shows "running p \<le> workers
    \<and> (Cancelled \<in> set (pl_tasks p) \<longrightarrow>
        (\<exists>i \<in> set (pl_seen p). \<exists>r. pl_tasks p ! i = Done r \<and> \<not> er_success r \<and> \<not> conts ! i))
    \<and> distinct (pl_seen p) \<and> list_all (\<lambda>i. settled (pl_tasks p ! i)) (pl_seen p)"
proof -
  note inv = pool_reachable_inv[OF assms]
  have "\<exists>i \<in> set (pl_seen p). \<exists>r. pl_tasks p ! i = Done r \<and> \<not> er_success r \<and> \<not> conts ! i"
    if "Cancelled \<in> set (pl_tasks p)"
  proof -
    from that inv have "pl_stopped p" by (auto simp: pool_inv_def in_set_conv_nth)
    then obtain i where "i \<in> set (pl_seen p)" "stopping conts i (pl_tasks p ! i)"
      using inv by (auto simp: pool_inv_def)
    then show ?thesis by (auto simp: stopping_def split: task.splits intro!: bexI[of _ i])
  qed
  with inv show ?thesis by (auto simp: pool_inv_def list_all_iff)
qed

theorem pool_safety_witness:
  "running (set_task 0 Running (new_pool 2)) \<le> 1"
proof -
  have "startable 1 (new_pool 2) 0" by (simp add: startable_def new_pool_def running_def)
  then have "pool_reachable 1 [False, False] (set_task 0 Running (new_pool (length [False, False])))"
    by (intro pool_reachable.step[OF pool_reachable.initial] pool_step.start) (simp add: numeral_2_eq_2)
  from pool_safety[OF this] show ?thesis by (simp add: numeral_2_eq_2)
qed

text \<open>C6 A parallel group always ends: with at least one worker, every schedule leads within
  three actions per step to a state in which every step has ended or was cancelled, and, unless
  an exception outside \<open>Exception\<close> ended the collection, every one has been collected.\<close>

theorem pool_ends:
  assumes "0 < workers" and "run_pool schedule workers run conts w = (p, w')"
  shows "enabled workers p = [] \<and> length (pl_tasks p) = length conts \<and> list_all settled (pl_tasks p)
    \<and> (pl_aborted p = None \<longrightarrow> set (pl_seen p) = {..< length conts})"
proof -
  have weight: "pool_weight (new_pool (length conts)) \<le> 3 * length conts"
    by (simp add: pool_weight_def task_weight_def new_pool_def)
  have "enabled workers p = []" using pool_loop_ends[OF weight assms(2)[unfolded run_pool_def]] .
  with run_pool_final[OF assms(2,1)] show ?thesis by (auto simp: pool_inv_def list_all_length)
qed

theorem pool_ends_witness:
  "list_all settled (pl_tasks (fst (run_pool (\<lambda>_. 7) 2 (\<lambda>_. throw (Exn ToolError ''x'')) [False, True, False] (0 :: nat))))"
  using pool_ends[of 2 "\<lambda>_. 7" "\<lambda>_. throw (Exn ToolError ''x'')" "[False, True, False]" 0] by (metis pos2 prod.collapse)

end
