(* ===== verification/Workflow.thy ===== *)
theory Workflow
  imports Worker_Pool "HOL-Library.Sublist"
begin

text \<open>
  The workflow engine (\<open>workflow/\<close>): definitions and options with their checks, the
  partition of the steps into units, one step, a parallel group over the worker pool, and
  the run that stops at the first stopping failure. Every step goes through the execution
  engine's \<open>execute\<close>, which the engine record holds as a function.
\<close>

section \<open>Steps, definitions, runs\<close>

record workflow_step =
  ws_name :: string
  ws_request :: exec_request
  ws_granted :: "string frozenset"
  ws_continue :: bool

definition check_workflow_step :: "workflow_step \<Rightarrow> workflow_step res" where
  "check_workflow_step s =
     (if blank (ws_name s) then Inl (Exn WorkflowError ''WorkflowStep.name must not be blank.'') else Inr s)"

record workflow_definition =
  wd_name :: string
  wd_steps :: "workflow_step list"
  wd_metadata :: payload

definition check_workflow_definition :: "workflow_definition \<Rightarrow> workflow_definition res" where
  "check_workflow_definition d =
     (if blank (wd_name d) then Inl (Exn WorkflowError ''WorkflowDefinition.name must not be blank.'')
      else if \<not> distinct (map ws_name (wd_steps d))
      then Inl (Exn WorkflowError ''WorkflowDefinition.steps must have unique names.'')
      else Inr d)"

record workflow =
  wf_definition :: workflow_definition
  wf_id :: string

type_synonym step_results = "(string, exec_result) dict"

record workflow_context =
  wc_execution :: exec_context
  wc_results :: step_results

record workflow_result =
  wr_success :: bool
  wr_results :: step_results
  wr_error :: "string option"
  wr_stopped_at :: "string option"

definition check_workflow_result :: "workflow_result \<Rightarrow> workflow_result res" where
  "check_workflow_result r =
     (if \<not> wr_success r \<and> \<not> has_message (wr_error r)
      then Inl (Exn WorkflowError ''A failed WorkflowResult must include a non-empty `error` message.'')
      else if wr_success r \<and> wr_error r \<noteq> None
      then Inl (Exn WorkflowError ''A successful WorkflowResult must not set `error`.'')
      else if wr_success r \<and> wr_stopped_at r \<noteq> None
      then Inl (Exn WorkflowError ''A successful WorkflowResult must not set `stopped_at`.'')
      else Inr r)"

section \<open>Options\<close>

text \<open>What a resolver gives back: a request, or an object of another class, by its name.\<close>

datatype resolved = Request exec_request | Other string

type_synonym 'w resolver = "workflow_context \<Rightarrow> exec_request \<Rightarrow> ('w, resolved) py"

record 'w workflow_options =
  wo_resolvers :: "(string, 'w resolver) dict"
  wo_groups :: "string list list"
  wo_not_before :: "(string, datetime) dict"

definition no_options :: "'w workflow_options" where
  "no_options = \<lparr>wo_resolvers = [], wo_groups = [], wo_not_before = []\<rparr>"

definition validate_step_name :: "string \<Rightarrow> string \<Rightarrow> unit res" where
  "validate_step_name n field =
     (if blank n
      then Inl (Exn WorkflowError (''WorkflowExecutionOptions.'' @ field @ '' step names cannot be blank.''))
      else Inr ())"

fun check_names :: "string \<Rightarrow> string list \<Rightarrow> unit res" where
  "check_names field [] = Inr ()"
| "check_names field (n # ns) = rbind (validate_step_name n field) (\<lambda>_. check_names field ns)"

text \<open>The names of one group, given those grouped already; gives the names grouped now.\<close>

fun check_group :: "string list \<Rightarrow> string list \<Rightarrow> string list res" where
  "check_group grouped [] = Inr grouped"
| "check_group grouped (n # ns) =
     rbind (validate_step_name n ''parallel_groups'') (\<lambda>_.
     if n \<in> set grouped
     then Inl (Exn WorkflowError (''WorkflowExecutionOptions step '' @ repr_str n
            @ '' cannot appear in more than one parallel group.''))
     else check_group (grouped @ [n]) ns)"

fun check_groups :: "string list \<Rightarrow> string list list \<Rightarrow> string list res" where
  "check_groups grouped [] = Inr grouped"
| "check_groups grouped (g # gs) =
     (if g = [] then Inl (Exn WorkflowError ''WorkflowExecutionOptions.parallel_groups cannot be empty.'')
      else rbind (check_group grouped g) (\<lambda>grouped'. check_groups grouped' gs))"

fun check_schedule :: "(string, datetime) dict \<Rightarrow> unit res" where
  "check_schedule [] = Inr ()"
| "check_schedule ((n, d) # rest) =
     rbind (validate_step_name n ''not_before'') (\<lambda>_.
     if dt_offset d = None
     then Inl (Exn WorkflowError (''WorkflowExecutionOptions.not_before['' @ repr_str n
            @ ''] must be timezone-aware.''))
     else check_schedule rest)"

text \<open>\<open>__post_init__\<close>; a resolver is callable by its type here.\<close>

definition check_workflow_options :: "'w workflow_options \<Rightarrow> 'w workflow_options res" where
  "check_workflow_options opts =
     rbind (check_names ''request_resolvers'' (keys (wo_resolvers opts))) (\<lambda>_.
     rbind (check_groups [] (wo_groups opts)) (\<lambda>_.
     rbind (check_schedule (wo_not_before opts)) (\<lambda>_. Inr opts)))"

section \<open>Options applied to a workflow\<close>

text \<open>The index of a name among the steps, as \<open>positions\<close> has it (names are unique).\<close>

fun position :: "string list \<Rightarrow> string \<Rightarrow> nat" where
  "position [] n = 0"
| "position (m # ms) n = (if m = n then 0 else Suc (position ms n))"

definition contiguous_in_order :: "string list \<Rightarrow> string list \<Rightarrow> bool" where
  "contiguous_in_order names g =
     (let indexes = map (position names) g in
      g = map ((!) names) (sort indexes)
      \<and> Max (set indexes) - Min (set indexes) + 1 = length indexes)"

fun check_contiguous :: "string list \<Rightarrow> string list list \<Rightarrow> unit res" where
  "check_contiguous names [] = Inr ()"
| "check_contiguous names (g # gs) =
     (if \<not> contiguous_in_order names g
      then Inl (Exn WorkflowError (''WorkflowExecutionOptions.parallel_groups must name contiguous steps ''
             @ ''in their declared workflow order.''))
      else check_contiguous names gs)"

definition validate_options :: "workflow_step list \<Rightarrow> 'w workflow_options \<Rightarrow> unit res" where
  "validate_options steps opts =
     (let names = map ws_name steps;
          referenced = keys (wo_resolvers opts) @ keys (wo_not_before opts) @ concat (wo_groups opts);
          unknown = sort (remdups (filter (\<lambda>n. n \<notin> set names) referenced))
      in if unknown \<noteq> []
         then Inl (Exn WorkflowError (''WorkflowExecutionOptions references unknown step(s): ''
                @ join '', '' unknown @ ''.''))
         else check_contiguous names (wo_groups opts))"

text \<open>\<open>group_by_name\<close>: a later group would overwrite an earlier one, were a name in both.\<close>

fun group_by_name :: "nat \<Rightarrow> string list list \<Rightarrow> (string, nat) dict \<Rightarrow> (string, nat) dict" where
  "group_by_name i [] d = d"
| "group_by_name i (g # gs) d = group_by_name (Suc i) gs (dict_update d (map (\<lambda>n. (n, i)) g))"

definition add_to_units ::
  "(string, nat) dict \<Rightarrow> workflow_step list list \<Rightarrow> workflow_step \<Rightarrow> workflow_step list list" where
  "add_to_units by_name units step =
     (if map_of by_name (ws_name step) \<noteq> None \<and> units \<noteq> []
         \<and> map_of by_name (ws_name (hd (last units))) = map_of by_name (ws_name step)
      then butlast units @ [last units @ [step]]
      else units @ [[step]])"

definition group_into_units :: "workflow_step list \<Rightarrow> 'w workflow_options \<Rightarrow> workflow_step list list" where
  "group_into_units steps opts = foldl (add_to_units (group_by_name 0 (wo_groups opts) [])) [] steps"

definition explicitly_parallel :: "string \<Rightarrow> 'w workflow_options \<Rightarrow> bool" where
  "explicitly_parallel n opts = list_ex (\<lambda>g. n \<in> set g) (wo_groups opts)"

fun first_stopping_failure ::
  "workflow_step list \<Rightarrow> step_results \<Rightarrow> (workflow_step \<times> exec_result) option" where
  "first_stopping_failure [] results = None"
| "first_stopping_failure (s # ss) results =
     (case map_of results (ws_name s) of
        Some r \<Rightarrow> if \<not> er_success r \<and> \<not> ws_continue s then Some (s, r)
                  else first_stopping_failure ss results
      | None \<Rightarrow> first_stopping_failure ss results)"

section \<open>The engine\<close>

text \<open>
  \<open>we_clock\<close> is the injected clock's \<open>now\<close>. \<open>we_schedule\<close> says, for a parallel group
  that starts in a world, how its threads will interleave.
\<close>

record 'w workflow_engine =
  we_execute :: "exec_request \<Rightarrow> exec_context \<Rightarrow> string frozenset \<Rightarrow> ('w, exec_result) py"
  we_memory :: "'w memory_store_ops option"
  we_bus :: "(event \<Rightarrow> ('w, unit) py) option"
  we_max_concurrency :: "int option"
  we_clock :: "('w, datetime) py"
  we_env :: "'w env"
  we_schedule :: "'w \<Rightarrow> nat \<Rightarrow> nat"

definition check_workflow_engine :: "'w workflow_engine \<Rightarrow> 'w workflow_engine res" where
  "check_workflow_engine W =
     (case we_max_concurrency W of
        Some n \<Rightarrow> if n \<le> 0 then Inl (Exn WorkflowError ''max_concurrency must be positive if given'') else Inr W
      | None \<Rightarrow> Inr W)"

definition not_due_message :: "string \<Rightarrow> datetime \<Rightarrow> datetime \<Rightarrow> string" where
  "not_due_message n due now = ''Step '' @ repr_str n @ '' is not yet due to run (not_before=''
     @ isoformat due @ '', now='' @ isoformat now @ '').''"

text \<open>The request a step runs: resolved dynamically, or its own. \<open>Inl\<close> is the failed result.\<close>

definition resolve_request ::
  "workflow_step \<Rightarrow> workflow_context \<Rightarrow> 'w workflow_options \<Rightarrow> ('w, exec_result + exec_request) py" where
  "resolve_request step context opts =
     (case map_of (wo_resolvers opts) (ws_name step) of
        None \<Rightarrow> ret (Inr (ws_request step))
      | Some resolver \<Rightarrow>
          attempt (resolver context (ws_request step))
            (\<lambda>e. if exn_is_exception e
                  then bnd (lift_res (check_exec_result (failed_exec_result
                         (''Dynamic request resolution failed for step '' @ repr_str (ws_name step)
                          @ '': '' @ exn_text e) 0 [(''stage'', PStr ''dynamic_request'')])))
                       (\<lambda>r. ret (Inl r))
                  else throw e)
            (\<lambda>answer. case answer of
                 Request req \<Rightarrow> ret (Inr req)
               | Other cls \<Rightarrow>
                   bnd (lift_res (check_exec_result (failed_exec_result
                         (''Step '' @ repr_str (ws_name step) @ [CHR 0x27] @ ''s request resolver returned ''
                          @ cls @ '', expected ExecutionRequest.'') 0 [(''stage'', PStr ''dynamic_request'')])))
                       (\<lambda>r. ret (Inl r))))"

definition resolve_and_execute_step ::
  "'w workflow_engine \<Rightarrow> workflow_step \<Rightarrow> workflow_context \<Rightarrow> 'w workflow_options \<Rightarrow> ('w, exec_result) py" where
  "resolve_and_execute_step W step context opts =
     bnd (we_clock W) (\<lambda>now.
     bnd (lift_res (case map_of (wo_not_before opts) (ws_name step) of
                      None \<Rightarrow> Inr None
                    | Some due \<Rightarrow> rbind (dt_less now due) (\<lambda>early. Inr (if early then Some due else None))))
     (\<lambda>early. case early of
        Some due \<Rightarrow> lift_res (check_exec_result (failed_exec_result
                     (not_due_message (ws_name step) due now) 0 [(''stage'', PStr ''scheduling'')]))
      | None \<Rightarrow>
          bnd (resolve_request step context opts) (\<lambda>x. case x of
            Inl failed \<Rightarrow> ret failed
          | Inr req \<Rightarrow> we_execute W req (wc_execution context) (ws_granted step))))"

text \<open>What the collecting thread makes of the futures, in the order the steps are declared.\<close>

definition raised_of :: "pool \<Rightarrow> exn list" where
  "raised_of p = List.map_filter (\<lambda>t. case t of Raised e \<Rightarrow> Some e | _ \<Rightarrow> None) (pl_tasks p)"

definition completed_of :: "string list \<Rightarrow> pool \<Rightarrow> step_results" where
  "completed_of names p =
     List.map_filter (\<lambda>(n, t). case t of Done r \<Rightarrow> Some (n, r) | _ \<Rightarrow> None) (zip names (pl_tasks p))"

definition group_outcome :: "string list \<Rightarrow> pool \<Rightarrow> step_results res" where
  "group_outcome names p =
     (case pl_aborted p of
        Some e \<Rightarrow> Inl e
      | None \<Rightarrow>
          (case raised_of p of
             [] \<Rightarrow> Inr (completed_of names p)
           | [e] \<Rightarrow> Inl e
           | es \<Rightarrow> Inl (ExnGroup (nat_str (length es) @ '' step(s) in a parallel group raised.'') es)))"

definition run_parallel_group ::
  "'w workflow_engine \<Rightarrow> workflow_step list \<Rightarrow> workflow_context \<Rightarrow> 'w workflow_options
     \<Rightarrow> ('w, step_results) py" where
  "run_parallel_group W steps context opts = (\<lambda>w.
     let workers = (case we_max_concurrency W of Some n \<Rightarrow> nat n | None \<Rightarrow> length steps) in
     case run_pool (we_schedule W w) workers (\<lambda>i. resolve_and_execute_step W (steps ! i) context opts)
            (map ws_continue steps) w of
       (p, w') \<Rightarrow> (group_outcome (map ws_name steps) p, w'))"

definition run_unit ::
  "'w workflow_engine \<Rightarrow> workflow_step list \<Rightarrow> workflow_context \<Rightarrow> 'w workflow_options
     \<Rightarrow> ('w, step_results) py" where
  "run_unit W unit context opts =
     (if length unit = 1 \<and> \<not> explicitly_parallel (ws_name (hd unit)) opts
      then bnd (resolve_and_execute_step W (hd unit) context opts) (\<lambda>r. ret [(ws_name (hd unit), r)])
      else run_parallel_group W unit context opts)"

text \<open>The loop over the units: the results so far and, if one stopped it, the step that did.\<close>

primrec run_units ::
  "'w workflow_engine \<Rightarrow> 'w workflow_options \<Rightarrow> workflow_step list list \<Rightarrow> workflow_context \<Rightarrow> step_results
     \<Rightarrow> ('w, step_results \<times> (workflow_step \<times> exec_result) option) py" where
  "run_units W opts [] context results = ret (results, None)"
| "run_units W opts (u # us) context results =
     bnd (run_unit W u context opts) (\<lambda>unit_results.
     let results' = dict_update results unit_results in
     case first_stopping_failure u unit_results of
       Some stop \<Rightarrow> ret (results', Some stop)
     | None \<Rightarrow> run_units W opts us (context\<lparr>wc_results := results'\<rparr>) results')"

definition workflow_publish :: "'w workflow_engine \<Rightarrow> event \<Rightarrow> ('w, unit) py" where
  "workflow_publish W e = (case we_bus W of None \<Rightarrow> ret () | Some publish \<Rightarrow> publish e)"

definition workflow_memory_content :: "workflow \<Rightarrow> workflow_result \<Rightarrow> string" where
  "workflow_memory_content run result =
     (if wr_success result
      then ''Workflow '' @ repr_str (wd_name (wf_definition run)) @ '' succeeded with ''
        @ nat_str (length (wr_results result)) @ '' step(s).''
      else ''Workflow '' @ repr_str (wd_name (wf_definition run)) @ '' failed: '' @ opt_text (wr_error result))"

definition workflow_remember :: "'w workflow_engine \<Rightarrow> workflow \<Rightarrow> workflow_result \<Rightarrow> ('w, unit) py" where
  "workflow_remember W run result =
     (case we_memory W of
        None \<Rightarrow> ret ()
      | Some store \<Rightarrow>
          bnd (reading (env_now (we_env W))) (\<lambda>now.
          bnd (lift_res (check_memory_entry
                \<lparr>me_id = wf_id run, me_content = workflow_memory_content run result,
                 me_tags = [''workflow''],
                 me_metadata = [(''name'', PStr (wd_name (wf_definition run))),
                   (''success'', PBool (wr_success result)),
                   (''step_count'', PInt (int (length (wr_results result))))],
                 me_created_at = now\<rparr>)) (\<lambda>entry.
          attempt (ms_add store entry)
            (\<lambda>e. if exn_is_exception e then ret () else throw e)
            ret)))"

definition conclude_workflow ::
  "'w workflow_engine \<Rightarrow> workflow \<Rightarrow> step_results \<times> (workflow_step \<times> exec_result) option
     \<Rightarrow> ('w, workflow_result) py" where
  "conclude_workflow W run outcome =
     (case outcome of
        (results, Some (step, r)) \<Rightarrow>
          bnd (lift_res (check_workflow_result \<lparr>wr_success = False, wr_results = results,
                 wr_error = Some (''Step '' @ repr_str (ws_name step) @ '' failed: '' @ opt_text (er_error r)),
                 wr_stopped_at = Some (ws_name step)\<rparr>)) (\<lambda>result.
          andthen (workflow_publish W (WorkflowFailed (wf_id run) (wd_name (wf_definition run))
                     (str_or (wr_error result) []) (Some (ws_name step))))
          (andthen (workflow_remember W run result) (ret result)))
      | (results, None) \<Rightarrow>
          bnd (lift_res (check_workflow_result \<lparr>wr_success = True, wr_results = results,
                 wr_error = None, wr_stopped_at = None\<rparr>)) (\<lambda>result.
          andthen (workflow_publish W (WorkflowCompleted (wf_id run) (wd_name (wf_definition run)) (length results)))
          (andthen (workflow_remember W run result) (ret result))))"

definition workflow_run ::
  "'w workflow_engine \<Rightarrow> workflow \<Rightarrow> workflow_context \<Rightarrow> 'w workflow_options option \<Rightarrow> ('w, workflow_result) py" where
  "workflow_run W run context options =
     (let steps = wd_steps (wf_definition run);
          supplied = (case options of None \<Rightarrow> no_options | Some opts \<Rightarrow> opts) in
      bnd (lift_res (check_workflow_options supplied)) (\<lambda>opts.
      bnd (lift_res (validate_options steps opts)) (\<lambda>_.
      andthen (workflow_publish W (WorkflowStarted (wf_id run) (wd_name (wf_definition run))))
      (bnd (run_units W opts (group_into_units steps opts) context []) (conclude_workflow W run)))))"

section \<open>Units\<close>

lemma add_to_units_concat: "concat (add_to_units d us s) = concat us @ [s]"
  by (cases us rule: rev_cases) (auto simp: add_to_units_def)

lemma add_to_units_nonempty: "[] \<notin> set us \<Longrightarrow> [] \<notin> set (add_to_units d us s)"
  by (auto simp: add_to_units_def dest: in_set_butlastD)

lemma group_into_units_concat: "concat (group_into_units steps opts) = steps"
proof -
  have "concat (foldl (add_to_units d) us steps) = concat us @ steps" for d us
    by (induction steps arbitrary: us) (simp_all add: add_to_units_concat)
  then show ?thesis by (simp add: group_into_units_def)
qed

lemma group_into_units_nonempty: "[] \<notin> set (group_into_units steps opts)"
proof -
  have "[] \<notin> set us \<Longrightarrow> [] \<notin> set (foldl (add_to_units d) us steps)" for d us
    by (induction steps arbitrary: us) (simp_all add: add_to_units_nonempty)
  then show ?thesis by (simp add: group_into_units_def)
qed

lemma first_stopping_None:
  "first_stopping_failure ss results = None \<longleftrightarrow>
    (\<forall>s \<in> set ss. \<forall>r. map_of results (ws_name s) = Some r \<longrightarrow> er_success r \<or> ws_continue s)"
  by (induction ss) (auto split: option.splits)

lemma first_stopping_Some:
  "first_stopping_failure ss results = Some (s, r) \<Longrightarrow>
    s \<in> set ss \<and> map_of results (ws_name s) = Some r \<and> \<not> er_success r \<and> \<not> ws_continue s"
  by (induction ss) (auto split: option.splits if_splits)

section \<open>A parallel group, under every schedule\<close>

lemma completed_of_Cons:
  "completed_of (n # ns) (p\<lparr>pl_tasks := t # ts\<rparr>) =
    (case t of Done r \<Rightarrow> [(n, r)] | _ \<Rightarrow> []) @ completed_of ns (p\<lparr>pl_tasks := ts\<rparr>)"
  by (simp add: completed_of_def List.map_filter_simps split: task.split)

lemma completed_subseq: "length names = length ts \<Longrightarrow> subseq (keys (completed_of names (p\<lparr>pl_tasks := ts\<rparr>))) names"
proof (induction names ts rule: list_induct2)
  case Nil
  then show ?case by (simp add: completed_of_def List.map_filter_simps)
next
  case (Cons n ns t ts)
  then show ?case by (cases t) (auto simp: completed_of_Cons intro: list_emb_Cons)
qed

lemma completed_all:
  "length names = length ts \<Longrightarrow> \<forall>t \<in> set ts. \<exists>r. t = Done r \<Longrightarrow>
    keys (completed_of names (p\<lparr>pl_tasks := ts\<rparr>)) = names"
proof (induction names ts rule: list_induct2)
  case Nil
  then show ?case by (simp add: completed_of_def List.map_filter_simps)
next
  case (Cons n ns t ts)
  then show ?case by (auto simp: completed_of_Cons)
qed

lemma completed_lookup:
  "length names = length ts \<Longrightarrow> distinct names \<Longrightarrow> i < length ts \<Longrightarrow> ts ! i = Done r \<Longrightarrow>
    map_of (completed_of names (p\<lparr>pl_tasks := ts\<rparr>)) (names ! i) = Some r"
proof (induction names ts arbitrary: i rule: list_induct2)
  case (Cons n ns t ts)
  show ?case
  proof (cases i)
    case 0
    with Cons.prems show ?thesis by (simp add: completed_of_Cons)
  next
    case (Suc j)
    with Cons.prems have "ns ! j \<noteq> n" "j < length ns" using Cons.hyps by auto
    with Suc Cons show ?thesis by (auto simp: completed_of_Cons map_add_def split: task.split option.split)
  qed
qed simp

lemma raised_of_Nil: "raised_of p = [] \<longleftrightarrow> (\<forall>t \<in> set (pl_tasks p). \<forall>e. t \<noteq> Raised e)"
proof -
  have "List.map_filter (\<lambda>t. case t of Raised e \<Rightarrow> Some e | _ \<Rightarrow> None) ts = []
      \<longleftrightarrow> (\<forall>t \<in> set ts. \<forall>e. t \<noteq> Raised e)" for ts
    by (induction ts) (auto simp: List.map_filter_simps split: task.splits)
  then show ?thesis by (simp add: raised_of_def)
qed

text \<open>
  A group that returns has the results of some of its steps, in their declared order; one is
  missing only when a result is a stopping failure.
\<close>

definition positive_concurrency :: "'w workflow_engine \<Rightarrow> bool" where
  "positive_concurrency W \<longleftrightarrow> (case we_max_concurrency W of None \<Rightarrow> True | Some n \<Rightarrow> 0 < n)"

lemma parallel_group_results:
  assumes "run_parallel_group W steps context opts w = (Inr results, w')"
    and "steps \<noteq> []" and "positive_concurrency W" and "distinct (map ws_name steps)"
  shows "subseq (keys results) (map ws_name steps)
    \<and> (first_stopping_failure steps results = None \<longrightarrow> keys results = map ws_name steps)"
proof -
  let ?workers = "case we_max_concurrency W of Some n \<Rightarrow> nat n | None \<Rightarrow> length steps"
  let ?conts = "map ws_continue steps" and ?names = "map ws_name steps"
  obtain p where run: "run_pool (we_schedule W w) ?workers
      (\<lambda>i. resolve_and_execute_step W (steps ! i) context opts) ?conts w = (p, w')"
    and outcome: "group_outcome ?names p = Inr results"
    using assms(1) by (auto simp: run_parallel_group_def Let_def split: prod.splits)
  have "0 < ?workers" using assms(2,3) by (auto simp: positive_concurrency_def split: option.splits)
  from run_pool_final[OF run this] have inv: "pool_inv ?workers ?conts p"
    and settled: "\<forall>i < length steps. settled (pl_tasks p ! i)"
    and seen: "pl_aborted p = None \<longrightarrow> set (pl_seen p) = {..< length steps}" by simp_all
  have len: "length ?names = length (pl_tasks p)" using inv by (simp add: pool_inv_def)
  from outcome have live: "pl_aborted p = None" "raised_of p = []" "results = completed_of ?names p"
    by (auto simp: group_outcome_def split: option.splits list.splits)
  have p: "p\<lparr>pl_tasks := pl_tasks p\<rparr> = p" by simp
  note facts = completed_subseq[OF len, of p, unfolded p] completed_all[OF len, of p, unfolded p]
    completed_lookup[OF len assms(4), of _ _ p, unfolded p]
  have "keys results = ?names" if none: "first_stopping_failure steps results = None"
  proof -
    have "\<not> stopping ?conts i (pl_tasks p ! i)" if "i < length steps" for i
    proof
      assume "stopping ?conts i (pl_tasks p ! i)"
      then obtain r where r: "pl_tasks p ! i = Done r" "\<not> er_success r" "\<not> ?conts ! i"
        by (auto simp: stopping_def split: task.splits)
      then have "map_of results (?names ! i) = Some r" using facts(3) that len live(3) by simp
      with none r that show False by (auto simp: first_stopping_None)
    qed
    then have "\<not> pl_stopped p" using inv seen live(1) by (auto simp: pool_inv_def)
    then have "\<exists>r. pl_tasks p ! i = Done r" if "i < length steps" for i
      using inv settled live(2) that len
      by (cases "pl_tasks p ! i") (auto simp: pool_inv_def raised_of_Nil)
    then have "\<forall>t \<in> set (pl_tasks p). \<exists>r. t = Done r" using len by (auto simp: in_set_conv_nth)
    then show ?thesis using facts(2) live(3) by simp
  qed
  with facts(1) live(3) show ?thesis by simp
qed

lemma run_unit_results:
  assumes "run_unit W u context opts w = (Inr results, w')"
    and "u \<noteq> []" and "positive_concurrency W" and "distinct (map ws_name u)"
  shows "subseq (keys results) (map ws_name u)
    \<and> (first_stopping_failure u results = None \<longrightarrow> keys results = map ws_name u)"
proof (cases "length u = 1 \<and> \<not> explicitly_parallel (ws_name (hd u)) opts")
  case True
  then obtain s where "u = [s]" by (auto simp: length_Suc_conv)
  with True assms(1) show ?thesis by (auto simp: run_unit_def dest!: bnd_InrD)
next
  case False
  with assms parallel_group_results[of W u _ opts w results w'] show ?thesis
    by (auto simp: run_unit_def split: if_splits)
qed

text \<open>How a run of the units ends.\<close>

definition units_outcome ::
  "workflow_step list list \<Rightarrow> step_results \<Rightarrow> (workflow_step \<times> exec_result) option \<Rightarrow> bool" where
  "units_outcome us results stop \<longleftrightarrow>
     (case stop of
        None \<Rightarrow> keys results = map ws_name (concat us)
          \<and> list_all (\<lambda>s. \<exists>r. map_of results (ws_name s) = Some r \<and> (er_success r \<or> ws_continue s)) (concat us)
      | Some (s, r) \<Rightarrow> (\<exists>us1 u us2 results1 results2. us = us1 @ u # us2 \<and> results = results1 @ results2
          \<and> keys results1 = map ws_name (concat us1) \<and> subseq (keys results2) (map ws_name u)
          \<and> first_stopping_failure u results2 = Some (s, r)
          \<and> list_all (\<lambda>s. \<exists>r. map_of results1 (ws_name s) = Some r \<and> (er_success r \<or> ws_continue s)) (concat us1)))"

lemma map_of_append_left:
  "map_of d k = Some r \<Longrightarrow> map_of (d @ e) k = Some r"
  by (simp add: map_add_def split: option.splits)

lemma list_all_results_mono:
  assumes "list_all (\<lambda>s. \<exists>r. map_of d (ws_name s) = Some r \<and> P s r) ss"
    and "\<And>s r. s \<in> set ss \<Longrightarrow> map_of d (ws_name s) = Some r \<Longrightarrow> map_of e (ws_name s) = Some r"
  shows "list_all (\<lambda>s. \<exists>r. map_of e (ws_name s) = Some r \<and> P s r) ss"
  using assms by (fastforce simp: list_all_iff)

lemma map_of_append_fresh: "k \<notin> set (keys d) \<Longrightarrow> map_of (d @ e) k = map_of e k"
  by (simp add: map_add_def map_of_eq_None_iff[THEN iffD2] split: option.splits)

lemma unit_all_pass:
  assumes "keys results = map ws_name u" and "first_stopping_failure u results = None"
  shows "list_all (\<lambda>s. \<exists>r. map_of results (ws_name s) = Some r \<and> (er_success r \<or> ws_continue s)) u"
  unfolding list_all_iff
proof
  fix s assume s: "s \<in> set u"
  then have "ws_name s \<in> set (keys results)" using assms(1) by simp
  then obtain r where "map_of results (ws_name s) = Some r"
    by (metis map_of_eq_None_iff option.exhaust list.set_map)
  with assms(2) s show "\<exists>r. map_of results (ws_name s) = Some r \<and> (er_success r \<or> ws_continue s)"
    by (auto simp: first_stopping_None)
qed

lemma subseq_keys: "subseq xs ys \<Longrightarrow> set xs \<subseteq> set ys \<and> (distinct ys \<longrightarrow> distinct xs)"
  by (induction rule: list_emb.induct) auto

lemma run_units_outcome:
  assumes "run_units W opts us context results w = (Inr (all, stop), w')"
    and "[] \<notin> set us" and "positive_concurrency W"
    and "distinct (keys results @ map ws_name (concat us))"
  shows "\<exists>new. all = results @ new \<and> units_outcome us new stop"
  using assms
proof (induction us arbitrary: "context" results w)
  case Nil
  then show ?case by (auto simp: units_outcome_def)
next
  case (Cons u us)
  from Cons.prems(1) obtain ur v where ur: "run_unit W u context opts w = (Inr ur, v)"
    and rest: "(case first_stopping_failure u ur of
       Some stop \<Rightarrow> ret (dict_update results ur, Some stop)
     | None \<Rightarrow> run_units W opts us (context\<lparr>wc_results := dict_update results ur\<rparr>) (dict_update results ur)) v
      = (Inr (all, stop), w')"
    by (auto simp: Let_def dest!: bnd_InrD)
  have "distinct (map ws_name u)" "u \<noteq> []" using Cons.prems by auto
  with run_unit_results[OF ur] Cons.prems(3)
  have sub: "subseq (keys ur) (map ws_name u)"
    and full: "first_stopping_failure u ur = None \<longrightarrow> keys ur = map ws_name u" by auto
  have keys_ur: "set (keys ur) \<subseteq> ws_name ` set u" "distinct (keys ur)"
    using subseq_keys[OF sub] \<open>distinct (map ws_name u)\<close> by auto
  then have upd: "dict_update results ur = results @ ur"
  proof (intro dict_update_disjoint)
    show "dict_ok ur" using keys_ur(2) by (simp add: dict_ok_def)
    have "set (keys results) \<inter> ws_name ` set u = {}" using Cons.prems(4) by auto
    with keys_ur(1) show "set (keys results) \<inter> set (keys ur) = {}" by blast
  qed
  show ?case
  proof (cases "first_stopping_failure u ur")
    case None
    then have all_u: "keys ur = map ws_name u" using full by simp
    have "distinct (keys (results @ ur) @ map ws_name (concat us))" using Cons.prems(4) all_u by simp
    with rest None upd Cons.IH[of "context\<lparr>wc_results := results @ ur\<rparr>" "results @ ur" v] Cons.prems(2,3)
    obtain new where new: "all = (results @ ur) @ new" "units_outcome us new stop" by auto
    note pass = unit_all_pass[OF all_u None]
    have left: "list_all (\<lambda>s. \<exists>r. map_of (ur @ d) (ws_name s) = Some r \<and> (er_success r \<or> ws_continue s)) u" for d
      by (rule list_all_results_mono[OF pass]) (rule map_of_append_left)
    have fresh: "s \<in> set (concat us) \<Longrightarrow> map_of (ur @ d) (ws_name s) = map_of d (ws_name s)" for s d
      by (rule map_of_append_fresh) (use Cons.prems(4) all_u in auto)
    have "units_outcome (u # us) (ur @ new) stop"
    proof (cases stop)
      case None
      with new(2) have "keys new = map ws_name (concat us)"
        and "list_all (\<lambda>s. \<exists>r. map_of new (ws_name s) = Some r \<and> (er_success r \<or> ws_continue s)) (concat us)"
        by (simp_all add: units_outcome_def)
      moreover from this(2) have "list_all (\<lambda>s. \<exists>r. map_of (ur @ new) (ws_name s) = Some r
          \<and> (er_success r \<or> ws_continue s)) (concat us)"
        by (rule list_all_results_mono) (simp only: fresh)
      ultimately show ?thesis using None all_u left by (simp add: units_outcome_def)
    next
      case (Some sr)
      obtain s r where sr: "stop = Some (s, r)" using Some by (cases sr) simp
      with new(2) obtain us1 u' us2 d1 d2 where d: "us = us1 @ u' # us2" "new = d1 @ d2"
          "keys d1 = map ws_name (concat us1)" "subseq (keys d2) (map ws_name u')"
          "first_stopping_failure u' d2 = Some (s, r)"
          "list_all (\<lambda>s. \<exists>r. map_of d1 (ws_name s) = Some r \<and> (er_success r \<or> ws_continue s)) (concat us1)"
        by (auto simp: units_outcome_def)
      have "list_all (\<lambda>s. \<exists>r. map_of (ur @ d1) (ws_name s) = Some r \<and> (er_success r \<or> ws_continue s)) (concat us1)"
      proof (rule list_all_results_mono[OF d(6)])
        fix s r assume "s \<in> set (concat us1)" "map_of d1 (ws_name s) = Some r"
        then show "map_of (ur @ d1) (ws_name s) = Some r" using d(1) by (subst fresh) simp_all
      qed
      with d left[of d1] all_u show ?thesis
        unfolding units_outcome_def sr option.case prod.case
        by (intro exI[of _ "u # us1"] exI[of _ u'] exI[of _ us2] exI[of _ "ur @ d1"] exI[of _ d2]) simp
    qed
    with new(1) show ?thesis by auto
  next
    case (Some sr)
    with rest upd have "all = results @ ur" "stop = Some sr" by auto
    moreover have "units_outcome (u # us) ur (Some sr)"
      unfolding units_outcome_def option.case
    proof (cases sr)
      case (Pair s r)
      show "case sr of (s, r) \<Rightarrow> \<exists>us1 u' us2 d1 d2. u # us = us1 @ u' # us2 \<and> ur = d1 @ d2
          \<and> keys d1 = map ws_name (concat us1) \<and> subseq (keys d2) (map ws_name u')
          \<and> first_stopping_failure u' d2 = Some (s, r)
          \<and> list_all (\<lambda>s. \<exists>r. map_of d1 (ws_name s) = Some r \<and> (er_success r \<or> ws_continue s)) (concat us1)"
        unfolding Pair prod.case
        by (intro exI[of _ "[]"] exI[of _ u] exI[of _ us] exI[of _ "[]"] exI[of _ ur])
          (use Some sub Pair in simp)
    qed
    ultimately show ?thesis by auto
  qed
qed

lemma conclude_workflow_Inr:
  "conclude_workflow W run (results, stop) w = (Inr r, w') \<Longrightarrow> wr_results r = results \<and>
    (case stop of None \<Rightarrow> wr_success r \<and> wr_error r = None \<and> wr_stopped_at r = None
     | Some (s, x) \<Rightarrow> \<not> wr_success r \<and> wr_stopped_at r = Some (ws_name s)
         \<and> wr_error r = Some (''Step '' @ repr_str (ws_name s) @ '' failed: '' @ opt_text (er_error x)))"
  by (cases stop) (auto simp: conclude_workflow_def check_workflow_result_def split: if_splits
      dest!: andthen_InrD bnd_InrD)

lemma workflow_run_units:
  assumes "workflow_run W run context options w = (Inr r, w')"
  shows "\<exists>u results stop v v'. run_units W (case options of None \<Rightarrow> no_options | Some opts \<Rightarrow> opts)
      (group_into_units (wd_steps (wf_definition run)) (case options of None \<Rightarrow> no_options | Some opts \<Rightarrow> opts))
      context [] u = (Inr (results, stop), v) \<and> conclude_workflow W run (results, stop) v = (Inr r, v')"
proof -
  have same: "check_workflow_options opts = Inr opts' \<Longrightarrow> opts' = opts" for opts opts' :: "'a workflow_options"
    by (auto simp: check_workflow_options_def rbind_Inr_iff)
  show ?thesis
    using assms unfolding workflow_run_def Let_def
    by (fastforce dest!: bnd_InrD andthen_InrD same)
qed

section \<open>Properties\<close>

text \<open>C3 A workflow runs its steps in the order they are declared and stops where it says it
  does, under every schedule of its parallel groups. On success every step has a result, in
  declared order, and each either succeeded or may fail. On failure every step of the units
  before the stopping one has its result, of the stopping unit a subsequence has, nothing
  behind it ran, and the step named is the first in declared order whose failure counts.\<close>

theorem workflow_run_stops_where_it_says:
  assumes "workflow_run W run context options w = (Inr r, w')"
    and "check_workflow_definition (wf_definition run) = Inr d" and "positive_concurrency W"
  shows "(wr_success r \<longrightarrow> keys (wr_results r) = map ws_name (wd_steps d)
      \<and> list_all (\<lambda>s. \<exists>x. map_of (wr_results r) (ws_name s) = Some x \<and> (er_success x \<or> ws_continue s)) (wd_steps d))
    \<and> (\<not> wr_success r \<longrightarrow> (\<exists>us u vs before part s x.
        concat us @ u @ concat vs = wd_steps d \<and> wr_results r = before @ part
        \<and> keys before = map ws_name (concat us) \<and> subseq (keys part) (map ws_name u)
        \<and> list_all (\<lambda>s. \<exists>x. map_of before (ws_name s) = Some x \<and> (er_success x \<or> ws_continue s)) (concat us)
        \<and> first_stopping_failure u part = Some (s, x) \<and> wr_stopped_at r = Some (ws_name s)))"
proof -
  let ?opts = "case options of None \<Rightarrow> no_options | Some opts \<Rightarrow> opts"
  have d: "wf_definition run = d" and distinct: "distinct (map ws_name (wd_steps d))"
    using assms(2) by (auto simp: check_workflow_definition_def split: if_splits)
  let ?us = "group_into_units (wd_steps d) ?opts"
  obtain u results stop v v' where units: "run_units W ?opts ?us context [] u = (Inr (results, stop), v)"
    and fin: "conclude_workflow W run (results, stop) v = (Inr r, v')"
    using workflow_run_units[OF assms(1)] d by auto
  have steps: "concat ?us = wd_steps d" by (rule group_into_units_concat)
  have outcome: "units_outcome ?us results stop"
    using run_units_outcome[OF units group_into_units_nonempty assms(3)] steps distinct by auto
  note r = conclude_workflow_Inr[OF fin]
  show ?thesis
  proof (cases stop)
    case None
    with outcome r steps show ?thesis by (simp add: units_outcome_def)
  next
    case (Some sx)
    then obtain s x where sx: "stop = Some (s, x)" by (cases sx) simp
    with outcome obtain us1 u1 us2 d1 d2 where "?us = us1 @ u1 # us2" "results = d1 @ d2"
        "keys d1 = map ws_name (concat us1)" "subseq (keys d2) (map ws_name u1)"
        "first_stopping_failure u1 d2 = Some (s, x)"
        "list_all (\<lambda>s. \<exists>r. map_of d1 (ws_name s) = Some r \<and> (er_success r \<or> ws_continue s)) (concat us1)"
      by (auto simp: units_outcome_def)
    moreover from this(1) have "concat us1 @ u1 @ concat us2 = wd_steps d" using steps by simp
    moreover have "wr_results r = results" "\<not> wr_success r" "wr_stopped_at r = Some (ws_name s)"
      using r sx by simp_all
    ultimately show ?thesis by simp blast
  qed
qed

definition demo_step :: "string \<Rightarrow> workflow_step" where
  "demo_step n = \<lparr>ws_name = n, ws_request = tool_request n, ws_granted = [], ws_continue = False\<rparr>"

definition demo_workflow :: "string list \<Rightarrow> workflow" where
  "demo_workflow ns = \<lparr>wf_definition = \<lparr>wd_name = ''w'', wd_steps = map demo_step ns, wd_metadata = []\<rparr>,
     wf_id = ''run-1''\<rparr>"

definition demo_workflow_context :: workflow_context where
  "demo_workflow_context = \<lparr>wc_execution = demo_exec_context, wc_results = []\<rparr>"

text \<open>Steps named \<open>bad\<close> fail.\<close>

definition demo_workflow_engine :: "nat workflow_engine" where
  "demo_workflow_engine = \<lparr>we_execute = (\<lambda>req ctx granted. lift_res (check_exec_result
       (if xr_operation req = ''bad'' then failed_exec_result ''no'' 0 []
        else \<lparr>er_success = True, er_payload = Some [], er_error = None, er_time = 0, er_metadata = []\<rparr>))),
     we_memory = None, we_bus = None, we_max_concurrency = None,
     we_clock = reading (env_now counting_env), we_env = counting_env, we_schedule = (\<lambda>_ _. 0)\<rparr>"

theorem workflow_run_stops_where_it_says_witness:
  "\<exists>r w'. workflow_run demo_workflow_engine (demo_workflow [''bad'', ''later'']) demo_workflow_context None 0
      = (Inr r, w') \<and> \<not> wr_success r \<and> (\<exists>us u vs. concat us @ u @ concat vs = map demo_step [''bad'', ''later''])"
proof -
  obtain r w' where run: "workflow_run demo_workflow_engine (demo_workflow [''bad'', ''later''])
      demo_workflow_context None 0 = (Inr r, w')" "\<not> wr_success r"
    by (simp add: workflow_run_def demo_workflow_def check_workflow_options_def no_options_def
        validate_options_def group_into_units_def add_to_units_def run_unit_def explicitly_parallel_def
        resolve_and_execute_step_def resolve_request_def demo_workflow_engine_def demo_step_def tool_request_def
        demo_workflow_context_def conclude_workflow_def check_workflow_result_def workflow_publish_def
        workflow_remember_def bnd_def andthen_def reading_def counting_env_def py_isspace_def Let_def)
  have "check_workflow_definition (wf_definition (demo_workflow [''bad'', ''later'']))
      = Inr (wf_definition (demo_workflow [''bad'', ''later'']))"
    by (simp add: check_workflow_definition_def demo_workflow_def demo_step_def py_isspace_def Let_def)
  from workflow_run_stops_where_it_says[OF run(1) this] run show ?thesis
    by (auto simp: positive_concurrency_def demo_workflow_engine_def demo_workflow_def)
qed

text \<open>The scheduling guard: a step whose time has not come does not run. Its result is a
  failure of the stage \<open>scheduling\<close>, the clock is all that was read, and neither its resolver
  nor the execution engine is consulted.\<close>

theorem step_not_due_does_not_run:
  assumes "map_of (wo_not_before opts) (ws_name step) = Some due"
    and "we_clock W w = (Inr now, w')" and "dt_less now due = Inr True"
  shows "resolve_and_execute_step W step context opts w =
    (Inr (failed_exec_result (not_due_message (ws_name step) due now) 0
       [(''stage'', PStr ''scheduling'')]), w')"
proof -
  have "\<not> blank (not_due_message (ws_name step) due now)"
    by (simp add: not_due_message_def py_isspace_def Let_def)
  with assms show ?thesis by (simp add: resolve_and_execute_step_def bnd_Inr)
qed

theorem step_not_due_does_not_run_witness:
  "\<not> er_success (failed_exec_result (not_due_message ''s''
      (me_created_at (demo_entry [] [])\<lparr>dt_year := 2027\<rparr>) (me_created_at (demo_entry [] []))) 0
      [(''stage'', PStr ''scheduling'')])
   \<and> snd (resolve_and_execute_step demo_workflow_engine (demo_step ''s'') demo_workflow_context
        (no_options\<lparr>wo_not_before := [(''s'', me_created_at (demo_entry [] [])\<lparr>dt_year := 2027\<rparr>)]\<rparr>) 0) = 1"
proof -
  let ?due = "me_created_at (demo_entry [] [])\<lparr>dt_year := 2027\<rparr>" and ?now = "me_created_at (demo_entry [] [])"
  have "dt_less ?now ?due = Inr True"
    by (simp add: dt_less_def dt_instant_def dt_local_def dt_ordinal_def days_before_year_def demo_entry_def
        counting_env_def Let_def)
  moreover have "we_clock demo_workflow_engine 0 = (Inr ?now, 1)"
    by (simp add: demo_workflow_engine_def reading_def counting_env_def demo_entry_def)
  ultimately show ?thesis
    using step_not_due_does_not_run[of "no_options\<lparr>wo_not_before := [(''s'', ?due)]\<rparr>" "demo_step ''s''" ?due
        demo_workflow_engine 0 ?now 1 demo_workflow_context]
    by (simp add: demo_step_def)
qed

text \<open>A run whose id is blank breaks the promise that recording it never raises: with a store
  configured, a run that completed its steps and published its completion still ends in a
  \<open>MemoryError\<close>, since the entry is built outside the guarded call.\<close>

theorem blank_workflow_id_escapes:
  assumes "blank (wf_id run)" and "we_memory W = Some store"
    and "env_now (we_env W) w = (now, w')"
  shows "\<exists>m. workflow_remember W run result w = (Inl (Exn MemoryError m), w')"
  using assms by (simp add: workflow_remember_def bnd_def reading_def check_memory_entry_def)

theorem blank_workflow_id_escapes_witness:
  "\<exists>m w'. workflow_remember (demo_workflow_engine\<lparr>we_memory := Some \<lparr>ms_add = (\<lambda>_. ret ()),
       ms_get = (\<lambda>_. ret None), ms_search = (\<lambda>_. ret \<lparr>mr_entries = []\<rparr>), ms_delete = (\<lambda>_. ret False),
       ms_clear = ret ()\<rparr>\<rparr>) (demo_workflow []\<lparr>wf_id := []\<rparr>)
     \<lparr>wr_success = True, wr_results = [], wr_error = None, wr_stopped_at = None\<rparr> 0 = (Inl (Exn MemoryError m), w')"
  using blank_workflow_id_escapes[of "demo_workflow []\<lparr>wf_id := []\<rparr>" "demo_workflow_engine\<lparr>we_memory := Some
      \<lparr>ms_add = (\<lambda>_. ret ()), ms_get = (\<lambda>_. ret None), ms_search = (\<lambda>_. ret \<lparr>mr_entries = []\<rparr>),
       ms_delete = (\<lambda>_. ret False), ms_clear = ret ()\<rparr>\<rparr>" _ 0]
  by (fastforce simp: demo_workflow_engine_def counting_env_def)

end
