(* ===== verification/Workflow_Runs.thy ===== *)
theory Workflow_Runs
  imports Workflow Authorization
begin

text \<open>
  What the workflow engine needs of its collaborators to return a result from every run, and
  the engine as the composition code builds it: over the authorizing execution engine, the
  system clock and an in-memory store. And how units relate to the declared groups.
\<close>

section \<open>Steps and groups that return\<close>

text \<open>A resolver raises nothing outside \<open>Exception\<close> and answers with valid requests.\<close>

definition resolver_contained :: "'w resolver \<Rightarrow> bool" where
  "resolver_contained f \<longleftrightarrow> (\<forall>context req w e w'. f context req w = (Inl e, w') \<longrightarrow> exn_is_exception e)
     \<and> (\<forall>context req w q w'. f context req w = (Inr (Request q), w') \<longrightarrow> exec_request_ok q)"

definition runs_requests :: "'w workflow_engine \<Rightarrow> bool" where
  "runs_requests W \<longleftrightarrow> (\<forall>req ctx granted w. exec_request_ok req \<longrightarrow>
     (\<exists>r w'. we_execute W req ctx granted w = (Inr r, w') \<and> exec_result_ok r))"

definition aware_schedule :: "'w workflow_options \<Rightarrow> bool" where
  "aware_schedule opts \<longleftrightarrow> list_all (\<lambda>(n, d). dt_offset d \<noteq> None) (wo_not_before opts)"

lemma check_schedule_aware: "check_schedule s = Inr () \<Longrightarrow> list_all (\<lambda>(n, d). dt_offset d \<noteq> None) s"
  by (induction s rule: check_schedule.induct) (auto simp: rbind_Inr_iff split: if_splits)

lemma check_options_aware: "check_workflow_options opts = Inr opts' \<Longrightarrow> opts' = opts \<and> aware_schedule opts"
  by (auto simp: check_workflow_options_def rbind_Inr_iff aware_schedule_def dest!: check_schedule_aware)

lemma resolve_request_returns:
  assumes "list_all (\<lambda>(n, f). resolver_contained f) (wo_resolvers opts)" and "exec_request_ok (ws_request step)"
  shows "\<exists>x w'. resolve_request step context opts w = (Inr x, w')
    \<and> (case x of Inl r \<Rightarrow> exec_result_ok r | Inr req \<Rightarrow> exec_request_ok req)"
proof (cases "map_of (wo_resolvers opts) (ws_name step)")
  case None
  with assms(2) show ?thesis by (simp add: resolve_request_def)
next
  case (Some f)
  then have f: "resolver_contained f" using assms(1) by (auto simp: list_all_iff dest: map_of_SomeD)
  obtain a w1 where a: "f context (ws_request step) w = (a, w1)" by fastforce
  show ?thesis
  proof (cases a)
    case (Inl e)
    with a f have "exn_is_exception e" unfolding resolver_contained_def by blast
    with Some a Inl show ?thesis by (simp add: resolve_request_def attempt_def bnd_def py_isspace_def Let_def)
  next
    case (Inr answer)
    show ?thesis
    proof (cases answer)
      case (Request q)
      with Inr a f have "exec_request_ok q" unfolding resolver_contained_def by blast
      with Some a Inr Request show ?thesis by (simp add: resolve_request_def attempt_def)
    next
      case (Other cls)
      with Some a Inr show ?thesis by (simp add: resolve_request_def attempt_def bnd_def py_isspace_def Let_def)
    qed
  qed
qed

locale workflow_collaborators =
  fixes W :: "'w workflow_engine"
  assumes publish_returns: "\<exists>w'. workflow_publish W e w = (Inr (), w')"
    and store_raises: "we_memory W = Some store \<Longrightarrow> ms_add store entry w = (Inl x, w') \<Longrightarrow> exn_is_exception x"
    and clock_aware: "\<exists>now w'. we_clock W w = (Inr now, w') \<and> dt_offset now \<noteq> None"
    and workers: "positive_concurrency W"
begin

lemma step_returns:
  assumes "runs_requests W" and "list_all (\<lambda>(n, f). resolver_contained f) (wo_resolvers opts)"
    and "aware_schedule opts" and "exec_request_ok (ws_request step)"
  shows "\<exists>r w'. resolve_and_execute_step W step context opts w = (Inr r, w') \<and> exec_result_ok r"
proof -
  obtain now w1 where now: "we_clock W w = (Inr now, w1)" "dt_offset now \<noteq> None" using clock_aware by blast
  have run: "\<exists>r w'. bnd (resolve_request step context opts) (\<lambda>x. case x of Inl failed \<Rightarrow> ret failed
      | Inr req \<Rightarrow> we_execute W req (wc_execution context) (ws_granted step)) w1 = (Inr r, w') \<and> exec_result_ok r"
  proof -
    obtain x v where x: "resolve_request step context opts w1 = (Inr x, v)"
      "case x of Inl r \<Rightarrow> exec_result_ok r | Inr req \<Rightarrow> exec_request_ok req"
      using resolve_request_returns[OF assms(2,4)] by blast
    with assms(1) show ?thesis by (cases x) (auto simp: bnd_Inr runs_requests_def)
  qed
  show ?thesis
  proof (cases "map_of (wo_not_before opts) (ws_name step)")
    case None
    with now run show ?thesis by (simp add: resolve_and_execute_step_def bnd_Inr)
  next
    case (Some due)
    then have "dt_offset due \<noteq> None" using assms(3) by (auto simp: aware_schedule_def list_all_iff dest: map_of_SomeD)
    then have "dt_less now due = Inr (dt_instant now < dt_instant due)" using now(2) by (simp add: dt_less_def)
    moreover have "\<not> blank (not_due_message (ws_name step) due now)"
      by (simp add: not_due_message_def py_isspace_def Let_def)
    ultimately show ?thesis using now Some run
      by (cases "dt_instant now < dt_instant due") (simp_all add: resolve_and_execute_step_def bnd_Inr)
  qed
qed

lemma parallel_group_returns:
  assumes "runs_requests W" and "list_all (\<lambda>(n, f). resolver_contained f) (wo_resolvers opts)"
    and "aware_schedule opts" and "list_all (\<lambda>s. exec_request_ok (ws_request s)) steps" and "steps \<noteq> []"
  shows "\<exists>rs w'. run_parallel_group W steps context opts w = (Inr rs, w')"
proof -
  let ?workers = "case we_max_concurrency W of Some n \<Rightarrow> nat n | None \<Rightarrow> length steps"
  let ?run = "\<lambda>i. resolve_and_execute_step W (steps ! i) context opts" and ?conts = "map ws_continue steps"
  obtain p w' where run: "run_pool (we_schedule W w) ?workers ?run ?conts w = (p, w')" by fastforce
  have "all_tasks (\<lambda>t. \<forall>e. t \<noteq> Raised e) (length steps) p"
  proof (rule pool_loop_tasks[OF _ _ _ _ _ run[unfolded run_pool_def]])
    fix i w assume "i < length steps"
    then have "exec_request_ok (ws_request (steps ! i))" using assms(4) by (simp add: list_all_length)
    from step_returns[OF assms(1-3) this, of "context" w]
    show "\<forall>e. task_of (fst (?run i w)) \<noteq> Raised e" by (auto simp: task_of_def)
  qed (auto simp: all_tasks_def new_pool_def list_all_iff)
  then have "raised_of p = []" and "pl_aborted p = None"
    by (auto simp: all_tasks_def raised_of_Nil list_all_iff)
  with run show ?thesis by (simp add: run_parallel_group_def Let_def group_outcome_def)
qed

lemma unit_returns:
  assumes "runs_requests W" and "list_all (\<lambda>(n, f). resolver_contained f) (wo_resolvers opts)"
    and "aware_schedule opts" and "list_all (\<lambda>s. exec_request_ok (ws_request s)) u" and "u \<noteq> []"
  shows "\<exists>rs w'. run_unit W u context opts w = (Inr rs, w')"
proof (cases "length u = 1 \<and> \<not> explicitly_parallel (ws_name (hd u)) opts")
  case True
  then obtain s where s: "u = [s]" by (auto simp: length_Suc_conv)
  then have "exec_request_ok (ws_request s)" using assms(4) by simp
  from step_returns[OF assms(1-3) this, of "context" w] True s show ?thesis by (auto simp: run_unit_def bnd_Inr)
next
  case False
  then have "run_unit W u context opts = run_parallel_group W u context opts"
    unfolding run_unit_def by (rule if_not_P)
  with parallel_group_returns[OF assms] show ?thesis by simp
qed

lemma units_return:
  assumes "runs_requests W" and "list_all (\<lambda>(n, f). resolver_contained f) (wo_resolvers opts)"
    and "aware_schedule opts" and "list_all (\<lambda>s. exec_request_ok (ws_request s)) (concat us)" and "[] \<notin> set us"
  shows "\<exists>x w'. run_units W opts us context results w = (Inr x, w')"
  using assms(4,5)
proof (induction us arbitrary: "context" results w)
  case (Cons u us)
  then obtain rs v where rs: "run_unit W u context opts w = (Inr rs, v)"
    using unit_returns[OF assms(1-3), of u "context" w] by auto
  let ?results = "dict_update results rs"
  obtain x v' where "run_units W opts us (context\<lparr>wc_results := ?results\<rparr>) ?results v = (Inr x, v')"
    using Cons by fastforce
  with rs show ?case by (cases "first_stopping_failure u rs") (simp_all add: bnd_Inr Let_def)
qed simp

lemma remember_returns:
  assumes "\<not> blank (wf_id run)"
  shows "\<exists>w'. workflow_remember W run r w = (Inr (), w')"
proof (cases "we_memory W")
  case None
  then show ?thesis by (simp add: workflow_remember_def)
next
  case (Some store)
  have content: "\<not> blank (workflow_memory_content run r)"
    by (simp add: workflow_memory_content_def py_isspace_def Let_def)
  obtain now w1 where now: "env_now (we_env W) w = (now, w1)" by fastforce
  define entry where "entry = \<lparr>me_id = wf_id run, me_content = workflow_memory_content run r,
      me_tags = [''workflow''], me_metadata = [(''name'', PStr (wd_name (wf_definition run))),
        (''success'', PBool (wr_success r)), (''step_count'', PInt (int (length (wr_results r))))],
      me_created_at = now\<rparr>"
  have ok: "check_memory_entry entry = Inr entry" using assms content by (simp add: check_memory_entry_def entry_def)
  obtain x w2 where x: "ms_add store entry w1 = (x, w2)" by fastforce
  have "\<And>e. x = Inl e \<Longrightarrow> exn_is_exception e" using store_raises[OF Some] x by blast
  then show ?thesis
    using x ok by (cases x) (simp_all add: workflow_remember_def Some bnd_def reading_def now attempt_def
        flip: entry_def)
qed

lemma conclude_returns:
  assumes "\<not> blank (wf_id run)"
  shows "\<exists>r w'. conclude_workflow W run outcome w = (Inr r, w') \<and> check_workflow_result r = Inr r"
proof -
  have fin: "check_workflow_result r = Inr r \<Longrightarrow> \<exists>r' w'. bnd (lift_res (check_workflow_result r)) (\<lambda>result.
      andthen (workflow_publish W (e result)) (andthen (workflow_remember W run result) (ret result))) w
        = (Inr r', w') \<and> check_workflow_result r' = Inr r'" for r e
  proof -
    assume r: "check_workflow_result r = Inr r"
    obtain v where v: "workflow_publish W (e r) w = (Inr (), v)" using publish_returns by blast
    obtain v' where "workflow_remember W run r v = (Inr (), v')" using remember_returns[OF assms] by blast
    with r v show ?thesis by (simp add: bnd_Inr andthen_Inr)
  qed
  obtain results stop where outcome: "outcome = (results, stop)" by fastforce
  show ?thesis
  proof (cases stop)
    case None
    show ?thesis unfolding outcome None conclude_workflow_def prod.case option.case
      by (rule fin) (simp add: check_workflow_result_def)
  next
    case (Some sx)
    obtain s x where sx: "sx = (s, x)" by fastforce
    show ?thesis unfolding outcome Some sx conclude_workflow_def prod.case option.case
      by (rule fin) (simp add: check_workflow_result_def py_isspace_def Let_def)
  qed
qed

lemma run_returns:
  assumes "runs_requests W" and "list_all (\<lambda>s. exec_request_ok (ws_request s)) (wd_steps (wf_definition run))"
    and "\<not> blank (wf_id run)"
    and "list_all (\<lambda>(n, f). resolver_contained f) (wo_resolvers opts)"
    and "check_workflow_options opts = Inr opts" and "validate_options (wd_steps (wf_definition run)) opts = Inr ()"
  shows "\<exists>r w'. workflow_run W run context (Some opts) w = (Inr r, w') \<and> check_workflow_result r = Inr r"
proof -
  let ?units = "group_into_units (wd_steps (wf_definition run)) opts"
  obtain v where v: "workflow_publish W (WorkflowStarted (wf_id run) (wd_name (wf_definition run))) w = (Inr (), v)"
    using publish_returns by blast
  have "list_all (\<lambda>s. exec_request_ok (ws_request s)) (concat ?units)"
    using assms(2) by (simp only: group_into_units_concat)
  then obtain x v' where x: "run_units W opts ?units context [] v = (Inr x, v')"
    using units_return[OF assms(1,4) conjunct2[OF check_options_aware[OF assms(5)]] _ group_into_units_nonempty]
    by blast
  obtain r w' where "conclude_workflow W run x v' = (Inr r, w')" "check_workflow_result r = Inr r"
    using conclude_returns[OF assms(3)] by blast
  with assms(5,6) v x show ?thesis by (simp add: workflow_run_def Let_def bnd_Inr andthen_Inr)
qed

end

section \<open>Groups and units\<close>

lemma add_to_units_append: "us' \<noteq> [] \<Longrightarrow> add_to_units d (us @ us') s = us @ add_to_units d us' s"
  by (simp add: add_to_units_def butlast_append)

lemma add_to_units_not_Nil [simp]: "add_to_units d us s \<noteq> []"
  by (simp add: add_to_units_def)

lemma foldl_units_append:
  "us' \<noteq> [] \<Longrightarrow> foldl (add_to_units d) (us @ us') ss = us @ foldl (add_to_units d) us' ss"
  by (induction ss arbitrary: us') (simp_all add: add_to_units_append)

lemma foldl_units_group:
  assumes "g \<noteq> []" and "\<forall>s \<in> set g. map_of d (ws_name s) = Some i"
    and "us \<noteq> [] \<Longrightarrow> map_of d (ws_name (hd (last us))) \<noteq> Some i"
  shows "foldl (add_to_units d) us g = us @ [g]"
  using assms
proof (induction g rule: rev_induct)
  case (snoc s g)
  then show ?case
    by (cases "g = []") (auto simp: add_to_units_def)
qed simp

lemma units_split_at_group:
  assumes "g \<noteq> []" and "\<forall>s \<in> set g. map_of d (ws_name s) = Some i"
    and "\<forall>s \<in> set pre \<union> set post. map_of d (ws_name s) \<noteq> Some i"
  shows "\<exists>us vs. foldl (add_to_units d) [] (pre @ g @ post) = us @ g # vs"
proof -
  define us where "us = foldl (add_to_units d) [] pre"
  have pre: "concat us = pre" and nonempty: "[] \<notin> set us"
  proof -
    have "concat (foldl (add_to_units d) us' pre) = concat us' @ pre" for us'
      by (induction pre arbitrary: us') (simp_all add: add_to_units_concat)
    then show "concat us = pre" by (simp add: us_def)
    have "[] \<notin> set us' \<Longrightarrow> [] \<notin> set (foldl (add_to_units d) us' pre)" for us'
      by (induction pre arbitrary: us') (simp_all add: add_to_units_nonempty)
    then show "[] \<notin> set us" by (simp add: us_def)
  qed
  have "hd (last us) \<in> set pre" if "us \<noteq> []"
    using that nonempty by (metis pre UN_I hd_in_set last_in_set set_concat)
  then have g: "foldl (add_to_units d) us g = us @ [g]"
    using assms by (intro foldl_units_group) auto
  have "\<exists>vs. foldl (add_to_units d) (us @ [g]) post = us @ g # vs"
  proof (cases post)
    case (Cons s post')
    have "hd g \<in> set g" using assms(1) by simp
    then have "map_of d (ws_name (hd g)) = Some i" using assms(2) by blast
    moreover have "map_of d (ws_name s) \<noteq> Some i" using assms(3) Cons by simp
    ultimately have "add_to_units d (us @ [g]) s = (us @ [g]) @ [[s]]" by (auto simp: add_to_units_def)
    with Cons foldl_units_append[of "[[s]]" d "us @ [g]" post'] show ?thesis by simp
  qed simp
  with g show ?thesis unfolding us_def by simp blast
qed

lemma check_group_distinct: "check_group grouped g = Inr grouped' \<Longrightarrow> distinct grouped \<Longrightarrow> grouped' = grouped @ g \<and> distinct grouped'"
  by (induction grouped g rule: check_group.induct) (auto simp: rbind_Inr_iff split: if_splits)

lemma check_groups_distinct:
  "check_groups grouped gs = Inr grouped' \<Longrightarrow> distinct grouped \<Longrightarrow>
    grouped' = grouped @ concat gs \<and> distinct grouped' \<and> [] \<notin> set gs"
proof (induction grouped gs arbitrary: grouped' rule: check_groups.induct)
  case (2 grouped g gs)
  from "2.prems"(1) obtain gd where gd: "g \<noteq> []" "check_group grouped g = Inr gd" "check_groups gd gs = Inr grouped'"
    by (auto simp: rbind_Inr_iff split: if_splits)
  from check_group_distinct[OF gd(2) "2.prems"(2)] have "gd = grouped @ g" "distinct gd" by blast+
  from "2.IH"[OF gd(1,3) this(2)] have IH: "grouped' = gd @ concat gs" "distinct grouped'" "[] \<notin> set gs"
    by blast+
  show ?case
  proof (intro conjI)
    show "grouped' = grouped @ concat (g # gs)" using IH(1) \<open>gd = grouped @ g\<close> by simp
  qed (use IH gd(1) in simp_all)
qed simp

lemma group_by_name_lookup:
  "distinct (concat gs) \<Longrightarrow>
    (\<forall>j < length gs. \<forall>n \<in> set (gs ! j). map_of (group_by_name i gs d) n = Some (i + j))
    \<and> (\<forall>n. n \<notin> set (concat gs) \<longrightarrow> map_of (group_by_name i gs d) n = map_of d n)"
proof (induction gs arbitrary: i d)
  case (Cons g gs)
  let ?d = "dict_update d (map (\<lambda>n. (n, i)) g)"
  have "dict_ok (map (\<lambda>n. (n, i)) g)" using Cons.prems by (simp add: dict_ok_def comp_def)
  note upd = map_of_dict_update[OF this, of d]
  have const: "n \<in> set g \<Longrightarrow> map_of (map (\<lambda>n. (n, i)) g) n = Some i" for n
    by (induction g) auto
  have fresh: "n \<notin> set g \<Longrightarrow> map_of (map (\<lambda>n. (n, i)) g) n = None" for n
    by (induction g) auto
  have "distinct (concat gs)" using Cons.prems by (simp add: distinct_concat)
  note IH = Cons.IH[OF this, of "Suc i" ?d]
  have disj: "n \<in> set g \<Longrightarrow> n \<notin> set (concat gs)" for n using Cons.prems by auto
  show ?case
  proof (intro conjI allI impI ballI)
    fix j n assume j: "j < length (g # gs)" and n: "n \<in> set ((g # gs) ! j)"
    show "map_of (group_by_name i (g # gs) d) n = Some (i + j)"
    proof (cases j)
      case 0
      with n have "n \<in> set g" by simp
      with IH disj[of n] upd const show ?thesis by (simp add: 0)
    next
      case (Suc k)
      with j n IH show ?thesis by simp
    qed
  next
    fix n assume "n \<notin> set (concat (g # gs))"
    with IH upd fresh show "map_of (group_by_name i (g # gs) d) n = map_of d n" by simp
  qed
qed simp

lemma position_nth: "n \<in> set names \<Longrightarrow> position names n < length names \<and> names ! position names n = n"
  by (induction names) auto

text \<open>A list of distinct indexes as wide as it is long is an interval.\<close>

lemma sort_interval:
  assumes "distinct (is :: nat list)" and "is \<noteq> []" and "Max (set is) - Min (set is) + 1 = length is"
  shows "sort is = [Min (set is) ..< Min (set is) + length is]"
proof -
  let ?S = "{Min (set is) ..< Min (set is) + length is}"
  have "set is = ?S"
  proof (rule card_subset_eq)
    show "set is \<subseteq> ?S"
    proof
      fix i assume i: "i \<in> set is"
      then have "Min (set is) \<le> i" "i \<le> Max (set is)" by simp_all
      with assms(3) show "i \<in> ?S" by simp
    qed
    show "card (set is) = card ?S" using assms(1) by (simp add: distinct_card)
  qed simp
  then have "sorted_list_of_set (set is) = [Min (set is) ..< Min (set is) + length is]"
    by (metis sorted_list_of_set_range)
  then show ?thesis
    using sorted_list_of_set_sort_remdups[of "is"] distinct_remdups_id[OF assms(1)] by simp
qed

lemma contiguous_interval:
  assumes "contiguous_in_order names g" and "distinct g" and "g \<noteq> []" and "set g \<subseteq> set names"
  shows "\<exists>pre post. names = pre @ g @ post"
proof -
  let ?is = "map (position names) g"
  have "inj_on (position names) (set g)"
    using assms(4) position_nth by (metis inj_onI subsetD)
  then have "distinct ?is" using assms(2) by (simp add: distinct_map)
  from sort_interval[OF this] assms(1,3)
  have srt: "sort ?is = [Min (set ?is) ..< Min (set ?is) + length g]"
    by (simp add: contiguous_in_order_def Let_def)
  let ?lo = "Min (set ?is)"
  have "Max (set ?is) < length names"
    using assms(3,4) position_nth[of _ names] by (subst Max_less_iff) auto
  moreover have "?lo + length g = Max (set ?is) + 1"
  proof -
    have "?lo \<le> Max (set ?is)" using assms(3) by (intro Min_le Max_in) auto
    moreover have "Max (set ?is) - ?lo + 1 = length g"
      using assms(1) unfolding contiguous_in_order_def Let_def by (metis length_map)
    ultimately show ?thesis by linarith
  qed
  ultimately have "?lo + length g \<le> length names" by simp
  moreover have "g = map ((!) names) [?lo ..< ?lo + length g]"
    using assms(1) srt by (simp add: contiguous_in_order_def Let_def)
  moreover have "map ((!) names) [k ..< k + n] = take n (drop k names)" if "k + n \<le> length names" for k n
    using that by (intro nth_equalityI) simp_all
  ultimately have "g = take (length g) (drop ?lo names)" by metis
  then have "names = take ?lo names @ g @ drop (length g) (drop ?lo names)"
    by (metis append_take_drop_id)
  then show ?thesis by blast
qed

lemma check_contiguous_all: "check_contiguous names gs = Inr () \<Longrightarrow> g \<in> set gs \<Longrightarrow> contiguous_in_order names g"
  by (induction names gs rule: check_contiguous.induct) (auto split: if_splits)

lemma group_is_unit:
  assumes "distinct (map ws_name steps)" and "check_workflow_options opts = Inr opts"
    and "validate_options steps opts = Inr ()" and "g \<in> set (wo_groups opts)"
  shows "\<exists>u \<in> set (group_into_units steps opts). map ws_name u = g"
proof -
  let ?d = "group_by_name 0 (wo_groups opts) []"
  obtain gd where "check_groups [] (wo_groups opts) = Inr gd"
    using assms(2) by (auto simp: check_workflow_options_def rbind_Inr_iff)
  from check_groups_distinct[OF this] have dist: "distinct (concat (wo_groups opts))" and ne: "[] \<notin> set (wo_groups opts)"
    by auto
  obtain j where j: "j < length (wo_groups opts)" "wo_groups opts ! j = g"
    using assms(4) by (auto simp: in_set_conv_nth)
  note lookup = group_by_name_lookup[OF dist, of 0 "[]"]
  have "distinct g" "g \<noteq> []" using dist ne assms(4) by (auto simp: distinct_concat_iff)
  have valid: "sort (remdups (filter (\<lambda>n. n \<notin> set (map ws_name steps)) (keys (wo_resolvers opts)
      @ keys (wo_not_before opts) @ concat (wo_groups opts)))) = []"
    "check_contiguous (map ws_name steps) (wo_groups opts) = Inr ()"
    using assms(3) by (auto simp: validate_options_def Let_def split: if_splits)
  have "sort xs = [] \<Longrightarrow> xs = []" for xs :: "string list" by (metis length_0_conv length_sort)
  from this[OF valid(1)] have "set g \<subseteq> set (map ws_name steps)"
    using assms(4) by (auto simp: filter_empty_conv)
  with contiguous_interval[OF check_contiguous_all[OF valid(2) assms(4)] \<open>distinct g\<close> \<open>g \<noteq> []\<close>]
  obtain prn ptn where names: "map ws_name steps = prn @ g @ ptn" by blast
  then obtain pre u post where steps: "steps = pre @ u @ post" and u: "map ws_name u = g"
    "map ws_name pre = prn" "map ws_name post = ptn"
    by (fastforce simp: map_eq_append_conv append_eq_map_conv)
  have in_g: "map_of ?d n = Some j \<longleftrightarrow> n \<in> set g" if "n \<in> set (map ws_name steps)" for n
  proof
    assume n: "map_of ?d n = Some j"
    show "n \<in> set g"
    proof (cases "n \<in> set (concat (wo_groups opts))")
      case True
      then obtain h where "h \<in> set (wo_groups opts)" "n \<in> set h" by auto
      then obtain k where k: "k < length (wo_groups opts)" "n \<in> set (wo_groups opts ! k)"
        by (metis in_set_conv_nth)
      with lookup n have "k = j" by fastforce
      with k j show ?thesis by simp
    next
      case False
      with lookup n show ?thesis by fastforce
    qed
  qed (use lookup j in fastforce)
  have "u \<noteq> []" using u \<open>g \<noteq> []\<close> by auto
  moreover have "\<forall>s \<in> set u. map_of ?d (ws_name s) = Some j" using in_g steps u by auto
  moreover have "\<forall>s \<in> set pre \<union> set post. map_of ?d (ws_name s) \<noteq> Some j"
  proof
    fix s assume s: "s \<in> set pre \<union> set post"
    then have "ws_name s \<in> set prn \<union> set ptn" using u by auto
    moreover have "set prn \<inter> set g = {}" "set ptn \<inter> set g = {}" using assms(1) unfolding names by auto
    ultimately have "ws_name s \<notin> set g" by blast
    with in_g[of "ws_name s"] s steps show "map_of ?d (ws_name s) \<noteq> Some j" by auto
  qed
  ultimately obtain us vs where "foldl (add_to_units ?d) [] (pre @ u @ post) = us @ u # vs"
    using units_split_at_group by blast
  then have "u \<in> set (group_into_units steps opts)" by (simp add: group_into_units_def steps)
  with u show ?thesis by blast
qed

text \<open>Conversely a unit of several steps is a declared group.\<close>

lemma add_to_units_keys:
  assumes "\<forall>u \<in> set us. 1 < length u \<longrightarrow> (\<exists>i. \<forall>s \<in> set u. map_of d (ws_name s) = Some i)" and "[] \<notin> set us"
  shows "\<forall>u \<in> set (add_to_units d us s). 1 < length u \<longrightarrow> (\<exists>i. \<forall>s \<in> set u. map_of d (ws_name s) = Some i)"
proof (cases us rule: rev_cases)
  case Nil
  then show ?thesis by (simp add: add_to_units_def)
next
  case (snoc vs v)
  have "\<exists>i. \<forall>t \<in> set (v @ [s]). map_of d (ws_name t) = Some i"
    if same: "map_of d (ws_name (hd v)) = map_of d (ws_name s)" and some: "map_of d (ws_name s) = Some i" for i
  proof (cases "1 < length v")
    case True
    with assms(1) snoc obtain k where k: "\<forall>t \<in> set v. map_of d (ws_name t) = Some k" by auto
    moreover have "hd v \<in> set v" using True by (intro hd_in_set) auto
    ultimately have "Some k = Some i" using same some by metis
    with k some show ?thesis by auto
  next
    case False
    moreover have "v \<noteq> []" using assms(2) snoc by auto
    ultimately obtain t where "v = [t]" by (cases v) auto
    with same some show ?thesis by auto
  qed
  then have merged: "\<exists>i. \<forall>t \<in> set (v @ [s]). map_of d (ws_name t) = Some i"
    if "map_of d (ws_name s) \<noteq> None" "map_of d (ws_name (hd v)) = map_of d (ws_name s)"
    using that by (cases "map_of d (ws_name s)") blast+
  show ?thesis
  proof (cases "map_of d (ws_name s) \<noteq> None \<and> map_of d (ws_name (hd v)) = map_of d (ws_name s)")
    case True
    then have "add_to_units d us s = vs @ [v @ [s]]" by (simp add: add_to_units_def snoc)
    with assms(1) snoc merged True show ?thesis by simp
  next
    case False
    then have "add_to_units d us s = us @ [[s]]" unfolding add_to_units_def snoc by (intro if_not_P) simp
    with assms(1) show ?thesis by simp
  qed
qed

lemma big_unit_is_group:
  assumes "distinct (map ws_name steps)" and "check_workflow_options opts = Inr opts"
    and "validate_options steps opts = Inr ()" and "u \<in> set (group_into_units steps opts)" and "1 < length u"
  shows "map ws_name u \<in> set (wo_groups opts)"
proof -
  let ?d = "group_by_name 0 (wo_groups opts) []" and ?units = "group_into_units steps opts"
  let ?P = "\<lambda>us. [] \<notin> set us \<and> (\<forall>u \<in> set us. 1 < length u \<longrightarrow> (\<exists>i. \<forall>s \<in> set u. map_of ?d (ws_name s) = Some i))"
  have "?P us \<Longrightarrow> ?P (foldl (add_to_units ?d) us ss)" for us ss
  proof (induction ss arbitrary: us)
    case (Cons s ss)
    have "?P (add_to_units ?d us s)"
      using Cons.prems add_to_units_keys[of us ?d s] add_to_units_nonempty[of us ?d s] by simp
    then show ?case unfolding foldl_Cons by (rule Cons.IH)
  qed simp
  from this[of "[]" steps] assms(4,5) obtain i where i: "\<forall>s \<in> set u. map_of ?d (ws_name s) = Some i"
    unfolding group_into_units_def by auto
  obtain gd where "check_groups [] (wo_groups opts) = Inr gd"
    using assms(2) by (auto simp: check_workflow_options_def rbind_Inr_iff)
  from check_groups_distinct[OF this] have dist: "distinct (concat (wo_groups opts))" by auto
  have hd: "hd u \<in> set u" using assms(5) by (intro hd_in_set) auto
  then have "map_of ?d (ws_name (hd u)) \<noteq> None" using i by simp
  then have "ws_name (hd u) \<in> set (concat (wo_groups opts))"
    using group_by_name_lookup[OF dist, of 0 "[]"] by fastforce
  then obtain g where g: "g \<in> set (wo_groups opts)" "ws_name (hd u) \<in> set g" by auto
  then obtain v where v: "v \<in> set ?units" "map ws_name v = g" using group_is_unit[OF assms(1-3)] by blast
  have inj: "inj_on ws_name (set (concat ?units))" and dist_units: "distinct (concat ?units)"
    using assms(1) by (simp_all add: group_into_units_concat distinct_map)
  from g(2) v(2) obtain t where t: "t \<in> set v" "ws_name t = ws_name (hd u)" by auto
  moreover have "t \<in> set (concat ?units)" "hd u \<in> set (concat ?units)" using t(1) v(1) hd assms(4) by auto
  ultimately have "hd u \<in> set v" using inj by (metis inj_onD)
  have "u = v"
  proof (rule ccontr)
    assume "u \<noteq> v"
    then have "set u \<inter> set v = {}" using dist_units assms(4) v(1) by (simp add: distinct_concat_iff)
    with hd \<open>hd u \<in> set v\<close> show False by blast
  qed
  with v(2) g(1) show ?thesis by simp
qed

section \<open>The composed engine\<close>

text \<open>
  \<open>SystemClock.now()\<close> is \<open>datetime.now(UTC)\<close>: the fields of the process clock, tagged
  UTC. The engine delegates to the authorizing execution engine and records in the store
  that engine records in.
\<close>

definition system_clock :: "'w env \<Rightarrow> ('w, datetime) py" where
  "system_clock E = bnd (reading (env_now E)) (\<lambda>d. ret (d\<lparr>dt_offset := Some 0\<rparr>))"

definition composed_workflow_engine ::
  "(memory_dict \<times> 'w) dispatcher \<Rightarrow> (payload \<Rightarrow> string) \<Rightarrow> (memory_dict \<times> 'w \<Rightarrow> nat \<Rightarrow> nat)
     \<Rightarrow> (memory_dict \<times> 'w) workflow_engine" where
  "composed_workflow_engine D render schedule = \<lparr>we_execute = execute (authorized_engine D render),
     we_memory = Some in_memory_ops, we_bus = None, we_max_concurrency = None,
     we_clock = system_clock (dp_env D), we_env = dp_env D, we_schedule = schedule\<rparr>"

interpretation composed: workflow_collaborators "composed_workflow_engine D render schedule"
proof (unfold_locales, goal_cases)
  case (3 w)
  obtain now w' where "env_now (dp_env D) w = (now, w')" by (cases "env_now (dp_env D) w") simp
  then show ?case by (simp add: composed_workflow_engine_def system_clock_def bnd_reading)
qed (auto simp: composed_workflow_engine_def workflow_publish_def in_memory_ops_def positive_concurrency_def)

lemma composed_runs: "dispatcher_contained D \<Longrightarrow> runs_requests (composed_workflow_engine D render schedule)"
  using authorized.execute_returns[of _ D render]
  by (simp add: runs_requests_def composed_workflow_engine_def authorized_engine_def)

section \<open>Properties\<close>

text \<open>C28 With options that pass their checks the units are exactly what was declared: they
  partition the steps in order, every declared group is one unit, and a unit of several steps
  is a declared group.\<close>

theorem declared_groups_are_units:
  assumes "check_workflow_definition d = Inr d" and "check_workflow_options opts = Inr opts"
    and "validate_options (wd_steps d) opts = Inr ()"
  shows "concat (group_into_units (wd_steps d) opts) = wd_steps d
    \<and> (\<forall>g \<in> set (wo_groups opts). \<exists>u \<in> set (group_into_units (wd_steps d) opts). map ws_name u = g)
    \<and> (\<forall>u \<in> set (group_into_units (wd_steps d) opts). 1 < length u \<longrightarrow> map ws_name u \<in> set (wo_groups opts))"
proof -
  have dist: "distinct (map ws_name (wd_steps d))"
    using assms(1) by (auto simp: check_workflow_definition_def split: if_splits)
  show ?thesis
    using group_into_units_concat[of "wd_steps d" opts] group_is_unit[OF dist assms(2,3)]
      big_unit_is_group[OF dist assms(2,3)] by blast
qed

theorem declared_groups_are_units_witness:
  "\<exists>u \<in> set (group_into_units (map demo_step [''a'', ''b'', ''c''])
      (\<lparr>wo_resolvers = [], wo_groups = [[''b'', ''c'']], wo_not_before = []\<rparr> :: nat workflow_options)). map ws_name u = [''b'', ''c'']"
proof -
  let ?d = "\<lparr>wd_name = ''w'', wd_steps = map demo_step [''a'', ''b'', ''c''], wd_metadata = []\<rparr>"
  let ?o = "\<lparr>wo_resolvers = [], wo_groups = [[''b'', ''c'']], wo_not_before = []\<rparr> :: nat workflow_options"
  have "check_workflow_definition ?d = Inr ?d"
    by (simp add: check_workflow_definition_def demo_step_def py_isspace_def Let_def)
  moreover have "check_workflow_options ?o = Inr ?o"
    by (simp add: check_workflow_options_def validate_step_name_def py_isspace_def Let_def)
  moreover have "validate_options (wd_steps ?d) ?o = Inr ()"
    by (simp add: validate_options_def contiguous_in_order_def demo_step_def)
  ultimately show ?thesis using declared_groups_are_units[of ?d ?o] by simp
qed

text \<open>C27 The workflow engine over the authorizing execution engine never raises: with tools,
  providers and resolvers that keep their contracts, options that pass their checks and a run
  that has an id, every run under every schedule returns a result that passes its own checks,
  whatever fails on the way.\<close>

theorem composed_workflow_total:
  assumes "dispatcher_contained D" and "\<not> blank (wf_id run)"
    and "list_all (\<lambda>s. exec_request_ok (ws_request s)) (wd_steps (wf_definition run))"
    and "list_all (\<lambda>(n, f). resolver_contained f) (wo_resolvers opts)"
    and "check_workflow_options opts = Inr opts" and "validate_options (wd_steps (wf_definition run)) opts = Inr ()"
  shows "\<exists>r w'. workflow_run (composed_workflow_engine D render schedule) run context (Some opts) w = (Inr r, w')
    \<and> check_workflow_result r = Inr r"
  by (rule composed.run_returns[OF composed_runs[OF assms(1)] assms(3,2,4,5,6)])

theorem composed_workflow_total_witness:
  "\<exists>r w'. workflow_run (composed_workflow_engine \<lparr>dp_env = \<lparr>env_perf = Pair 0,
        env_now = Pair (me_created_at (demo_entry [] [])), env_uuid = Pair []\<rparr>,
      dp_tools = (\<lambda>_. []), dp_providers = (\<lambda>_. [])\<rparr> (\<lambda>_. []) (\<lambda>_ _. 0)) (demo_workflow [''a'', ''b''])
      demo_workflow_context (Some no_options) ([], 0 :: nat) = (Inr r, w') \<and> check_workflow_result r = Inr r"
proof (rule composed_workflow_total)
  show "validate_options (wd_steps (wf_definition (demo_workflow [''a'', ''b'']))) no_options = Inr ()"
    by (simp add: validate_options_def no_options_def)
qed (simp_all add: dispatcher_contained_def tool_lookup_def provider_get_def demo_workflow_def demo_step_def
    tool_request_def exec_request_ok_def check_workflow_options_def no_options_def py_isspace_def Let_def)

end
