(* ===== verification/Agents.thy ===== *)
theory Agents
  imports Workflow_Runs
begin

text \<open>
  The agent runtime (\<open>agents/\<close>): an agent run starts exactly the workflow its definition
  names, under a fresh run id, and mirrors that run's outcome. The workflow engine is reached
  through its \<open>run\<close>, which the engine record holds as a function.
\<close>

section \<open>Definitions, runs and results\<close>

record agent_definition =
  ad_name :: string
  ad_workflow :: workflow_definition
  ad_metadata :: payload

definition check_agent_definition :: "agent_definition \<Rightarrow> agent_definition res" where
  "check_agent_definition d =
     (if blank (ad_name d) then Inl (Exn AgentError ''AgentDefinition.name must not be blank.'') else Inr d)"

record agent =
  ag_definition :: agent_definition
  ag_id :: string

record agent_context =
  ac_workflow :: workflow_context

record agent_result =
  gr_success :: bool
  gr_workflow :: workflow_result
  gr_error :: "string option"

definition check_agent_result :: "agent_result \<Rightarrow> agent_result res" where
  "check_agent_result r =
     (if \<not> gr_success r \<and> \<not> has_message (gr_error r)
      then Inl (Exn AgentError ''A failed AgentResult must include a non-empty `error` message.'')
      else if gr_success r \<and> gr_error r \<noteq> None
      then Inl (Exn AgentError ''A successful AgentResult must not set `error`.'')
      else Inr r)"

section \<open>The engine\<close>

record 'w agent_engine =
  an_run :: "workflow \<Rightarrow> workflow_context \<Rightarrow> 'w workflow_options option \<Rightarrow> ('w, workflow_result) py"
  an_memory :: "'w memory_store_ops option"
  an_bus :: "(event \<Rightarrow> ('w, unit) py) option"
  an_env :: "'w env"

definition agent_publish :: "'w agent_engine \<Rightarrow> event \<Rightarrow> ('w, unit) py" where
  "agent_publish A e = (case an_bus A of None \<Rightarrow> ret () | Some publish \<Rightarrow> publish e)"

definition agent_entry :: "agent \<Rightarrow> agent_result \<Rightarrow> datetime \<Rightarrow> memory_entry" where
  "agent_entry a result now =
     \<lparr>me_id = ag_id a,
      me_content = (if gr_success result
        then ''Agent '' @ repr_str (ad_name (ag_definition a)) @ '' completed successfully.''
        else ''Agent '' @ repr_str (ad_name (ag_definition a)) @ '' failed: '' @ opt_text (gr_error result)),
      me_tags = [''agent''],
      me_metadata = [(''name'', PStr (ad_name (ag_definition a))), (''success'', PBool (gr_success result))],
      me_created_at = now\<rparr>"

definition agent_remember :: "'w agent_engine \<Rightarrow> agent \<Rightarrow> agent_result \<Rightarrow> ('w, unit) py" where
  "agent_remember A a result =
     (case an_memory A of
        None \<Rightarrow> ret ()
      | Some store \<Rightarrow>
          bnd (reading (env_now (an_env A))) (\<lambda>now.
          bnd (lift_res (check_memory_entry (agent_entry a result now))) (\<lambda>entry.
          attempt (ms_add store entry)
            (\<lambda>e. if exn_is_exception e then ret () else throw e)
            ret)))"

text \<open>The result of an agent run and the event that announces it.\<close>

definition agent_outcome :: "agent \<Rightarrow> workflow_result \<Rightarrow> agent_result" where
  "agent_outcome a r =
     (if wr_success r then \<lparr>gr_success = True, gr_workflow = r, gr_error = None\<rparr>
      else \<lparr>gr_success = False, gr_workflow = r,
        gr_error = Some (''Workflow '' @ repr_str (wd_name (ad_workflow (ag_definition a))) @ '' failed: ''
          @ opt_text (wr_error r))\<rparr>)"

definition agent_event :: "agent \<Rightarrow> agent_result \<Rightarrow> event" where
  "agent_event a result =
     (if gr_success result then AgentCompleted (ag_id a) (ad_name (ag_definition a))
      else AgentFailed (ag_id a) (ad_name (ag_definition a)) (str_or (gr_error result) []))"

definition agent_execute ::
  "'w agent_engine \<Rightarrow> agent \<Rightarrow> agent_context \<Rightarrow> ('w, agent_result) py" where
  "agent_execute A a ctx =
     andthen (agent_publish A (AgentStarted (ag_id a) (ad_name (ag_definition a))))
     (bnd (reading (env_uuid (an_env A))) (\<lambda>i.
      bnd (an_run A \<lparr>wf_definition = ad_workflow (ag_definition a), wf_id = i\<rparr> (ac_workflow ctx) None) (\<lambda>r.
      bnd (lift_res (check_agent_result (agent_outcome a r))) (\<lambda>result.
      andthen (agent_publish A (agent_event a result))
      (andthen (agent_remember A a result) (ret result))))))"

section \<open>Runs that return\<close>

lemma agent_outcome_ok: "check_agent_result (agent_outcome a r) = Inr (agent_outcome a r)"
  by (simp add: check_agent_result_def agent_outcome_def py_isspace_def Let_def)

lemma agent_entry_ok: "\<not> blank (ag_id a) \<Longrightarrow> check_memory_entry (agent_entry a r now) = Inr (agent_entry a r now)"
  by (simp add: check_memory_entry_def agent_entry_def py_isspace_def Let_def)

lemma agent_execute_run:
  assumes "agent_execute A a ctx w = (Inr result, w')"
  shows "\<exists>i r v v'. an_run A \<lparr>wf_definition = ad_workflow (ag_definition a), wf_id = i\<rparr> (ac_workflow ctx) None v
      = (Inr r, v') \<and> result = agent_outcome a r"
  using assms unfolding agent_execute_def agent_outcome_ok
  by (fastforce dest!: andthen_InrD bnd_InrD)

text \<open>What the agent engine relies on.\<close>

locale agent_collaborators =
  fixes A :: "'w agent_engine"
  assumes publish_returns: "\<exists>w'. agent_publish A e w = (Inr (), w')"
    and store_raises: "an_memory A = Some store \<Longrightarrow> ms_add store entry w = (Inl x, w') \<Longrightarrow> exn_is_exception x"
begin

lemma remember_returns:
  assumes "\<not> blank (ag_id a)"
  shows "\<exists>w'. agent_remember A a r w = (Inr (), w')"
proof (cases "an_memory A")
  case None
  then show ?thesis by (simp add: agent_remember_def)
next
  case (Some store)
  obtain now w1 where now: "env_now (an_env A) w = (now, w1)" by fastforce
  obtain x w2 where x: "ms_add store (agent_entry a r now) w1 = (x, w2)" by fastforce
  have "\<And>e. x = Inl e \<Longrightarrow> exn_is_exception e" using store_raises[OF Some] x by blast
  then show ?thesis using x
    by (cases x) (simp_all add: agent_remember_def Some bnd_def reading_def now attempt_def agent_entry_ok[OF assms])
qed

lemma execute_returns:
  assumes "\<not> blank (ag_id a)"
    and "\<And>w i w'. env_uuid (an_env A) w = (i, w') \<Longrightarrow> \<not> blank i"
    and "\<And>i w. \<not> blank i \<Longrightarrow> \<exists>r w'. an_run A \<lparr>wf_definition = ad_workflow (ag_definition a), wf_id = i\<rparr>
           (ac_workflow ctx) None w = (Inr r, w')"
  shows "\<exists>result w'. agent_execute A a ctx w = (Inr result, w') \<and> check_agent_result result = Inr result"
proof -
  obtain w1 where w1: "agent_publish A (AgentStarted (ag_id a) (ad_name (ag_definition a))) w = (Inr (), w1)"
    using publish_returns by blast
  obtain i w2 where i: "env_uuid (an_env A) w1 = (i, w2)" by fastforce
  obtain r w3 where r: "an_run A \<lparr>wf_definition = ad_workflow (ag_definition a), wf_id = i\<rparr>
      (ac_workflow ctx) None w2 = (Inr r, w3)" using assms(3)[OF assms(2)[OF i]] by blast
  obtain w4 where w4: "agent_publish A (agent_event a (agent_outcome a r)) w3 = (Inr (), w4)"
    using publish_returns by blast
  obtain w5 where "agent_remember A a (agent_outcome a r) w4 = (Inr (), w5)"
    using remember_returns[OF assms(1)] by blast
  with w1 i r w4 show ?thesis
    by (simp add: agent_execute_def andthen_Inr bnd_reading bnd_Inr agent_outcome_ok)
qed

end

definition composed_agent_engine ::
  "(memory_dict \<times> 'w) dispatcher \<Rightarrow> (payload \<Rightarrow> string) \<Rightarrow> (memory_dict \<times> 'w \<Rightarrow> nat \<Rightarrow> nat)
     \<Rightarrow> (memory_dict \<times> 'w) agent_engine" where
  "composed_agent_engine D render schedule = \<lparr>an_run = workflow_run (composed_workflow_engine D render schedule),
     an_memory = Some in_memory_ops, an_bus = None, an_env = dp_env D\<rparr>"

interpretation composed_agents: agent_collaborators "composed_agent_engine D render schedule"
  by unfold_locales (auto simp: composed_agent_engine_def agent_publish_def in_memory_ops_def)

lemma workflow_run_default: "workflow_run W run context None = workflow_run W run context (Some no_options)"
  by (simp add: workflow_run_def)

lemma no_options_valid:
  "check_workflow_options no_options = Inr no_options" "validate_options steps no_options = Inr ()"
  by (simp_all add: check_workflow_options_def validate_options_def no_options_def)

section \<open>Properties\<close>

text \<open>An agent run that returns is the run of its one workflow: the workflow engine was asked
  for the definition the agent names, under an id of its own and with no options; the agent
  succeeds exactly when that workflow does, carries its result unchanged, and a failure names
  the workflow and its error.\<close>

theorem agent_mirrors_workflow:
  assumes "agent_execute A a ctx w = (Inr result, w')"
  shows "(\<exists>i v v'. an_run A \<lparr>wf_definition = ad_workflow (ag_definition a), wf_id = i\<rparr> (ac_workflow ctx) None v
        = (Inr (gr_workflow result), v'))
    \<and> gr_success result = wr_success (gr_workflow result)
    \<and> gr_error result = (if gr_success result then None
        else Some (''Workflow '' @ repr_str (wd_name (ad_workflow (ag_definition a))) @ '' failed: ''
          @ opt_text (wr_error (gr_workflow result))))"
proof -
  from agent_execute_run[OF assms] obtain i r v v' where run: "an_run A \<lparr>wf_definition = ad_workflow (ag_definition a),
      wf_id = i\<rparr> (ac_workflow ctx) None v = (Inr r, v')" and result: "result = agent_outcome a r" by blast
  have "gr_workflow result = r" by (simp add: result agent_outcome_def)
  with run result show ?thesis by (auto simp: agent_outcome_def)
qed

text \<open>C26 The whole stack (agent engine over workflow engine over the authorizing execution engine,
  recording in one store) returns a well-formed result for every agent that has an id, over
  tools and providers that keep their contracts, under every schedule.\<close>

theorem composed_agent_total:
  assumes "dispatcher_contained D" and "\<not> blank (ag_id a)"
    and "list_all (\<lambda>s. exec_request_ok (ws_request s)) (wd_steps (ad_workflow (ag_definition a)))"
    and "\<And>w i w'. env_uuid (dp_env D) w = (i, w') \<Longrightarrow> \<not> blank i"
  shows "\<exists>result w'. agent_execute (composed_agent_engine D render schedule) a ctx w = (Inr result, w')
    \<and> check_agent_result result = Inr result"
proof (rule composed_agents.execute_returns[OF assms(2)])
  fix i :: string and w
  assume "\<not> blank i"
  then show "\<exists>r w'. an_run (composed_agent_engine D render schedule) \<lparr>wf_definition = ad_workflow (ag_definition a),
      wf_id = i\<rparr> (ac_workflow ctx) None w = (Inr r, w')"
    using composed.run_returns[OF composed_runs[OF assms(1)], of "\<lparr>wf_definition = ad_workflow (ag_definition a),
      wf_id = i\<rparr>" no_options render schedule "ac_workflow ctx" w] assms(3)
    by (simp add: composed_agent_engine_def workflow_run_default no_options_valid) (auto simp: no_options_def)
qed (simp add: composed_agent_engine_def assms(4))

definition demo_agent :: agent where
  "demo_agent = \<lparr>ag_definition = \<lparr>ad_name = ''a'', ad_workflow = wf_definition (demo_workflow [''x'']), ad_metadata = []\<rparr>,
     ag_id = ''agent-1''\<rparr>"

definition demo_failed_run :: workflow_result where
  "demo_failed_run = \<lparr>wr_success = False, wr_results = [], wr_error = Some ''no'', wr_stopped_at = Some ''x''\<rparr>"

definition demo_agent_engine :: "nat agent_engine" where
  "demo_agent_engine = \<lparr>an_run = (\<lambda>_ _ _. ret demo_failed_run), an_memory = None, an_bus = None, an_env = counting_env\<rparr>"

theorem agent_mirrors_workflow_witness:
  "\<exists>result w'. agent_execute demo_agent_engine demo_agent \<lparr>ac_workflow = demo_workflow_context\<rparr> 0 = (Inr result, w')
    \<and> gr_error result = Some (''Workflow '' @ repr_str ''w'' @ '' failed: no'')"
proof -
  obtain result w' where run: "agent_execute demo_agent_engine demo_agent \<lparr>ac_workflow = demo_workflow_context\<rparr> 0
      = (Inr result, w')" and result: "gr_workflow result = demo_failed_run"
    by (simp add: agent_execute_def demo_agent_engine_def andthen_def bnd_def agent_publish_def reading_def
        counting_env_def agent_outcome_ok agent_remember_def) (simp add: agent_outcome_def demo_failed_run_def)
  from agent_mirrors_workflow[OF run] result have "gr_error result = Some (''Workflow '' @ repr_str ''w'' @ '' failed: no'')"
    by (simp add: demo_agent_def demo_workflow_def demo_failed_run_def opt_text_def)
  with run show ?thesis by blast
qed

theorem composed_agent_total_witness:
  "\<exists>result w'. agent_execute (composed_agent_engine \<lparr>dp_env = \<lparr>env_perf = Pair 0,
        env_now = Pair (me_created_at (demo_entry [] [])), env_uuid = Pair ''id''\<rparr>,
      dp_tools = (\<lambda>_. []), dp_providers = (\<lambda>_. [])\<rparr> (\<lambda>_. []) (\<lambda>_ _. 0)) demo_agent
      \<lparr>ac_workflow = demo_workflow_context\<rparr> ([], 0 :: nat) = (Inr result, w') \<and> check_agent_result result = Inr result"
  by (rule composed_agent_total)
    (auto simp: dispatcher_contained_def tool_lookup_def provider_get_def demo_agent_def demo_workflow_def
      demo_step_def tool_request_def exec_request_ok_def py_isspace_def Let_def)

end
