(* ===== verification/Text.thy ===== *)
theory Text
  imports Prelude
begin

text \<open>
  The string methods the plugin packages and the document formats use: \<open>split\<close> and
  \<open>partition\<close> at one character, \<open>isdigit\<close>, \<open>int\<close> of decimal digits, with the facts
  that make them inverse to \<open>join\<close> and \<open>str\<close>.
\<close>

section \<open>Splitting\<close>

text \<open>\<open>s.split(c)\<close> for a separator of one character.\<close>

fun split_on :: "char \<Rightarrow> string \<Rightarrow> string list" where
  "split_on c [] = [[]]"
| "split_on c (x # s) =
     (if x = c then [] # split_on c s
      else case split_on c s of p # ps \<Rightarrow> (x # p) # ps | [] \<Rightarrow> [[x]])"

lemma split_on_not_Nil [simp]: "split_on c s \<noteq> []"
  by (cases s) (auto split: list.splits)

lemma split_on_free: "c \<notin> set s \<Longrightarrow> split_on c s = [s]"
  by (induction s) auto

lemma split_on_append: "c \<notin> set p \<Longrightarrow> split_on c (p @ c # s) = p # split_on c s"
  by (induction p) auto

lemma split_on_parts: "p \<in> set (split_on c s) \<Longrightarrow> c \<notin> set p"
  by (induction s arbitrary: p) (auto split: if_splits list.splits)

lemma join_split_on: "join [c] (split_on c s) = s"
proof (induction s)
  case (Cons x s)
  obtain p ps where ps: "split_on c s = p # ps" by (cases "split_on c s") simp_all
  with Cons show ?case by (cases ps) (auto simp: ps)
qed simp

lemma split_on_join: "ps \<noteq> [] \<Longrightarrow> \<forall>p \<in> set ps. c \<notin> set p \<Longrightarrow> split_on c (join [c] ps) = ps"
  by (induction "[c]" ps rule: join.induct) (simp_all add: split_on_free split_on_append)

text \<open>\<open>s.partition(c)\<close>: the text before the first \<open>c\<close>, whether there is one, the text behind.\<close>

definition partition_at :: "char \<Rightarrow> string \<Rightarrow> string \<times> bool \<times> string" where
  "partition_at c s = (takeWhile (\<lambda>x. x \<noteq> c) s, c \<in> set s, tl (dropWhile (\<lambda>x. x \<noteq> c) s))"

lemma partition_at_append: "c \<notin> set p \<Longrightarrow> partition_at c (p @ c # s) = (p, True, s)"
proof -
  assume c: "c \<notin> set p"
  then have "takeWhile (\<lambda>x. x \<noteq> c) (p @ c # s) = p" "dropWhile (\<lambda>x. x \<noteq> c) (p @ c # s) = c # s"
    by (induction p) auto
  then show ?thesis by (simp add: partition_at_def)
qed

lemma partition_at_split: "partition_at c s = (p, b, q) \<Longrightarrow> s = p @ (if b then c # q else [])"
proof (induction s arbitrary: p)
  case (Cons x s)
  then show ?case by (cases "x = c") (auto simp: partition_at_def)
qed (simp add: partition_at_def)

section \<open>Decimal digits\<close>

text \<open>
  \<open>str.isdigit\<close> holds of the ASCII digits and of the superscripts two, three and one
  (U+00B2, U+00B3, U+00B9), which \<open>int\<close> does not read.
\<close>

definition ascii_digit :: "char \<Rightarrow> bool" where
  "ascii_digit c \<longleftrightarrow> 48 \<le> (of_char c :: nat) \<and> (of_char c :: nat) \<le> 57"

definition superscript_digit :: "char \<Rightarrow> bool" where
  "superscript_digit c \<longleftrightarrow> (of_char c :: nat) \<in> {178, 179, 185}"

definition isdigit :: "string \<Rightarrow> bool" where
  "isdigit s \<longleftrightarrow> s \<noteq> [] \<and> list_all (\<lambda>c. ascii_digit c \<or> superscript_digit c) s"

definition digits_value :: "string \<Rightarrow> nat" where
  "digits_value s = foldl (\<lambda>n c. 10 * n + (of_char c - 48)) 0 s"

text \<open>
  \<open>int(s)\<close> of a text that \<open>isdigit\<close> accepts: a superscript is no decimal digit, and the
  interpreter refuses to convert more than 4300 digits.
\<close>

definition max_int_digits :: nat where
  "max_int_digits = 4300"

definition int_of_digits :: "string \<Rightarrow> nat res" where
  "int_of_digits s =
     (if \<not> list_all ascii_digit s
      then Inl (Exn (ForeignException ''ValueError'') (''invalid literal for int() with base 10: '' @ repr_str s))
      else if max_int_digits < length s
      then Inl (Exn (ForeignException ''ValueError'')
             (''Exceeds the limit (4300 digits) for integer string conversion: value has ''
              @ nat_str (length s) @ '' digits; use sys.set_int_max_str_digits() to increase the limit''))
      else Inr (digits_value s))"

lemma of_char_char_of_lt: "n < 256 \<Longrightarrow> (of_char (char_of n) :: nat) = n"
  by simp

lemma of_digit_char [simp]: "(of_char (digit_char n) :: nat) = 48 + n mod 10"
proof -
  have "48 + n mod 10 < 256" using mod_less_divisor[of 10 n] by linarith
  then show ?thesis by (simp add: digit_char_def of_char_char_of_lt)
qed

lemma ascii_digit_char [simp]: "ascii_digit (digit_char n)"
  using mod_less_divisor[of 10 n] by (simp add: ascii_digit_def)

lemma nat_str_digits: "list_all ascii_digit (nat_str n)"
proof (induction n rule: nat_str.induct)
  case (1 n)
  then show ?case by (subst nat_str.simps) simp
qed

lemma nat_str_not_Nil [simp]: "nat_str n \<noteq> []"
  by (subst nat_str.simps) simp

lemma digits_value_snoc: "digits_value (s @ [c]) = 10 * digits_value s + (of_char c - 48)"
  by (simp add: digits_value_def)

lemma digits_value_nat_str [simp]: "digits_value (nat_str n) = n"
proof (induction n rule: nat_str.induct)
  case (1 n)
  show ?case
  proof (cases "n < 10")
    case True
    then show ?thesis by (subst nat_str.simps) (simp add: digits_value_def)
  next
    case False
    with 1 have "digits_value (nat_str (n div 10)) = n div 10" by simp
    with False show ?thesis by (subst nat_str.simps) (simp add: digits_value_snoc)
  qed
qed

lemma isdigit_nat_str: "isdigit (nat_str n)"
  using nat_str_digits[of n] by (auto simp: isdigit_def list_all_iff)

lemma int_of_nat_str: "length (nat_str n) \<le> max_int_digits \<Longrightarrow> int_of_digits (nat_str n) = Inr n"
  by (simp add: int_of_digits_def nat_str_digits)

lemma ascii_digit_no_space: "ascii_digit c \<Longrightarrow> \<not> py_isspace c"
  by (auto simp: ascii_digit_def py_isspace_def Let_def)

lemma ascii_digit_cases: "ascii_digit c \<Longrightarrow> c \<noteq> CHR ''.'' \<and> c \<noteq> CHR '':'' \<and> c \<noteq> CHR ''-''"
  by (auto simp: ascii_digit_def)

section \<open>Stripping\<close>

lemma strip_id:
  assumes "s \<noteq> []" and "\<not> py_isspace (hd s)" and "\<not> py_isspace (last s)"
  shows "strip s = s"
proof -
  have "dropWhile py_isspace s = s" using assms(1,2) by (cases s) simp_all
  moreover have "dropWhile py_isspace (rev s) = rev s" using assms(1,3) by (cases s rule: rev_cases) simp_all
  ultimately show ?thesis by (simp add: strip_def)
qed

end
