(* ===== verification/Plugins.thy ===== *)
theory Plugins
  imports Tools Text "HOL-Library.Product_Lexorder"
begin

text \<open>
  The plugin runtime (\<open>plugins/\<close>): versions, manifests and metadata with their checks, the
  registry and the loader. A plugin is an object of the consumer: its metadata and the four
  lifecycle hooks, each a computation over the world.
\<close>

section \<open>Versions\<close>

type_synonym version_triple = "nat \<times> nat \<times> nat"

definition version_error :: "string \<Rightarrow> string \<Rightarrow> exn" where
  "version_error field value = Exn PluginValidationError
     (field @ '' must be a MAJOR.MINOR.PATCH version string, got '' @ repr_str value @ ''.'')"

definition parse_version :: "string \<Rightarrow> string \<Rightarrow> version_triple res" where
  "parse_version value field =
     (let parts = split_on (CHR ''.'') (strip value) in
      if length parts \<noteq> 3 \<or> \<not> list_all isdigit parts then Inl (version_error field value)
      else rbind (int_of_digits (parts ! 0)) (\<lambda>major.
           rbind (int_of_digits (parts ! 1)) (\<lambda>minor.
           rbind (int_of_digits (parts ! 2)) (\<lambda>patch. Inr (major, minor, patch)))))"

definition version_text :: "version_triple \<Rightarrow> string" where
  "version_text v = (case v of (major, minor, patch) \<Rightarrow>
     join ''.'' [nat_str major, nat_str minor, nat_str patch])"

definition version_readable :: "version_triple \<Rightarrow> bool" where
  "version_readable v = (case v of (major, minor, patch) \<Rightarrow>
     list_all (\<lambda>n. length (nat_str n) \<le> max_int_digits) [major, minor, patch])"

lemma digits_no_dot: "list_all ascii_digit s \<Longrightarrow> CHR ''.'' \<notin> set s"
  by (auto simp: list_all_iff dest: ascii_digit_cases)

lemma strip_version_text: "strip (version_text v) = version_text v"
proof -
  obtain a b c where v: "v = (a, b, c)" by (cases v)
  have hd: "hd (nat_str a) \<in> set (nat_str a)" and last: "last (nat_str c) \<in> set (nat_str c)" by simp_all
  have "\<not> py_isspace (hd (nat_str a))" "\<not> py_isspace (last (nat_str c))"
    using nat_str_digits[of a] nat_str_digits[of c] hd last by (auto simp: list_all_iff ascii_digit_no_space)
  then show ?thesis by (intro strip_id) (simp_all add: v version_text_def)
qed

lemma split_version_text:
  "split_on (CHR ''.'') (version_text (a, b, c)) = [nat_str a, nat_str b, nat_str c]"
  unfolding version_text_def prod.case
  by (rule split_on_join) (auto simp: digits_no_dot nat_str_digits)

lemma parse_version_text: "version_readable v \<Longrightarrow> parse_version (version_text v) field = Inr v"
  by (cases v) (simp add: parse_version_def strip_version_text split_version_text isdigit_nat_str
      int_of_nat_str version_readable_def Let_def)

text \<open>Exactly what is accepted, and as what.\<close>

lemma parse_version_iff:
  "parse_version value field = Inr (a, b, c) \<longleftrightarrow>
    (\<exists>p q r. strip value = join ''.'' [p, q, r]
      \<and> list_all (\<lambda>s. s \<noteq> [] \<and> list_all ascii_digit s \<and> length s \<le> max_int_digits) [p, q, r]
      \<and> a = digits_value p \<and> b = digits_value q \<and> c = digits_value r)"
proof
  assume parsed: "parse_version value field = Inr (a, b, c)"
  then obtain p q r where parts: "split_on (CHR ''.'') (strip value) = [p, q, r]"
    by (auto simp: parse_version_def Let_def length_Suc_conv numeral_3_eq_3 split: if_splits)
  then have "strip value = join ''.'' [p, q, r]" using join_split_on[of "CHR ''.''" "strip value"] by simp
  moreover have "list_all (\<lambda>s. s \<noteq> [] \<and> list_all ascii_digit s \<and> length s \<le> max_int_digits) [p, q, r]
      \<and> a = digits_value p \<and> b = digits_value q \<and> c = digits_value r"
    using parsed by (auto simp: parse_version_def Let_def parts rbind_Inr_iff int_of_digits_def isdigit_def
        split: if_splits)
  ultimately show "\<exists>p q r. strip value = join ''.'' [p, q, r]
      \<and> list_all (\<lambda>s. s \<noteq> [] \<and> list_all ascii_digit s \<and> length s \<le> max_int_digits) [p, q, r]
      \<and> a = digits_value p \<and> b = digits_value q \<and> c = digits_value r" by blast
next
  assume "\<exists>p q r. strip value = join ''.'' [p, q, r]
      \<and> list_all (\<lambda>s. s \<noteq> [] \<and> list_all ascii_digit s \<and> length s \<le> max_int_digits) [p, q, r]
      \<and> a = digits_value p \<and> b = digits_value q \<and> c = digits_value r"
  then obtain p q r where parts: "strip value = join ''.'' [p, q, r]"
    and ok: "list_all (\<lambda>s. s \<noteq> [] \<and> list_all ascii_digit s \<and> length s \<le> max_int_digits) [p, q, r]"
    and abc: "a = digits_value p" "b = digits_value q" "c = digits_value r" by blast
  have "split_on (CHR ''.'') (strip value) = [p, q, r]"
    unfolding parts by (rule split_on_join) (use ok in \<open>auto simp: digits_no_dot\<close>)
  with ok abc show "parse_version value field = Inr (a, b, c)"
    by (auto simp: parse_version_def int_of_digits_def isdigit_def list_all_iff)
qed

lemma parse_version_field: "parse_version value f = Inr v \<Longrightarrow> parse_version value g = Inr v"
  by (auto simp: parse_version_def Let_def split: if_splits)

section \<open>Capabilities, metadata, manifests\<close>

text \<open>A description is passed on unchecked: a manifest file may give any document for it.\<close>

record plugin_capability =
  cb_name :: string
  cb_description :: pyval

definition check_plugin_capability :: "plugin_capability \<Rightarrow> plugin_capability res" where
  "check_plugin_capability c =
     (if blank (cb_name c) then Inl (Exn PluginValidationError ''PluginCapability.name must not be blank.'') else Inr c)"

text \<open>A set of capabilities hashes their descriptions.\<close>

definition hashable :: "pyval \<Rightarrow> bool" where
  "hashable v \<longleftrightarrow> (case v of PList _ \<Rightarrow> False | PDict _ \<Rightarrow> False | _ \<Rightarrow> True)"

fun unique_capabilities :: "plugin_capability list \<Rightarrow> plugin_capability list" where
  "unique_capabilities [] = []"
| "unique_capabilities (c # cs) = c # filter (\<lambda>d. \<not> (cb_name d = cb_name c
     \<and> py_eq (cb_description d) (cb_description c))) (unique_capabilities cs)"

definition capability_set :: "plugin_capability list \<Rightarrow> plugin_capability frozenset res" where
  "capability_set cs =
     (if list_all (\<lambda>c. hashable (cb_description c)) cs then Inr (unique_capabilities cs)
      else Inl (Exn (ForeignException ''TypeError'') ''unhashable type''))"

record plugin_metadata =
  pd_id :: string
  pd_name :: string
  pd_version :: string
  pd_description :: pyval
  pd_capabilities :: "plugin_capability frozenset"

definition check_plugin_metadata :: "plugin_metadata \<Rightarrow> plugin_metadata res" where
  "check_plugin_metadata m =
     (if blank (pd_id m) then Inl (Exn PluginValidationError ''PluginMetadata.id must not be blank.'')
      else if blank (pd_name m) then Inl (Exn PluginValidationError ''PluginMetadata.name must not be blank.'')
      else if blank (pd_version m) then Inl (Exn PluginValidationError ''PluginMetadata.version must not be blank.'')
      else Inr m)"

record plugin_manifest =
  mf_id :: string
  mf_name :: string
  mf_version :: string
  mf_description :: pyval
  mf_author :: string
  mf_capabilities :: "plugin_capability frozenset"
  mf_minimum :: string

definition check_plugin_manifest :: "plugin_manifest \<Rightarrow> plugin_manifest res" where
  "check_plugin_manifest m =
     (if blank (mf_id m) then Inl (Exn PluginValidationError ''PluginManifest.id must not be blank.'')
      else if blank (mf_name m) then Inl (Exn PluginValidationError ''PluginManifest.name must not be blank.'')
      else if blank (mf_author m) then Inl (Exn PluginValidationError ''PluginManifest.author must not be blank.'')
      else rbind (parse_version (mf_version m) ''PluginManifest.version'') (\<lambda>_.
           rbind (parse_version (mf_minimum m) ''PluginManifest.minimum_kernel_version'') (\<lambda>_. Inr m)))"

lemma check_plugin_manifest_iff:
  "check_plugin_manifest m = Inr m' \<longleftrightarrow> m' = m \<and> \<not> blank (mf_id m) \<and> \<not> blank (mf_name m) \<and> \<not> blank (mf_author m)
    \<and> (\<exists>v. parse_version (mf_version m) ''PluginManifest.version'' = Inr v)
    \<and> (\<exists>v. parse_version (mf_minimum m) ''PluginManifest.minimum_kernel_version'' = Inr v)"
  by (auto simp: check_plugin_manifest_def rbind_Inr_iff)

section \<open>Plugins and their registry\<close>

text \<open>\<open>PluginContext\<close> has the four fields of the other contexts.\<close>

record plugin_context =
  px_log_level :: string
  px_logger :: string
  px_runtime :: nat
  px_services :: nat

record 'w plugin =
  pg_metadata :: plugin_metadata
  pg_initialize :: "plugin_context \<Rightarrow> ('w, unit) py"
  pg_start :: "('w, unit) py"
  pg_stop :: "('w, unit) py"
  pg_dispose :: "('w, unit) py"

abbreviation plugin_id :: "'w plugin \<Rightarrow> string" where
  "plugin_id p \<equiv> pd_id (pg_metadata p)"

type_synonym 'w plugin_registry = "(string, 'w plugin) dict"

definition plugin_duplicate :: "string \<Rightarrow> exn" where
  "plugin_duplicate i = Exn PluginRegistrationError (''Plugin '' @ repr_str i @ '' is already registered.'')"

definition plugin_missing :: "string \<Rightarrow> exn" where
  "plugin_missing i = Exn PluginRegistrationError (''Plugin '' @ repr_str i @ '' is not registered.'')"

definition plugin_register :: "'w plugin \<Rightarrow> 'w plugin_registry \<Rightarrow> 'w plugin_registry res" where
  "plugin_register p r =
     (if has_key (plugin_id p) r then Inl (plugin_duplicate (plugin_id p))
      else Inr (AList.update (plugin_id p) p r))"

definition plugin_unregister :: "string \<Rightarrow> 'w plugin_registry \<Rightarrow> 'w plugin_registry res" where
  "plugin_unregister i r = (if has_key i r then Inr (AList.delete i r) else Inl (plugin_missing i))"

definition plugin_lookup :: "string \<Rightarrow> 'w plugin_registry \<Rightarrow> 'w plugin res" where
  "plugin_lookup i r = (case map_of r i of Some p \<Rightarrow> Inr p | None \<Rightarrow> Inl (plugin_missing i))"

definition plugin_exists :: "string \<Rightarrow> 'w plugin_registry \<Rightarrow> bool" where
  "plugin_exists i r = has_key i r"

definition plugin_enumerate :: "'w plugin_registry \<Rightarrow> plugin_metadata list" where
  "plugin_enumerate r = map (\<lambda>(_, p). pg_metadata p) r"

abbreviation plugin_registry_ok :: "'w plugin_registry \<Rightarrow> bool" where
  "plugin_registry_ok \<equiv> keyed_by plugin_id"

interpretation plugins: removable_dict_registry plugin_id plugin_register plugin_lookup plugin_exists
  plugin_duplicate plugin_missing plugin_unregister
  by unfold_locales
    (simp_all add: plugin_register_def plugin_lookup_def plugin_exists_def plugin_unregister_def)

lemma plugin_enumerate_ids: "plugin_registry_ok r \<Longrightarrow> map pd_id (plugin_enumerate r) = keys r"
  by (auto simp: plugin_enumerate_def keyed_by_def)

section \<open>The loader\<close>

record plugin_loader =
  pl_kernel_version :: string

definition new_plugin_loader :: "string option \<Rightarrow> plugin_loader" where
  "new_plugin_loader v = \<lparr>pl_kernel_version = (case v of Some s \<Rightarrow> s | None \<Rightarrow> kernel_version)\<rparr>"

definition check_compatibility :: "plugin_loader \<Rightarrow> plugin_manifest \<Rightarrow> unit res" where
  "check_compatibility L m =
     rbind (parse_version (mf_minimum m) ''PluginManifest.minimum_kernel_version'') (\<lambda>required.
     rbind (parse_version (pl_kernel_version L) ''kernel_version'') (\<lambda>running.
     if running < required
     then Inl (Exn PluginLoadError (''Plugin '' @ repr_str (mf_id m) @ '' requires kernel >= ''
            @ mf_minimum m @ '', but the running kernel is '' @ pl_kernel_version L @ ''.''))
     else Inr ()))"

definition plugin_load :: "plugin_loader \<Rightarrow> plugin_manifest \<Rightarrow> ('w, 'w plugin) py \<Rightarrow> ('w, 'w plugin) py" where
  "plugin_load L m construct_plugin =
     bnd (lift_res (check_compatibility L m)) (\<lambda>_.
     attempt construct_plugin
       (\<lambda>e. if exn_is_exception e
             then throw (Exn PluginLoadError (''Plugin '' @ repr_str (mf_id m) @ '' failed to instantiate: ''
                    @ exn_text e))
             else throw e)
       (\<lambda>p. if plugin_id p \<noteq> mf_id m
             then throw (Exn PluginLoadError (''Plugin instance id '' @ repr_str (plugin_id p)
                    @ '' does not match the manifest it was loaded from ('' @ repr_str (mf_id m) @ '').''))
             else ret p))"

lemma plugin_load_Inr:
  "plugin_load L m f w = (Inr p, w') \<longleftrightarrow> check_compatibility L m = Inr () \<and> f w = (Inr p, w') \<and> plugin_id p = mf_id m"
  by (auto simp: plugin_load_def bnd_def attempt_def split: sum.splits prod.splits)

lemma check_compatibility_Inr:
  "check_compatibility L m = Inr () \<longleftrightarrow> (\<exists>required running.
    parse_version (mf_minimum m) ''PluginManifest.minimum_kernel_version'' = Inr required
    \<and> parse_version (pl_kernel_version L) ''kernel_version'' = Inr running \<and> required \<le> running)"
  by (cases "parse_version (mf_minimum m) ''PluginManifest.minimum_kernel_version''";
      cases "parse_version (pl_kernel_version L) ''kernel_version''")
    (auto simp: check_compatibility_def dest: leD intro: leI)

section \<open>Properties\<close>

text \<open>Reading a version string: what is accepted is exactly three non-empty runs of at most 4300
  ASCII digits joined by dots, with white space around them, read as their decimal values; the
  canonical text of a triple reads back as the triple.\<close>

theorem version_roundtrip:
  "(parse_version value field = Inr (a, b, c) \<longleftrightarrow>
      (\<exists>p q r. strip value = join ''.'' [p, q, r]
        \<and> list_all (\<lambda>s. s \<noteq> [] \<and> list_all ascii_digit s \<and> length s \<le> max_int_digits) [p, q, r]
        \<and> a = digits_value p \<and> b = digits_value q \<and> c = digits_value r))
   \<and> (version_readable v \<longrightarrow> parse_version (version_text v) field = Inr v)"
  by (intro conjI impI parse_version_iff parse_version_text)

theorem version_roundtrip_witness:
  "parse_version ''1.20.3'' ''f'' = Inr (1, 20, 3)"
proof -
  have "version_readable (1, 20, 3)" by (simp add: version_readable_def max_int_digits_def nat_str.simps)
  moreover have "version_text (1, 20, 3) = ''1.20.3''"
    by code_simp
  ultimately show ?thesis
    using version_roundtrip[of "''1.20.3''" "''f''" 1 20 3 "(1, 20, 3)"] by metis
qed

text \<open>The check that decides whether the digits can be read is wider than the reading: a
  manifest whose version has a superscript digit passes the test the parser makes and raises
  \<open>ValueError\<close>, not the documented \<open>PluginValidationError\<close>.\<close>

theorem superscript_version_escapes:
  assumes "split_on (CHR ''.'') (strip value) = [p, q, r]" and "list_all isdigit [p, q, r]"
    and "\<not> list_all ascii_digit p"
  shows "\<exists>m. parse_version value field = Inl (Exn (ForeignException ''ValueError'') m)"
  using assms by (simp add: parse_version_def int_of_digits_def)

theorem superscript_version_escapes_witness:
  "\<exists>m. parse_version [CHR 0xB2, CHR ''.'', CHR ''0'', CHR ''.'', CHR ''0''] ''PluginManifest.version''
    = Inl (Exn (ForeignException ''ValueError'') m)"
  by (rule superscript_version_escapes[where p = "[CHR 0xB2]" and q = "''0''" and r = "''0''"])
    (simp_all add: strip_def py_isspace_def isdigit_def ascii_digit_def superscript_digit_def Let_def)

text \<open>C34 The loader: a plugin is returned exactly when the running kernel is at least the minimum the
  manifest names (compared as triples), the constructor gave it, and it carries the manifest's
  id; the constructor is not called for an incompatible manifest; with a manifest that passed
  its check and a readable kernel version everything raised inside \<open>Exception\<close> is a
  \<open>PluginLoadError\<close>.\<close>

theorem plugin_load_checked:
  assumes "check_plugin_manifest m = Inr m"
    and "parse_version (mf_minimum m) ''PluginManifest.minimum_kernel_version'' = Inr required"
    and "parse_version (pl_kernel_version L) ''kernel_version'' = Inr running"
  shows "(plugin_load L m f w = (Inr p, w') \<longleftrightarrow> required \<le> running \<and> f w = (Inr p, w') \<and> plugin_id p = mf_id m)
    \<and> (running < required \<longrightarrow> (\<exists>e. plugin_load L m f w = (Inl e, w) \<and> exn_isa PluginLoadError e))
    \<and> (plugin_load L m f w = (Inl e, w') \<longrightarrow> exn_is_exception e \<longrightarrow> exn_isa PluginLoadError e)"
proof (intro conjI impI)
  show "plugin_load L m f w = (Inr p, w') \<longleftrightarrow> required \<le> running \<and> f w = (Inr p, w') \<and> plugin_id p = mf_id m"
    using assms(2,3) by (simp add: plugin_load_Inr check_compatibility_Inr)
  have compat: "check_compatibility L m = (if running < required
      then Inl (Exn PluginLoadError (''Plugin '' @ repr_str (mf_id m) @ '' requires kernel >= ''
            @ mf_minimum m @ '', but the running kernel is '' @ pl_kernel_version L @ ''.'')) else Inr ())"
    using assms(2,3) by (simp add: check_compatibility_def)
  then show "\<exists>e. plugin_load L m f w = (Inl e, w) \<and> exn_isa PluginLoadError e" if "running < required"
    using that by (simp add: plugin_load_def bnd_def)
  show "exn_isa PluginLoadError e" if "plugin_load L m f w = (Inl e, w')" "exn_is_exception e"
    using that compat by (auto simp: plugin_load_def bnd_def attempt_def split: if_splits sum.splits prod.splits)
qed

definition demo_plugin_context :: plugin_context where
  "demo_plugin_context = \<lparr>px_log_level = ''INFO'', px_logger = ''mellivor_kernel.p'', px_runtime = 0, px_services = 1\<rparr>"

definition demo_manifest :: plugin_manifest where
  "demo_manifest = \<lparr>mf_id = ''p'', mf_name = ''P'', mf_version = ''1.0.0'', mf_description = PStr [], mf_author = ''a'',
     mf_capabilities = [], mf_minimum = ''1.10.0''\<rparr>"

lemma demo_versions:
  "parse_version ''1.0.0'' f = Inr (1, 0, 0)" "parse_version ''1.10.0'' f = Inr (1, 10, 0)"
  "parse_version ''1.3.0'' f = Inr (1, 3, 0)"
  by (simp_all add: parse_version_def strip_def py_isspace_def isdigit_def ascii_digit_def int_of_digits_def
      max_int_digits_def digits_value_def Let_def)

theorem plugin_load_checked_witness:
  "\<exists>e. plugin_load (new_plugin_loader None) demo_manifest (throw (Exn KernelError [])) (0 :: nat) = (Inl e, 0)
    \<and> exn_isa PluginLoadError e"
proof -
  have "check_plugin_manifest demo_manifest = Inr demo_manifest"
    by (simp add: check_plugin_manifest_def demo_manifest_def demo_versions py_isspace_def Let_def)
  from plugin_load_checked[OF this, of "(1, 10, 0)" "new_plugin_loader None" "(1, 3, 0)"
      "throw (Exn KernelError [])" "0 :: nat"]
  show ?thesis by (simp add: demo_manifest_def demo_versions new_plugin_loader_def kernel_version_def)
qed

end
