(* ===== verification/Plugin_Lifecycle.thy ===== *)
theory Plugin_Lifecycle
  imports Plugins
begin

text \<open>
  \<open>PluginLifecycle\<close> (\<open>plugins/lifecycle.py\<close>): the guarded transitions of one plugin, over
  the state of the wrapper and the world. The protocol a plugin may rely on is stated on the
  sequence of hook calls it sees, and the wrapper is shown to implement it.
\<close>

section \<open>The wrapper\<close>

datatype lifecycle_state = REGISTERED | INITIALIZED | RUNNING | STOPPED | DISPOSED | FAILED

fun lifecycle_state_value :: "lifecycle_state \<Rightarrow> string" where
  "lifecycle_state_value REGISTERED = ''registered''"
| "lifecycle_state_value INITIALIZED = ''initialized''"
| "lifecycle_state_value RUNNING = ''running''"
| "lifecycle_state_value STOPPED = ''stopped''"
| "lifecycle_state_value DISPOSED = ''disposed''"
| "lifecycle_state_value FAILED = ''failed''"

record 'w lifecycle =
  lc_plugin :: "'w plugin"
  lc_state :: lifecycle_state

definition new_lifecycle :: "'w plugin \<Rightarrow> 'w lifecycle" where
  "new_lifecycle p = \<lparr>lc_plugin = p, lc_state = REGISTERED\<rparr>"

definition lifecycle_require ::
  "lifecycle_state list \<Rightarrow> string \<Rightarrow> ('w lifecycle \<times> 'w, unit) py" where
  "lifecycle_require allowed action = (\<lambda>(l, w).
     if lc_state l \<notin> set allowed
     then (Inl (Exn PluginLifecycleError (''Cannot '' @ action @ '' plugin '' @ repr_str (plugin_id (lc_plugin l))
            @ '' from state '' @ repr_str (lifecycle_state_value (lc_state l)) @ ''.'')), l, w)
     else (Inr (), l, w))"

text \<open>\<open>_run\<close>: the hook moves the world; what it raises outside \<open>Exception\<close> leaves the state.\<close>

definition lifecycle_run ::
  "('w plugin \<Rightarrow> ('w, unit) py) \<Rightarrow> lifecycle_state \<Rightarrow> ('w lifecycle \<times> 'w, unit) py" where
  "lifecycle_run hook next_state = (\<lambda>(l, w).
     case hook (lc_plugin l) w of
       (Inr _, w') \<Rightarrow> (Inr (), l\<lparr>lc_state := next_state\<rparr>, w')
     | (Inl e, w') \<Rightarrow>
         if exn_is_exception e
         then (Inl (Exn PluginLifecycleError (''Plugin '' @ repr_str (plugin_id (lc_plugin l))
                @ '' failed during lifecycle transition to '' @ repr_str (lifecycle_state_value next_state)
                @ '': '' @ exn_text e)), l\<lparr>lc_state := FAILED\<rparr>, w')
         else (Inl e, l, w'))"

definition lifecycle_initialize :: "plugin_context \<Rightarrow> ('w lifecycle \<times> 'w, unit) py" where
  "lifecycle_initialize ctx = andthen (lifecycle_require [REGISTERED] ''initialize'')
     (lifecycle_run (\<lambda>p. pg_initialize p ctx) INITIALIZED)"

definition lifecycle_start :: "('w lifecycle \<times> 'w, unit) py" where
  "lifecycle_start = andthen (lifecycle_require [INITIALIZED, STOPPED] ''start'') (lifecycle_run pg_start RUNNING)"

definition lifecycle_stop :: "('w lifecycle \<times> 'w, unit) py" where
  "lifecycle_stop = andthen (lifecycle_require [RUNNING] ''stop'') (lifecycle_run pg_stop STOPPED)"

definition lifecycle_dispose :: "('w lifecycle \<times> 'w, unit) py" where
  "lifecycle_dispose = (\<lambda>(l, w).
     if lc_state l = DISPOSED then (Inr (), l, w)
     else andthen (lifecycle_require [REGISTERED, INITIALIZED, STOPPED, FAILED] ''dispose'')
            (lifecycle_run pg_dispose DISPOSED) (l, w))"

section \<open>The protocol\<close>

text \<open>
  A plugin sees a sequence of hook calls, each of which returns or raises. The last one decides
  what may come next: \<open>initialize\<close> only first, \<open>start\<close> after \<open>initialize\<close> or \<open>stop\<close>
  returned, \<open>stop\<close> after \<open>start\<close> returned, and \<open>dispose\<close> at any time except while
  running, until it returned.
\<close>

datatype hook = Initialize | Start | Stop | Dispose

type_synonym hook_log = "(hook \<times> bool) list"

fun may_follow :: "(hook \<times> bool) option \<Rightarrow> hook \<Rightarrow> bool" where
  "may_follow before Initialize = (before = None)"
| "may_follow before Start = (before = Some (Initialize, True) \<or> before = Some (Stop, True))"
| "may_follow before Stop = (before = Some (Start, True))"
| "may_follow before Dispose = (before \<noteq> Some (Start, True) \<and> before \<noteq> Some (Dispose, True))"

definition last_call :: "hook_log \<Rightarrow> (hook \<times> bool) option" where
  "last_call seen = (if seen = [] then None else Some (last seen))"

inductive protocol :: "hook_log \<Rightarrow> bool" where
  nothing: "protocol []"
| call: "protocol seen \<Longrightarrow> may_follow (last_call seen) h \<Longrightarrow> protocol (seen @ [(h, b)])"

inductive_cases protocol_snocE: "protocol (seen @ [(h, b)])"

text \<open>The state the wrapper is in after a log.\<close>

definition state_after :: "hook_log \<Rightarrow> lifecycle_state" where
  "state_after seen =
     (case last_call seen of
        None \<Rightarrow> REGISTERED
      | Some (h, b) \<Rightarrow> if \<not> b then FAILED
          else (case h of Initialize \<Rightarrow> INITIALIZED | Start \<Rightarrow> RUNNING | Stop \<Rightarrow> STOPPED | Dispose \<Rightarrow> DISPOSED))"

text \<open>Any plugin, with its hook calls logged in front of the world it works on.\<close>

definition logged :: "hook \<Rightarrow> ('u, unit) py \<Rightarrow> (hook_log \<times> 'u, unit) py" where
  "logged h m = (\<lambda>(seen, u). case m u of (x, u') \<Rightarrow> (x, seen @ [(h, x = Inr ())], u'))"

definition observed :: "'u plugin \<Rightarrow> (hook_log \<times> 'u) plugin" where
  "observed p = \<lparr>pg_metadata = pg_metadata p, pg_initialize = (\<lambda>ctx. logged Initialize (pg_initialize p ctx)),
     pg_start = logged Start (pg_start p), pg_stop = logged Stop (pg_stop p),
     pg_dispose = logged Dispose (pg_dispose p)\<rparr>"

text \<open>The calls the owner of a wrapper makes, in any order, going on after an error.\<close>

datatype lifecycle_call = CallInitialize plugin_context | CallStart | CallStop | CallDispose

fun lifecycle_do :: "lifecycle_call \<Rightarrow> ('w lifecycle \<times> 'w, unit) py" where
  "lifecycle_do (CallInitialize ctx) = lifecycle_initialize ctx"
| "lifecycle_do CallStart = lifecycle_start"
| "lifecycle_do CallStop = lifecycle_stop"
| "lifecycle_do CallDispose = lifecycle_dispose"

fun lifecycle_calls :: "lifecycle_call list \<Rightarrow> 'w lifecycle \<times> 'w \<Rightarrow> 'w lifecycle \<times> 'w" where
  "lifecycle_calls [] s = s"
| "lifecycle_calls (c # cs) s = lifecycle_calls cs (snd (lifecycle_do c s))"

text \<open>A plugin whose hooks raise nothing outside \<open>Exception\<close>.\<close>

definition hook_contained :: "('u, unit) py \<Rightarrow> bool" where
  "hook_contained m \<longleftrightarrow> (\<forall>u e u'. m u = (Inl e, u') \<longrightarrow> exn_is_exception e)"

definition plugin_contained :: "'u plugin \<Rightarrow> bool" where
  "plugin_contained p \<longleftrightarrow> (\<forall>ctx. hook_contained (pg_initialize p ctx)) \<and> hook_contained (pg_start p)
     \<and> hook_contained (pg_stop p) \<and> hook_contained (pg_dispose p)"

section \<open>The wrapper keeps the protocol\<close>

definition lifecycle_inv :: "'u plugin \<Rightarrow> (hook_log \<times> 'u) lifecycle \<times> (hook_log \<times> 'u) \<Rightarrow> bool" where
  "lifecycle_inv p s \<longleftrightarrow> (case s of (l, seen, u) \<Rightarrow>
     lc_plugin l = observed p \<and> protocol seen \<and> lc_state l = state_after seen)"

lemma last_call_snoc [simp]: "last_call (seen @ [c]) = Some c"
  by (simp add: last_call_def)

lemma state_after_snoc:
  "state_after (seen @ [(h, b)]) = (if \<not> b then FAILED
     else (case h of Initialize \<Rightarrow> INITIALIZED | Start \<Rightarrow> RUNNING | Stop \<Rightarrow> STOPPED | Dispose \<Rightarrow> DISPOSED))"
  by (simp add: state_after_def)

text \<open>Each guard, read on the log.\<close>

lemma state_after_guards:
  "state_after seen = REGISTERED \<longleftrightarrow> last_call seen = None"
  "state_after seen = INITIALIZED \<longleftrightarrow> last_call seen = Some (Initialize, True)"
  "state_after seen = RUNNING \<longleftrightarrow> last_call seen = Some (Start, True)"
  "state_after seen = STOPPED \<longleftrightarrow> last_call seen = Some (Stop, True)"
  "state_after seen = DISPOSED \<longleftrightarrow> last_call seen = Some (Dispose, True)"
  by (auto simp: state_after_def split: option.splits hook.splits)

lemma lifecycle_run_inv:
  assumes "lifecycle_inv p (l, seen, u)" and "hook (observed p) = logged h m" and "hook_contained m"
    and "may_follow (last_call seen) h"
    and "state_after (seen @ [(h, True)]) = next_state"
    and "lifecycle_run hook next_state (l, seen, u) = (x, s')"
  shows "lifecycle_inv p s'"
proof -
  obtain y u' where y: "m u = (y, u')" by fastforce
  have l: "lc_plugin l = observed p" "protocol seen" using assms(1) by (simp_all add: lifecycle_inv_def)
  have hook: "hook (lc_plugin l) (seen, u) = (y, seen @ [(h, y = Inr ())], u')"
    unfolding l(1) assms(2) by (simp add: logged_def y)
  show ?thesis
  proof (cases y)
    case (Inl e)
    then have "exn_is_exception e" using assms(3) y by (auto simp: hook_contained_def)
    with Inl hook assms(6) have "s' = (l\<lparr>lc_state := FAILED\<rparr>, seen @ [(h, False)], u')"
      by (simp add: lifecycle_run_def)
    with l protocol.call[OF l(2) assms(4)] show ?thesis by (simp add: lifecycle_inv_def state_after_snoc)
  next
    case (Inr r)
    with hook assms(6) have "s' = (l\<lparr>lc_state := next_state\<rparr>, seen @ [(h, True)], u')"
      by (simp add: lifecycle_run_def)
    with l protocol.call[OF l(2) assms(4)] assms(5) show ?thesis by (simp add: lifecycle_inv_def)
  qed
qed

lemma guarded_inv:
  assumes "lifecycle_inv p (l, seen, u)" and "hook (observed p) = logged h m" and "hook_contained m"
    and "lc_state l \<in> set allowed \<Longrightarrow> may_follow (last_call seen) h"
    and "state_after (seen @ [(h, True)]) = next_state"
    and "andthen (lifecycle_require allowed action) (lifecycle_run hook next_state) (l, seen, u) = (x, s')"
  shows "lifecycle_inv p s'"
proof (cases "lc_state l \<in> set allowed")
  case True
  then have "lifecycle_run hook next_state (l, seen, u) = (x, s')"
    using assms(6) by (simp add: andthen_def bnd_def lifecycle_require_def)
  from lifecycle_run_inv[OF assms(1-3) assms(4)[OF True] assms(5) this] show ?thesis .
next
  case False
  then have "s' = (l, seen, u)" using assms(6) by (simp add: andthen_def bnd_def lifecycle_require_def)
  with assms(1) show ?thesis by simp
qed

lemma lifecycle_do_inv:
  assumes "plugin_contained p" and "lifecycle_inv p s"
  shows "lifecycle_inv p (snd (lifecycle_do c s))"
proof -
  obtain l seen u where s: "s = (l, seen, u)" by (cases s) auto
  have state: "lc_state l = state_after seen" using assms(2) by (simp add: lifecycle_inv_def s)
  note inv = assms(2)[unfolded s]
  obtain x s' where r: "lifecycle_do c s = (x, s')" by (cases "lifecycle_do c s")
  have contained: "hook_contained (pg_initialize p ctx)" "hook_contained (pg_start p)"
    "hook_contained (pg_stop p)" "hook_contained (pg_dispose p)" for ctx
    using assms(1) by (simp_all add: plugin_contained_def)
  have "lifecycle_inv p s'"
  proof (cases c)
    case (CallInitialize ctx)
    show ?thesis
      by (rule guarded_inv[where h = Initialize, OF inv _ contained(1) _ _ r[unfolded CallInitialize s lifecycle_do.simps lifecycle_initialize_def]])
        (simp_all add: observed_def state state_after_guards state_after_snoc)
  next
    case CallStart
    show ?thesis
      by (rule guarded_inv[where h = Start, OF inv _ contained(2) _ _ r[unfolded CallStart s lifecycle_do.simps lifecycle_start_def]])
        (auto simp: observed_def state state_after_guards state_after_snoc)
  next
    case CallStop
    show ?thesis
      by (rule guarded_inv[where h = Stop, OF inv _ contained(3) _ _ r[unfolded CallStop s lifecycle_do.simps lifecycle_stop_def]])
        (simp_all add: observed_def state state_after_guards state_after_snoc)
  next
    case CallDispose
    show ?thesis
    proof (cases "lc_state l = DISPOSED")
      case True
      with r have "s' = s" by (simp add: CallDispose s lifecycle_dispose_def)
      with assms(2) show ?thesis by simp
    next
      case False
      with r have run: "andthen (lifecycle_require [REGISTERED, INITIALIZED, STOPPED, FAILED] ''dispose'')
          (lifecycle_run pg_dispose DISPOSED) (l, seen, u) = (x, s')"
        by (simp add: CallDispose s lifecycle_dispose_def)
      have "may_follow (last_call seen) Dispose" if "lc_state l \<in> set [REGISTERED, INITIALIZED, STOPPED, FAILED]"
        using that False state state_after_guards(3,5)[of seen] by auto
      then show ?thesis
        by (intro guarded_inv[where h = Dispose, OF inv _ contained(4) _ _ run])
          (simp_all add: observed_def state_after_snoc)
    qed
  qed
  with r show ?thesis by simp
qed

lemma lifecycle_calls_inv:
  "plugin_contained p \<Longrightarrow> lifecycle_inv p s \<Longrightarrow> lifecycle_inv p (lifecycle_calls cs s)"
  by (induction cs s rule: lifecycle_calls.induct) (simp_all add: lifecycle_do_inv)

lemma lifecycle_inv_new: "lifecycle_inv p (new_lifecycle (observed p), [], u)"
  by (simp add: lifecycle_inv_def new_lifecycle_def protocol.nothing state_after_def last_call_def)

lemma protocol_append: "protocol (seen @ seen') \<Longrightarrow> protocol seen"
proof (induction seen' rule: rev_induct)
  case (snoc c seen')
  obtain h b where "c = (h, b)" by (cases c)
  with snoc.prems have "protocol ((seen @ seen') @ [(h, b)])" by simp
  then have "protocol (seen @ seen')" by (rule protocol_snocE) simp
  then show ?case by (rule snoc.IH)
qed simp

lemma protocol_split: "protocol (pre @ (h, b) # post) \<Longrightarrow> may_follow (last_call pre) h"
proof -
  assume "protocol (pre @ (h, b) # post)"
  then have "protocol (pre @ [(h, b)])" using protocol_append[of "pre @ [(h, b)]" post] by simp
  then show ?thesis by (rule protocol_snocE) simp
qed

section \<open>Properties\<close>

text \<open>C25 Whatever calls the owner makes on a lifecycle, in whatever order, the plugin sees only the
  protocol: each hook call is one that may follow the hook call before it, nothing follows a
  \<open>dispose\<close> that returned, and the state of the wrapper is the one its log stands for.\<close>

theorem lifecycle_protocol:
  assumes "plugin_contained p"
    and "lifecycle_calls cs (new_lifecycle (observed p), [], u) = (l, seen, u')"
  shows "lc_state l = state_after seen
    \<and> (\<forall>pre h b post. seen = pre @ (h, b) # post \<longrightarrow> may_follow (last_call pre) h)
    \<and> (\<forall>pre post. seen = pre @ (Dispose, True) # post \<longrightarrow> post = [])"
proof -
  have inv: "lifecycle_inv p (l, seen, u')"
    using lifecycle_calls_inv[OF assms(1) lifecycle_inv_new, of cs u] assms(2) by simp
  then have seen: "protocol seen" and state: "lc_state l = state_after seen" by (simp_all add: lifecycle_inv_def)
  have "post = []" if "seen = pre @ (Dispose, True) # post" for pre post
  proof (rule ccontr)
    assume "post \<noteq> []"
    then obtain h b rest where "post = (h, b) # rest" by (cases post) auto
    with seen that protocol_split[of "pre @ [(Dispose, True)]" h b rest] show False by (cases h) simp_all
  qed
  with seen state protocol_split show ?thesis by blast
qed

definition demo_plugin :: "string \<Rightarrow> 'w plugin" where
  "demo_plugin i = \<lparr>pg_metadata = \<lparr>pd_id = i, pd_name = i, pd_version = ''1.0.0'', pd_description = PStr [],
       pd_capabilities = []\<rparr>,
     pg_initialize = (\<lambda>_. ret ()), pg_start = ret (), pg_stop = ret (), pg_dispose = ret ()\<rparr>"

lemma demo_plugin_contained: "plugin_contained (demo_plugin i)"
  by (simp add: plugin_contained_def hook_contained_def demo_plugin_def)

theorem lifecycle_protocol_witness:
  "\<exists>l seen. lifecycle_calls [CallStart, CallInitialize demo_plugin_context, CallStart, CallDispose, CallStop, CallDispose]
      (new_lifecycle (observed (demo_plugin ''p'')), [], ()) = (l, seen, ()) \<and> lc_state l = state_after seen"
proof -
  let ?s = "lifecycle_calls [CallStart, CallInitialize demo_plugin_context, CallStart, CallDispose, CallStop, CallDispose]
      (new_lifecycle (observed (demo_plugin ''p'')), [], ())"
  obtain l seen u where run: "?s = (l, seen, u)" by (rule prod_cases3[of ?s])
  from lifecycle_protocol[OF demo_plugin_contained run] run show ?thesis by auto
qed

end
