(* ===== verification/Bootstrap.thy ===== *)
theory Bootstrap
  imports Execution Container
begin

text \<open>
  Configuration (\<open>config/\<close>) read from environment variables, and the bootstrap sequence
  (\<open>bootstrap/\<close>) that assembles container, registries and kernel and starts it.
\<close>

section \<open>Configuration\<close>

datatype environment = DEVELOPMENT | TEST | PRODUCTION

fun environment_value :: "environment \<Rightarrow> string" where
  "environment_value DEVELOPMENT = ''development''"
| "environment_value TEST = ''test''"
| "environment_value PRODUCTION = ''production''"

record kernel_config =
  kc_environment :: environment
  kc_log_level :: string
  kc_debug :: bool

definition default_config :: kernel_config where
  "default_config = \<lparr>kc_environment = DEVELOPMENT, kc_log_level = ''INFO'', kc_debug = False\<rparr>"

definition check_kernel_config :: "kernel_config \<Rightarrow> kernel_config res" where
  "check_kernel_config c =
     (if has_key (kc_log_level c) level_names then Inr c
      else Inl (Exn ConfigurationError (''Invalid log_level '' @ repr_str (kc_log_level c)
             @ ''; expected one of: '' @ valid_level_text @ ''.'')))"

text \<open>
  \<open>str.lower\<close> and \<open>str.upper\<close> on the code points modelled. Sharp s becomes two letters;
  the two letters whose capital lies beyond U+00FF are left, which no level name contains.
\<close>

definition lower_char :: "char \<Rightarrow> char" where
  "lower_char c = (let n = of_char c :: nat in
     if 65 \<le> n \<and> n \<le> 90 \<or> 192 \<le> n \<and> n \<le> 222 \<and> n \<noteq> 215 then char_of (n + 32) else c)"

definition upper_char :: "char \<Rightarrow> string" where
  "upper_char c = (let n = of_char c :: nat in
     if n = 223 then ''SS''
     else if 97 \<le> n \<and> n \<le> 122 \<or> 224 \<le> n \<and> n \<le> 254 \<and> n \<noteq> 247 then [char_of (n - 32)] else [c])"

definition lower :: "string \<Rightarrow> string" where
  "lower s = map lower_char s"

definition upper :: "string \<Rightarrow> string" where
  "upper s = concat (map upper_char s)"

definition env_var_prefix :: string where
  "env_var_prefix = ''MELLIVOR_''"

definition true_values :: "string list" where
  "true_values = [''1'', ''true'', ''yes'', ''on'']"

definition false_values :: "string list" where
  "false_values = [''0'', ''false'', ''no'', ''off'']"

definition parse_environment :: "string \<Rightarrow> environment res" where
  "parse_environment raw =
     (case find (\<lambda>e. environment_value e = lower (strip raw)) [DEVELOPMENT, TEST, PRODUCTION] of
        Some e \<Rightarrow> Inr e
      | None \<Rightarrow> Inl (Exn ConfigurationError (''Invalid '' @ env_var_prefix @ ''ENVIRONMENT value '' @ repr_str raw
          @ ''; expected one of: '' @ join '', '' (map environment_value [DEVELOPMENT, TEST, PRODUCTION]) @ ''.'')))"

definition parse_bool :: "string \<Rightarrow> string \<Rightarrow> bool res" where
  "parse_bool raw variable =
     (let normalized = lower (strip raw) in
      if normalized \<in> set true_values then Inr True
      else if normalized \<in> set false_values then Inr False
      else Inl (Exn ConfigurationError (''Invalid '' @ variable @ '' value '' @ repr_str raw
             @ ''; expected one of: '' @ join '', '' (sort (true_values @ false_values)) @ ''.'')))"

definition load_config :: "(string, string) dict \<Rightarrow> kernel_config res" where
  "load_config env =
     rbind (case map_of env (env_var_prefix @ ''ENVIRONMENT'') of
              Some raw \<Rightarrow> parse_environment raw | None \<Rightarrow> Inr (kc_environment default_config)) (\<lambda>environment.
     let log_level = (case map_of env (env_var_prefix @ ''LOG_LEVEL'') of
              Some raw \<Rightarrow> upper (strip raw) | None \<Rightarrow> kc_log_level default_config) in
     rbind (case map_of env (env_var_prefix @ ''DEBUG'') of
              Some raw \<Rightarrow> parse_bool raw (env_var_prefix @ ''DEBUG'') | None \<Rightarrow> Inr (kc_debug default_config)) (\<lambda>debug.
     check_kernel_config \<lparr>kc_environment = environment, kc_log_level = log_level, kc_debug = debug\<rparr>))"

section \<open>The objects bootstrap works on\<close>

text \<open>
  The instances bootstrap registers as services, and those an application adds. Objects given
  by the caller are shared with it, so what a failed bootstrap did to them stays done: the
  state holds them as they are after the call. \<open>get_logger\<close> prefixes a name.
\<close>

datatype service = ConfigService kernel_config | ProviderRegistryService | ToolRegistryService | ExtraService string

record 'w boot_state =
  bs_container :: "service container"
  bs_providers :: "'w provider_registry"
  bs_tools :: "'w tool_registry"
  bs_kernel :: "kernel option"
  bs_logger :: root_logger

definition service_type_name :: "string \<Rightarrow> string" where
  "service_type_name path = ''<class '' @ [CHR 0x27] @ ''mellivor_kernel.'' @ path @ [CHR 0x27] @ ''>''"

definition default_services :: "kernel_config \<Rightarrow> (string \<times> service) list" where
  "default_services config =
     [(service_type_name ''config.settings.KernelConfig'', ConfigService config),
      (service_type_name ''providers.registry.ProviderRegistry'', ProviderRegistryService),
      (service_type_name ''tools.registry.ToolRegistry'', ToolRegistryService)]"

definition register_services :: "(string \<times> 's) list \<Rightarrow> ('s container, unit) py" where
  "register_services = register_all (\<lambda>(t, i). register_instance t i)"

text \<open>Steps of the sequence on their part of the state.\<close>

definition on_tools :: "('w tool_registry, unit) py \<Rightarrow> ('w boot_state, unit) py" where
  "on_tools m = (\<lambda>s. case m (bs_tools s) of (r, t) \<Rightarrow> (r, s\<lparr>bs_tools := t\<rparr>))"

definition on_container :: "(service container, unit) py \<Rightarrow> ('w boot_state, unit) py" where
  "on_container m = (\<lambda>s. case m (bs_container s) of (r, c) \<Rightarrow> (r, s\<lparr>bs_container := c\<rparr>))"

definition start_kernel :: "kernel_config \<Rightarrow> ('w boot_state, unit) py" where
  "start_kernel config = (\<lambda>s.
     case kernel_start (new_kernel (kc_log_level config), bs_logger s) of
       (r, k, lg) \<Rightarrow> (r, s\<lparr>bs_kernel := Some k, bs_logger := lg\<rparr>))"

definition builtin_tools :: "(nat \<Rightarrow> 'w \<Rightarrow> kernel) \<Rightarrow> 'w tool list" where
  "builtin_tools kernel_at = [echo_tool, health_check_tool kernel_at, version_tool]"

text \<open>\<open>RuntimeContext\<close>: the configuration; the other fields are the objects of the state.\<close>

record runtime_context =
  rc_configuration :: kernel_config

definition bootstrap_steps ::
  "(nat \<Rightarrow> 'w \<Rightarrow> kernel) \<Rightarrow> kernel_config \<Rightarrow> (string, service) dict \<Rightarrow> bool \<Rightarrow> ('w boot_state, unit) py" where
  "bootstrap_steps kernel_at config extra builtin =
     andthen (if builtin then on_tools (register_all tool_register (builtin_tools kernel_at)) else ret ())
     (andthen (on_container (register_services (default_services config)))
     (andthen (on_container (register_services extra))
     (start_kernel config)))"

definition bootstrap_run ::
  "(nat \<Rightarrow> 'w \<Rightarrow> kernel) \<Rightarrow> kernel_config \<Rightarrow> (string, service) dict \<Rightarrow> bool
     \<Rightarrow> ('w boot_state, runtime_context) py" where
  "bootstrap_run kernel_at config extra builtin =
     attempt (bootstrap_steps kernel_at config extra builtin)
       (\<lambda>e. if exn_isa KernelError e then throw (Exn BootstrapError (''Kernel bootstrap failed: '' @ exn_text e))
             else throw e)
       (\<lambda>_. ret \<lparr>rc_configuration = config\<rparr>)"

definition runtime_state :: "'w boot_state \<Rightarrow> kernel_state option" where
  "runtime_state s = map_option k_state (bs_kernel s)"

definition runtime_health :: "'w boot_state \<Rightarrow> health_status option" where
  "runtime_health s = map_option kernel_health (bs_kernel s)"

definition get_logger :: "string \<Rightarrow> string" where
  "get_logger n = ''mellivor_kernel.'' @ n"

text \<open>Contexts name kernel and container by their identities.\<close>

definition runtime_tool_context :: "runtime_context \<Rightarrow> nat \<Rightarrow> nat \<Rightarrow> string \<Rightarrow> tool_context" where
  "runtime_tool_context rc kernel_obj container_obj logger_name =
     \<lparr>tc_log_level = kc_log_level (rc_configuration rc), tc_logger = get_logger logger_name,
      tc_runtime = kernel_obj, tc_services = container_obj\<rparr>"

definition runtime_execution_context :: "runtime_context \<Rightarrow> nat \<Rightarrow> nat \<Rightarrow> string \<Rightarrow> exec_context" where
  "runtime_execution_context rc kernel_obj container_obj logger_name =
     \<lparr>xc_log_level = kc_log_level (rc_configuration rc), xc_logger = get_logger logger_name,
      xc_runtime = kernel_obj, xc_services = container_obj\<rparr>"

section \<open>The builder\<close>

record 'w bootstrap_builder =
  bb_config :: kernel_config
  bb_container :: "service container option"
  bb_providers :: "'w provider_registry option"
  bb_tools :: "'w tool_registry option"
  bb_extra :: "(string, service) dict"
  bb_builtin :: bool

definition new_bootstrap_builder :: "kernel_config \<Rightarrow> 'w bootstrap_builder" where
  "new_bootstrap_builder config = \<lparr>bb_config = config, bb_container = None, bb_providers = None,
     bb_tools = None, bb_extra = [], bb_builtin = False\<rparr>"

definition with_container :: "service container \<Rightarrow> 'w bootstrap_builder \<Rightarrow> 'w bootstrap_builder" where
  "with_container c b = b\<lparr>bb_container := Some c\<rparr>"

definition with_provider_registry :: "'w provider_registry \<Rightarrow> 'w bootstrap_builder \<Rightarrow> 'w bootstrap_builder" where
  "with_provider_registry r b = b\<lparr>bb_providers := Some r\<rparr>"

definition with_tool_registry :: "'w tool_registry \<Rightarrow> 'w bootstrap_builder \<Rightarrow> 'w bootstrap_builder" where
  "with_tool_registry r b = b\<lparr>bb_tools := Some r\<rparr>"

definition with_service :: "string \<Rightarrow> service \<Rightarrow> 'w bootstrap_builder \<Rightarrow> 'w bootstrap_builder" where
  "with_service t i b = b\<lparr>bb_extra := AList.update t i (bb_extra b)\<rparr>"

definition with_builtin_tools :: "'w bootstrap_builder \<Rightarrow> 'w bootstrap_builder" where
  "with_builtin_tools b = b\<lparr>bb_builtin := True\<rparr>"

text \<open>The objects of a build: those given, or new empty ones.\<close>

definition boot_objects :: "'w bootstrap_builder \<Rightarrow> root_logger \<Rightarrow> 'w boot_state" where
  "boot_objects b lg = \<lparr>bs_container = (case bb_container b of Some c \<Rightarrow> c | None \<Rightarrow> empty_container),
     bs_providers = (case bb_providers b of Some r \<Rightarrow> r | None \<Rightarrow> []),
     bs_tools = (case bb_tools b of Some r \<Rightarrow> r | None \<Rightarrow> []), bs_kernel = None, bs_logger = lg\<rparr>"

definition bootstrap_build ::
  "(nat \<Rightarrow> 'w \<Rightarrow> kernel) \<Rightarrow> 'w bootstrap_builder \<Rightarrow> root_logger \<Rightarrow> runtime_context res \<times> 'w boot_state" where
  "bootstrap_build kernel_at b lg =
     bootstrap_run kernel_at (bb_config b) (bb_extra b) (bb_builtin b) (boot_objects b lg)"

section \<open>Registering services\<close>

lemma register_services_Inr:
  "register_services xs c = (Inr x, c') \<Longrightarrow> distinct (map fst xs) \<and> (\<forall>(t, i) \<in> set xs. \<not> is_registered t c)
    \<and> (\<forall>t. is_registered t c' \<longleftrightarrow> t \<in> fst ` set xs \<or> is_registered t c)
    \<and> (\<forall>t. map_of (sc_instances c') t = (case map_of xs t of Some i \<Rightarrow> Some i | None \<Rightarrow> map_of (sc_instances c) t))"
proof (induction xs arbitrary: c)
  case Nil
  then show ?case by (simp add: register_services_def)
next
  case (Cons y xs)
  obtain t i where y: "y = (t, i)" by (cases y)
  let ?c1 = "c\<lparr>sc_instances := AList.update t i (sc_instances c), sc_singletons := AList.update t True (sc_singletons c)\<rparr>"
  from Cons.prems have free: "\<not> is_registered t c" and rest: "register_services xs ?c1 = (Inr x, c')"
    by (auto simp: register_services_def register_instance_def y split: if_splits)
  have reg: "is_registered u ?c1 \<longleftrightarrow> u = t \<or> is_registered u c" for u
    by (auto simp: is_registered_def has_key_def)
  note IH = Cons.IH[OF rest, unfolded reg]
  then have "t \<notin> fst ` set xs" by force
  then have "map_of xs t = None" by (simp add: map_of_eq_None_iff)
  with IH free show ?case by (auto simp: y split: option.splits)
qed

lemma register_services_free:
  "distinct (map fst xs) \<Longrightarrow> \<forall>(t, i) \<in> set xs. \<not> is_registered t c \<Longrightarrow> \<exists>c'. register_services xs c = (Inr (), c')"
proof (induction xs arbitrary: c)
  case (Cons y xs)
  obtain t i where y: "y = (t, i)" by (cases y)
  let ?c1 = "c\<lparr>sc_instances := AList.update t i (sc_instances c), sc_singletons := AList.update t True (sc_singletons c)\<rparr>"
  have reg: "is_registered u ?c1 \<longleftrightarrow> u = t \<or> is_registered u c" for u
    by (auto simp: is_registered_def has_key_def)
  have "\<forall>(u, j) \<in> set xs. \<not> is_registered u ?c1" unfolding reg using Cons.prems by (force simp: y)
  with Cons.IH[of ?c1] Cons.prems show ?case by (simp add: register_services_def y register_instance_def)
qed (simp add: register_services_def)

lemma register_services_Inl: "register_services xs c = (Inl e, c') \<Longrightarrow> exn_isa KernelError e"
  by (induction xs arbitrary: c)
    (auto simp: register_services_def register_instance_def already_registered_def split: if_splits)

lemma register_tools_Inl: "register_all tool_register ts r = (Inl e, r') \<Longrightarrow> exn_isa KernelError e"
  by (induction ts arbitrary: r) (auto simp: tool_register_def tool_duplicate_def split: if_splits)

lemma start_kernel_valid:
  assumes "check_kernel_config config = Inr config"
  shows "\<exists>k lg. start_kernel config s = (Inr (), s\<lparr>bs_kernel := Some k, bs_logger := lg\<rparr>) \<and> k_state k = RUNNING"
proof -
  obtain n where n: "resolve_level (kc_log_level config) = Inr n"
    using assms by (auto simp: check_kernel_config_def has_key_def resolve_level_def split: if_splits option.splits)
  then obtain lg where "configure_logging (kc_log_level config) (bs_logger s) = (Inr (), lg)"
    by (simp add: configure_logging_def bnd_def)
  then have "start_kernel config s = (Inr (), s\<lparr>bs_kernel := Some ((new_kernel (kc_log_level config))
      \<lparr>k_state := RUNNING\<rparr>), bs_logger := lg\<rparr>)"
    by (simp add: start_kernel_def kernel_start_def new_kernel_def Let_def)
  moreover have "k_state ((new_kernel (kc_log_level config))\<lparr>k_state := RUNNING\<rparr>) = RUNNING" by simp
  ultimately show ?thesis by blast
qed

text \<open>What has to be free for a bootstrap to succeed.\<close>

definition boot_fits :: "'w bootstrap_builder \<Rightarrow> bool" where
  "boot_fits b \<longleftrightarrow>
     (bb_builtin b \<longrightarrow> list_all (\<lambda>i. \<not> tool_exists i (case bb_tools b of Some r \<Rightarrow> r | None \<Rightarrow> []))
        [''echo'', ''health_check'', ''version''])
     \<and> distinct (map fst (default_services (bb_config b) @ bb_extra b))
     \<and> list_all (\<lambda>(t, i). \<not> is_registered t (case bb_container b of Some c \<Rightarrow> c | None \<Rightarrow> empty_container))
         (default_services (bb_config b) @ bb_extra b)"

lemma builtin_tool_ids: "map tool_id (builtin_tools K) = [''echo'', ''health_check'', ''version'']"
  by (simp add: builtin_tools_def echo_tool_def health_check_tool_def version_tool_def)

text \<open>The steps, one after the other: what each leaves and when it fails.\<close>

lemma bootstrap_steps_Inr:
  assumes "bootstrap_steps K config extra builtin s = (Inr x, s')"
  shows "\<exists>tools c1 c2 s3. (builtin \<longrightarrow> register_all tool_register (builtin_tools K) (bs_tools s) = (Inr (), tools))
    \<and> (\<not> builtin \<longrightarrow> tools = bs_tools s)
    \<and> register_services (default_services config) (bs_container s) = (Inr (), c1)
    \<and> register_services extra c1 = (Inr (), c2) \<and> s3 = s\<lparr>bs_tools := tools, bs_container := c2\<rparr>
    \<and> start_kernel config s3 = (Inr x, s')"
proof -
  from assms obtain s1 where s1: "(if builtin then on_tools (register_all tool_register (builtin_tools K)) else ret ()) s
      = (Inr (), s1)" and rest: "andthen (on_container (register_services (default_services config)))
      (andthen (on_container (register_services extra)) (start_kernel config)) s1 = (Inr x, s')"
    using andthen_InrD[OF assms[unfolded bootstrap_steps_def]] by blast
  from s1 obtain tools where tools: "s1 = s\<lparr>bs_tools := tools\<rparr>"
      "builtin \<longrightarrow> register_all tool_register (builtin_tools K) (bs_tools s) = (Inr (), tools)"
      "\<not> builtin \<longrightarrow> tools = bs_tools s"
    by (cases builtin) (auto simp: on_tools_def split: prod.splits)
  from rest obtain s2 s3 where "on_container (register_services (default_services config)) s1 = (Inr (), s2)"
      "on_container (register_services extra) s2 = (Inr (), s3)" "start_kernel config s3 = (Inr x, s')"
    by (auto dest!: andthen_InrD)
  moreover from this obtain c1 c2 where "register_services (default_services config) (bs_container s) = (Inr (), c1)"
      "register_services extra c1 = (Inr (), c2)" "s3 = s\<lparr>bs_tools := tools, bs_container := c2\<rparr>"
    by (auto simp: on_container_def tools(1) split: prod.splits)
  ultimately show ?thesis using tools by blast
qed

lemma bootstrap_steps_Inl:
  assumes "bootstrap_steps K config extra builtin s = (Inl e, s')" and "check_kernel_config config = Inr config"
  shows "exn_isa KernelError e"
proof -
  have kernel: "start_kernel config t \<noteq> (Inl e, t')" for t t' using start_kernel_valid[OF assms(2), of t] by auto
  show ?thesis
    using assms(1) kernel register_tools_Inl register_services_Inl
    by (auto simp: bootstrap_steps_def andthen_def bnd_def on_tools_def on_container_def
        split: prod.splits sum.splits if_splits)
qed

lemma bootstrap_build_Inr:
  assumes "bootstrap_build K b lg = (Inr rc, s)" and "check_kernel_config (bb_config b) = Inr (bb_config b)"
    and "tool_registry_ok (bs_tools (boot_objects b lg))"
  shows "boot_fits b \<and> rc_configuration rc = bb_config b \<and> runtime_state s = Some RUNNING
    \<and> list_all (\<lambda>(t, i). map_of (sc_instances (bs_container s)) t = Some i) (default_services (bb_config b) @ bb_extra b)
    \<and> keys (bs_tools s) = keys (bs_tools (boot_objects b lg))
        @ (if bb_builtin b then [''echo'', ''health_check'', ''version''] else [])"
proof -
  let ?s = "boot_objects b lg" and ?xs = "default_services (bb_config b)"
  from assms(1) obtain s' where steps: "bootstrap_steps K (bb_config b) (bb_extra b) (bb_builtin b) ?s = (Inr (), s')"
    and rc: "rc_configuration rc = bb_config b" "s' = s"
    by (auto simp: bootstrap_build_def bootstrap_run_def attempt_def split: prod.splits sum.splits if_splits)
  from bootstrap_steps_Inr[OF steps] obtain tools c1 c2 s3 where
    tools: "bb_builtin b \<longrightarrow> register_all tool_register (builtin_tools K) (bs_tools ?s) = (Inr (), tools)"
      "\<not> bb_builtin b \<longrightarrow> tools = bs_tools ?s"
    and c1: "register_services ?xs (bs_container ?s) = (Inr (), c1)"
    and c2: "register_services (bb_extra b) c1 = (Inr (), c2)"
    and s3: "s3 = ?s\<lparr>bs_tools := tools, bs_container := c2\<rparr>" "start_kernel (bb_config b) s3 = (Inr (), s)"
    using rc(2) by blast
  note r1 = register_services_Inr[OF c1] and r2 = register_services_Inr[OF c2]
  have fresh: "bb_builtin b \<longrightarrow> list_all (\<lambda>i. \<not> tool_exists i (bs_tools ?s)) [''echo'', ''health_check'', ''version'']"
  proof
    assume "bb_builtin b"
    with tools(1) have "register_all tool_register (builtin_tools K) (bs_tools ?s) = (Inr (), tools)" by simp
    from tools.register_all_Inr[OF this]
    have "list_all (\<lambda>i. \<not> tool_exists i (bs_tools ?s)) (map tool_id (builtin_tools K))"
      by (simp add: list_all_iff)
    then show "list_all (\<lambda>i. \<not> tool_exists i (bs_tools ?s)) [''echo'', ''health_check'', ''version'']"
      by (simp only: builtin_tool_ids)
  qed
  have tool_keys: "keys tools = keys (bs_tools ?s) @ (if bb_builtin b then [''echo'', ''health_check'', ''version''] else [])"
  proof (cases "bb_builtin b")
    case True
    have "\<forall>v \<in> set (builtin_tools K). \<not> tool_exists (tool_id v) (bs_tools ?s)"
      using fresh True builtin_tool_ids[of K] by (auto simp: list_all_iff builtin_tools_def)
    from tools.register_all_ok[OF assms(3) _ this] tools(1) True show ?thesis
      by (auto simp: builtin_tool_ids)
  next
    case False
    with tools(2) show ?thesis by simp
  qed
  have free_extra: "t \<notin> fst ` set ?xs \<and> \<not> is_registered t (bs_container ?s)" if "(t, i) \<in> set (bb_extra b)" for t i
  proof -
    from r2 that have "\<not> is_registered t c1" by auto
    with r1 show ?thesis by blast
  qed
  have "t \<notin> fst ` set ?xs" if "t \<in> fst ` set (bb_extra b)" for t
  proof -
    from that obtain i where "(t, i) \<in> set (bb_extra b)" by force
    then show ?thesis using free_extra by blast
  qed
  then have disj: "fst ` set ?xs \<inter> fst ` set (bb_extra b) = {}" by blast
  then have d: "distinct (map fst (?xs @ bb_extra b))"
    using conjunct1[OF r1] conjunct1[OF r2] unfolding map_append distinct_append list.set_map by blast
  have "list_all (\<lambda>(t, i). \<not> is_registered t (bs_container ?s)) ?xs"
    using conjunct1[OF conjunct2[OF r1]] unfolding list_all_iff .
  moreover have "list_all (\<lambda>(t, i). \<not> is_registered t (bs_container ?s)) (bb_extra b)"
    unfolding list_all_iff using free_extra by blast
  ultimately have free: "list_all (\<lambda>(t, i). \<not> is_registered t (bs_container ?s)) (?xs @ bb_extra b)"
    by (simp only: list_all_append)
  have "map_of (sc_instances c2) t = Some i" if "(t, i) \<in> set (?xs @ bb_extra b)" for t i
  proof -
    have all: "map_of (?xs @ bb_extra b) t = Some i" using d that by (simp only: map_of_eq_Some_iff)
    show ?thesis
    proof (cases "map_of ?xs t")
      case None
      with all have "map_of (bb_extra b) t = Some i" by (simp add: map_add_def)
      with r2 show ?thesis by simp
    next
      case (Some j)
      with all have "j = i" by (simp add: map_add_def)
      have "t \<in> fst ` set ?xs" using Some by (metis map_of_SomeD fst_conv image_eqI)
      then have "map_of (bb_extra b) t = None" using disj by (simp only: map_of_eq_None_iff) blast
      with r1 r2 Some \<open>j = i\<close> show ?thesis by (simp del: map_of.simps)
    qed
  qed
  then have inst: "list_all (\<lambda>(t, i). map_of (sc_instances c2) t = Some i) (?xs @ bb_extra b)"
    by (auto simp: list_all_iff)
  obtain k lg' where "start_kernel (bb_config b) s3 = (Inr (), s3\<lparr>bs_kernel := Some k, bs_logger := lg'\<rparr>)"
    and k: "k_state k = RUNNING" using start_kernel_valid[OF assms(2)] by blast
  then have s: "s = s3\<lparr>bs_kernel := Some k, bs_logger := lg'\<rparr>" using s3(2) by simp
  have "boot_fits b" using fresh d free by (simp add: boot_fits_def boot_objects_def)
  with rc(1) k inst tool_keys show ?thesis by (simp add: s s3(1) runtime_state_def)
qed

lemma bootstrap_build_fits:
  assumes "boot_fits b" and "check_kernel_config (bb_config b) = Inr (bb_config b)"
    and "tool_registry_ok (bs_tools (boot_objects b lg))"
  shows "\<exists>rc s. bootstrap_build K b lg = (Inr rc, s)"
proof -
  let ?s = "boot_objects b lg" and ?xs = "default_services (bb_config b)"
  obtain tools where tools: "(if bb_builtin b then on_tools (register_all tool_register (builtin_tools K)) else ret ()) ?s
      = (Inr (), ?s\<lparr>bs_tools := tools\<rparr>)"
  proof (cases "bb_builtin b")
    case True
    have "\<forall>v \<in> set (builtin_tools K). \<not> tool_exists (tool_id v) (bs_tools ?s)"
      using assms(1) True builtin_tool_ids[of K]
      by (auto simp: boot_fits_def boot_objects_def builtin_tools_def)
    from tools.register_all_ok[OF assms(3) _ this] True that show ?thesis
      by (auto simp: builtin_tool_ids on_tools_def)
  next
    case False
    with that[of "bs_tools ?s"] show ?thesis by simp
  qed
  have d: "distinct (map fst ?xs)" "distinct (map fst (bb_extra b))" "fst ` set ?xs \<inter> fst ` set (bb_extra b) = {}"
    using assms(1) by (auto simp: boot_fits_def)
  have free: "\<forall>(t, i) \<in> set ?xs. \<not> is_registered t (bs_container ?s)"
    "\<forall>(t, i) \<in> set (bb_extra b). \<not> is_registered t (bs_container ?s)"
    using assms(1) by (auto simp: boot_fits_def boot_objects_def list_all_iff)
  obtain c1 where c1: "register_services ?xs (bs_container ?s) = (Inr (), c1)"
    using register_services_free[OF d(1) free(1)] by blast
  have "\<forall>(t, i) \<in> set (bb_extra b). \<not> is_registered t c1"
  proof
    fix p assume p: "p \<in> set (bb_extra b)"
    obtain t i where ti: "p = (t, i)" by (cases p)
    with p have "t \<notin> fst ` set ?xs" using d(3) by (metis IntI empty_iff fst_conv image_eqI)
    moreover have "\<not> is_registered t (bs_container ?s)" using bspec[OF free(2) p] ti by simp
    ultimately show "case p of (t, i) \<Rightarrow> \<not> is_registered t c1" using register_services_Inr[OF c1] ti by simp
  qed
  then obtain c2 where c2: "register_services (bb_extra b) c1 = (Inr (), c2)"
    using register_services_free[OF d(2)] by blast
  let ?s3 = "?s\<lparr>bs_tools := tools, bs_container := c2\<rparr>"
  obtain k lg' where start: "start_kernel (bb_config b) ?s3 = (Inr (), ?s3\<lparr>bs_kernel := Some k, bs_logger := lg'\<rparr>)"
    using start_kernel_valid[OF assms(2)] by blast
  have "bootstrap_steps K (bb_config b) (bb_extra b) (bb_builtin b) ?s
      = (Inr (), ?s3\<lparr>bs_kernel := Some k, bs_logger := lg'\<rparr>)"
    unfolding bootstrap_steps_def andthen_def bnd_def tools
    by (simp add: on_container_def c1 c2 start)
  then show ?thesis by (simp add: bootstrap_build_def bootstrap_run_def attempt_def)
qed

section \<open>Properties\<close>

text \<open>C31 A bootstrap succeeds exactly when nothing collides: no tool of the registry it is given has
  the id of a builtin it adds, and the default and extra services have distinct types that are
  not registered yet. Then the kernel runs, every service resolves to the instance given and the
  builtin tools are registered behind those there were; otherwise \<open>BootstrapError\<close> is raised.\<close>

theorem bootstrap_outcome:
  assumes "check_kernel_config (bb_config b) = Inr (bb_config b)" and "tool_registry_ok (bs_tools (boot_objects b lg))"
  shows "((\<exists>rc s. bootstrap_build K b lg = (Inr rc, s)) \<longleftrightarrow> boot_fits b)
    \<and> (bootstrap_build K b lg = (Inr rc, s) \<longrightarrow> rc_configuration rc = bb_config b \<and> runtime_state s = Some RUNNING
        \<and> list_all (\<lambda>(t, i). map_of (sc_instances (bs_container s)) t = Some i)
            (default_services (bb_config b) @ bb_extra b)
        \<and> keys (bs_tools s) = keys (bs_tools (boot_objects b lg))
            @ (if bb_builtin b then [''echo'', ''health_check'', ''version''] else []))
    \<and> (bootstrap_build K b lg = (Inl e, s) \<longrightarrow> exn_isa BootstrapError e)"
proof (intro conjI impI)
  show "(\<exists>rc s. bootstrap_build K b lg = (Inr rc, s)) \<longleftrightarrow> boot_fits b"
    using bootstrap_build_Inr[OF _ assms] bootstrap_build_fits[OF _ assms] by blast
  assume "bootstrap_build K b lg = (Inl e, s)"
  then show "exn_isa BootstrapError e"
    using bootstrap_steps_Inl[OF _ assms(1)]
    by (fastforce simp: bootstrap_build_def bootstrap_run_def attempt_def split: prod.splits sum.splits if_splits)
qed (use bootstrap_build_Inr[OF _ assms] in blast)+

theorem bootstrap_outcome_witness:
  "\<exists>rc s. bootstrap_build (\<lambda>_ (_ :: nat). new_kernel ''INFO'')
      (with_builtin_tools (with_service ''X'' (ExtraService ''x'') (new_bootstrap_builder default_config))) fresh_logger = (Inr rc, s)"
proof -
  let ?b = "with_builtin_tools (with_service ''X'' (ExtraService ''x'') (new_bootstrap_builder default_config))
    :: nat bootstrap_builder"
  have "check_kernel_config (bb_config ?b) = Inr (bb_config ?b)"
    by (simp add: check_kernel_config_def has_key_def level_names_def default_config_def with_builtin_tools_def
        with_service_def new_bootstrap_builder_def)
  moreover have "tool_registry_ok (bs_tools (boot_objects ?b fresh_logger))"
    by (simp add: boot_objects_def keyed_by_def with_builtin_tools_def with_service_def new_bootstrap_builder_def)
  moreover have "boot_fits ?b"
    by (simp add: boot_fits_def with_builtin_tools_def with_service_def new_bootstrap_builder_def default_services_def
        service_type_name_def tool_exists_def has_key_def is_registered_def empty_container_def)
  ultimately show ?thesis using bootstrap_outcome[of ?b fresh_logger] by blast
qed

lemma load_config_checked: "load_config env = Inr c \<Longrightarrow> check_kernel_config c = Inr c"
  by (auto simp: load_config_def rbind_Inr_iff check_kernel_config_def Let_def split: if_splits)

lemma load_config_error: "load_config env = Inl e \<Longrightarrow> exn_isa ConfigurationError e"
  by (auto simp: load_config_def rbind_def parse_environment_def parse_bool_def check_kernel_config_def Let_def
      split: sum.splits option.splits if_splits)

text \<open>C33 From the environment to a running kernel: whatever variables are set, loading the
  configuration either raises \<open>ConfigurationError\<close> or gives a configuration a default
  bootstrap always boots with: the kernel runs, with that configuration.\<close>

theorem configured_kernel_boots:
  "(load_config env = Inl e \<longrightarrow> exn_isa ConfigurationError e)
   \<and> (load_config env = Inr c \<longrightarrow> (\<exists>rc s. bootstrap_build K (new_bootstrap_builder c) lg = (Inr rc, s)
        \<and> rc_configuration rc = c \<and> runtime_state s = Some RUNNING))"
proof (intro conjI impI load_config_error)
  assume "load_config env = Inr c"
  then have checked: "check_kernel_config (bb_config (new_bootstrap_builder c)) = Inr (bb_config (new_bootstrap_builder c))"
    by (simp add: new_bootstrap_builder_def load_config_checked)
  have tools: "tool_registry_ok (bs_tools (boot_objects (new_bootstrap_builder c) lg))"
    by (simp add: boot_objects_def keyed_by_def new_bootstrap_builder_def)
  have "boot_fits (new_bootstrap_builder c)"
    by (simp add: boot_fits_def new_bootstrap_builder_def default_services_def service_type_name_def
        is_registered_def has_key_def empty_container_def)
  then obtain rc s where run: "bootstrap_build K (new_bootstrap_builder c) lg = (Inr rc, s)"
    using bootstrap_build_fits[OF _ checked tools] by blast
  from bootstrap_build_Inr[OF run checked tools] run
  show "\<exists>rc s. bootstrap_build K (new_bootstrap_builder c) lg = (Inr rc, s)
      \<and> rc_configuration rc = c \<and> runtime_state s = Some RUNNING"
    by (auto simp: new_bootstrap_builder_def)
qed

theorem configured_kernel_boots_witness:
  "\<exists>c. load_config [(''MELLIVOR_LOG_LEVEL'', '' debug ''), (''MELLIVOR_DEBUG'', ''Yes'')] = Inr c \<and> kc_debug c
    \<and> (\<exists>rc s. bootstrap_build (\<lambda>_ (_ :: nat). new_kernel ''INFO'') (new_bootstrap_builder c) fresh_logger = (Inr rc, s)
        \<and> rc_configuration rc = c \<and> runtime_state s = Some RUNNING)"
proof -
  obtain c where c: "load_config [(''MELLIVOR_LOG_LEVEL'', '' debug ''), (''MELLIVOR_DEBUG'', ''Yes'')] = Inr c" "kc_debug c"
  proof -
    have "load_config [(''MELLIVOR_LOG_LEVEL'', '' debug ''), (''MELLIVOR_DEBUG'', ''Yes'')]
        = Inr \<lparr>kc_environment = DEVELOPMENT, kc_log_level = ''DEBUG'', kc_debug = True\<rparr>" by code_simp
    with that show ?thesis by simp
  qed
  from configured_kernel_boots[of "[(''MELLIVOR_LOG_LEVEL'', '' debug ''), (''MELLIVOR_DEBUG'', ''Yes'')]" _ c
      "\<lambda>_ (_ :: nat). new_kernel ''INFO''" fresh_logger] c
  show ?thesis by blast
qed

end
