(* ===== verification/Json.thy ===== *)
theory Json
  imports Values Text
begin

text \<open>
  JSON text as the standard library's \<open>json\<close> writes and reads it, for the components that
  store or read documents. A record holds what the interpreter does for floating point
  numbers, their \<open>repr\<close> and \<open>float\<close> of a text, and the messages of decoding errors.
  Texts have code points up to U+00FF; an escape of a larger one is outside the model
  and is treated as invalid.
\<close>

record json_lib =
  jl_float_repr :: "real \<Rightarrow> string"
  jl_float_read :: "string \<Rightarrow> real"
  jl_decode_message :: "string \<Rightarrow> string"

section \<open>Writing\<close>

definition type_error :: "string \<Rightarrow> exn" where
  "type_error m = Exn (ForeignException ''TypeError'') m"

definition hex2 :: "nat \<Rightarrow> string" where
  "hex2 n = [hex_digit (n div 16), hex_digit (n mod 16)]"

text \<open>One character of a string literal; \<open>ascii\<close> is \<open>ensure_ascii\<close>.\<close>

definition json_char :: "bool \<Rightarrow> char \<Rightarrow> string" where
  "json_char ascii c = (let n = of_char c :: nat in
     if n = 34 \<or> n = 92 then [CHR 0x5C, c]
     else if n = 8 then [CHR 0x5C, CHR ''b'']
     else if n = 9 then [CHR 0x5C, CHR ''t'']
     else if n = 10 then [CHR 0x5C, CHR ''n'']
     else if n = 12 then [CHR 0x5C, CHR ''f'']
     else if n = 13 then [CHR 0x5C, CHR ''r'']
     else if n < 32 \<or> ascii \<and> 127 \<le> n then [CHR 0x5C, CHR ''u'', CHR ''0'', CHR ''0''] @ hex2 n
     else [c])"

definition json_string :: "bool \<Rightarrow> string \<Rightarrow> string" where
  "json_string ascii s = CHR 0x22 # concat (map (json_char ascii) s) @ [CHR 0x22]"

fun json_float :: "json_lib \<Rightarrow> pyfloat \<Rightarrow> string" where
  "json_float J (Fin x) = jl_float_repr J x"
| "json_float J PosInf = ''Infinity''"
| "json_float J NegInf = ''-Infinity''"
| "json_float J NaN = ''NaN''"

text \<open>
  What is not a JSON type goes to \<open>default\<close>: \<open>None\<close> raises \<open>TypeError\<close>, and
  \<open>default=str\<close> writes the text of the object, which a parameter gives. \<open>str\<close> of an
  integer of more than 4300 digits raises.
\<close>

definition json_int :: "int \<Rightarrow> string res" where
  "json_int i = (if max_int_digits < length (nat_str (nat \<bar>i\<bar>))
     then Inl (Exn (ForeignException ''ValueError'')
            ''Exceeds the limit (4300 digits) for integer string conversion; use sys.set_int_max_str_digits() to increase the limit'')
     else Inr (int_str i))"

fun type_name :: "pyval \<Rightarrow> string" where
  "type_name (PBytes _) = ''bytes''"
| "type_name (PToolCall _ _ _) = ''ToolCall''"
| "type_name (PToolSpec _ _ _) = ''ToolSpec''"
| "type_name (PObject n) = n"
| "type_name _ = []"

fun dumps :: "json_lib \<Rightarrow> bool \<Rightarrow> (pyval \<Rightarrow> string) option \<Rightarrow> pyval \<Rightarrow> string res"
  and dumps_items :: "json_lib \<Rightarrow> bool \<Rightarrow> (pyval \<Rightarrow> string) option \<Rightarrow> pyval list \<Rightarrow> string res"
  and dumps_members :: "json_lib \<Rightarrow> bool \<Rightarrow> (pyval \<Rightarrow> string) option \<Rightarrow> (string \<times> pyval) list \<Rightarrow> string res" where
  "dumps J a d PNone = Inr ''null''"
| "dumps J a d (PBool b) = Inr (if b then ''true'' else ''false'')"
| "dumps J a d (PInt i) = json_int i"
| "dumps J a d (PFloat x) = Inr (json_float J x)"
| "dumps J a d (PStr s) = Inr (json_string a s)"
| "dumps J a d (PTuple xs) = rbind (dumps_items J a d xs) (\<lambda>t. Inr (''['' @ t @ '']''))"
| "dumps J a d (PList xs) = rbind (dumps_items J a d xs) (\<lambda>t. Inr (''['' @ t @ '']''))"
| "dumps J a d (PDict m) = rbind (dumps_members J a d m) (\<lambda>t. Inr (''{'' @ t @ ''}''))"
| "dumps J a d v = (case d of Some str \<Rightarrow> Inr (json_string a (str v))
     | None \<Rightarrow> Inl (type_error (''Object of type '' @ type_name v @ '' is not JSON serializable'')))"
| "dumps_items J a d [] = Inr []"
| "dumps_items J a d (v # vs) =
     rbind (dumps J a d v) (\<lambda>t. rbind (dumps_items J a d vs) (\<lambda>ts.
       Inr (if vs = [] then t else t @ '', '' @ ts)))"
| "dumps_members J a d [] = Inr []"
| "dumps_members J a d ((k, v) # m) =
     rbind (dumps J a d v) (\<lambda>t. rbind (dumps_members J a d m) (\<lambda>ts.
       Inr (json_string a k @ '': '' @ (if m = [] then t else t @ '', '' @ ts))))"

text \<open>The values \<open>dumps\<close> cannot write: one holding an object of no JSON type, or an integer
  of more than 4300 digits.\<close>

fun holds_long_int :: "pyval \<Rightarrow> bool" where
  "holds_long_int (PInt i) = (max_int_digits < length (nat_str (nat \<bar>i\<bar>)))"
| "holds_long_int (PTuple xs) = list_ex holds_long_int xs"
| "holds_long_int (PList xs) = list_ex holds_long_int xs"
| "holds_long_int (PDict m) = list_ex (\<lambda>(k, v). holds_long_int v) m"
| "holds_long_int v = False"

definition dumps_raises :: "bool \<Rightarrow> exn \<Rightarrow> bool" where
  "dumps_raises long e \<longleftrightarrow> exn_isa (ForeignException ''TypeError'') e
     \<or> exn_isa (ForeignException ''ValueError'') e \<and> long"

lemma dumps_raises_simps [simp]: "dumps_raises long (type_error m)"
  by (simp add: dumps_raises_def type_error_def)

lemma dumps_raises_mono: "dumps_raises l e \<Longrightarrow> (l \<Longrightarrow> l') \<Longrightarrow> dumps_raises l' e"
  by (auto simp: dumps_raises_def)

lemma rbind_Inl_cases: "rbind r f = Inl e \<Longrightarrow> r = Inl e \<or> (\<exists>x. r = Inr x \<and> f x = Inl e)"
  by (cases r) simp_all

lemma dumps_errors:
  "dumps J a None v = Inl e \<Longrightarrow> dumps_raises (holds_long_int v) e"
  "dumps_items J a None vs = Inl e \<Longrightarrow> dumps_raises (list_ex holds_long_int vs) e"
  "dumps_members J a None m = Inl e \<Longrightarrow> dumps_raises (list_ex (\<lambda>(k, v). holds_long_int v) m) e"
proof (induction J a "None :: (pyval \<Rightarrow> string) option" v and J a "None :: (pyval \<Rightarrow> string) option" vs
    and J a "None :: (pyval \<Rightarrow> string) option" m rule: dumps_dumps_items_dumps_members.induct)
  case (3 J a i)
  then show ?case by (auto simp: json_int_def dumps_raises_def split: if_splits)
qed (auto dest!: rbind_Inl_cases intro: dumps_raises_mono)

section \<open>Reading\<close>

definition json_space :: "char \<Rightarrow> bool" where
  "json_space c \<longleftrightarrow> c \<in> {CHR '' '', CHR 0x09, CHR 0x0A, CHR 0x0D}"

definition skip_space :: "string \<Rightarrow> string" where
  "skip_space s = dropWhile json_space s"

definition hex_value :: "char \<Rightarrow> nat option" where
  "hex_value c = (let n = of_char c :: nat in
     if 48 \<le> n \<and> n \<le> 57 then Some (n - 48)
     else if 97 \<le> n \<and> n \<le> 102 then Some (n - 87)
     else if 65 \<le> n \<and> n \<le> 70 then Some (n - 55)
     else None)"

text \<open>The character an escape stands for, after the backslash.\<close>

definition read_escape :: "string \<Rightarrow> (char \<times> string) option" where
  "read_escape s =
     (case s of
        c # s' \<Rightarrow>
          if c = CHR 0x22 \<or> c = CHR 0x5C \<or> c = CHR ''/'' then Some (c, s')
          else if c = CHR ''b'' then Some (CHR 0x08, s')
          else if c = CHR ''f'' then Some (CHR 0x0C, s')
          else if c = CHR ''n'' then Some (CHR 0x0A, s')
          else if c = CHR ''r'' then Some (CHR 0x0D, s')
          else if c = CHR ''t'' then Some (CHR 0x09, s')
          else if c = CHR ''u'' then
            (case s' of
               a # b # x # y # rest \<Rightarrow>
                 if a = CHR ''0'' \<and> b = CHR ''0''
                 then (case (hex_value x, hex_value y) of
                         (Some h, Some l) \<Rightarrow> Some (char_of (16 * h + l), rest) | _ \<Rightarrow> None)
                 else None
             | _ \<Rightarrow> None)
          else None
      | [] \<Rightarrow> None)"

text \<open>The rest of a string literal behind its opening quote.\<close>

fun read_string :: "nat \<Rightarrow> string \<Rightarrow> (string \<times> string) option" where
  "read_string 0 s = None"
| "read_string (Suc n) [] = None"
| "read_string (Suc n) (c # s) =
     (if c = CHR 0x22 then Some ([], s)
      else if c = CHR 0x5C
      then (case read_escape s of None \<Rightarrow> None
            | Some (x, s') \<Rightarrow> map_option (\<lambda>(t, rest). (x # t, rest)) (read_string n s'))
      else if (of_char c :: nat) < 32 then None
      else map_option (\<lambda>(t, rest). (c # t, rest)) (read_string n s))"

text \<open>
  A number: an integer part without superfluous zeros, then as much of a fraction and of an
  exponent as is well formed.
\<close>

definition span_digits :: "string \<Rightarrow> string \<times> string" where
  "span_digits s = (takeWhile ascii_digit s, dropWhile ascii_digit s)"

definition read_int_part :: "string \<Rightarrow> (string \<times> string) option" where
  "read_int_part s =
     (case s of
        c # s' \<Rightarrow> if c = CHR ''0'' then Some ([c], s')
          else if ascii_digit c then Some (span_digits s) else None
      | [] \<Rightarrow> None)"

definition read_fraction :: "string \<Rightarrow> string \<times> string" where
  "read_fraction s =
     (case s of
        c # s' \<Rightarrow> if c = CHR ''.'' \<and> fst (span_digits s') \<noteq> []
          then (c # fst (span_digits s'), snd (span_digits s')) else ([], s)
      | [] \<Rightarrow> ([], s))"

definition read_exponent :: "string \<Rightarrow> string \<times> string" where
  "read_exponent s =
     (case s of
        c # s' \<Rightarrow>
          if c = CHR ''e'' \<or> c = CHR ''E''
          then (let (sign, t) = (case s' of x # s'' \<Rightarrow> if x = CHR ''-'' \<or> x = CHR ''+'' then ([x], s'') else ([], s')
                                 | [] \<Rightarrow> ([], s'))
                in if fst (span_digits t) \<noteq> [] then (c # sign @ fst (span_digits t), snd (span_digits t)) else ([], s))
          else ([], s)
      | [] \<Rightarrow> ([], s))"

text \<open>
  \<open>Some (Inl e)\<close> is the \<open>ValueError\<close> of an integer that is too long, which is no
  decoding error.
\<close>

type_synonym 'a parsed = "(exn + 'a \<times> string) option"

definition read_number :: "json_lib \<Rightarrow> string \<Rightarrow> pyval parsed" where
  "read_number J s =
     (let (sign, s1) = (case s of c # s' \<Rightarrow> if c = CHR ''-'' then ([c], s') else ([], s) | [] \<Rightarrow> ([], s)) in
      case read_int_part s1 of
        None \<Rightarrow> None
      | Some (i, s2) \<Rightarrow>
          (let (f, s3) = read_fraction s2; (e, s4) = read_exponent s3 in
           if f = [] \<and> e = []
           then Some (rbind (int_of_digits i) (\<lambda>n. Inr (PInt (if sign = [] then int n else - int n), s4)))
           else Some (Inr (PFloat (Fin (jl_float_read J (sign @ i @ f @ e))), s4))))"

text \<open>A keyword at the start of a text.\<close>

definition read_word :: "string \<Rightarrow> string \<Rightarrow> string option" where
  "read_word w s = (if take (length w) s = w then Some (drop (length w) s) else None)"

definition json_words :: "(string \<times> pyval) list" where
  "json_words = [(''null'', PNone), (''true'', PBool True), (''false'', PBool False), (''NaN'', PFloat NaN),
     (''Infinity'', PFloat PosInf), (''-Infinity'', PFloat NegInf)]"

fun read_keyword :: "(string \<times> pyval) list \<Rightarrow> string \<Rightarrow> (pyval \<times> string) option" where
  "read_keyword [] s = None"
| "read_keyword ((w, v) # ks) s =
     (case read_word w s of Some rest \<Rightarrow> Some (v, rest) | None \<Rightarrow> read_keyword ks s)"

definition parsed_bind :: "'a parsed \<Rightarrow> ('a \<Rightarrow> string \<Rightarrow> 'b parsed) \<Rightarrow> 'b parsed" where
  "parsed_bind p f = (case p of None \<Rightarrow> None | Some (Inl e) \<Rightarrow> Some (Inl e) | Some (Inr (x, rest)) \<Rightarrow> f x rest)"

lemma parsed_bind_simps [simp]:
  "parsed_bind None f = None" "parsed_bind (Some (Inl e)) f = Some (Inl e)"
  "parsed_bind (Some (Inr (x, rest))) f = f x rest"
  by (simp_all add: parsed_bind_def)

text \<open>
  A value; the items of an array behind its bracket; the members of an object behind its
  brace, as a list of pairs. The first argument bounds the depth and width of the recursion:
  twice the length of the text is enough, as \<open>loads_dumps\<close> shows for every written text.
\<close>

fun read_value :: "json_lib \<Rightarrow> nat \<Rightarrow> string \<Rightarrow> pyval parsed"
  and read_items :: "json_lib \<Rightarrow> nat \<Rightarrow> string \<Rightarrow> pyval list parsed"
  and read_members :: "json_lib \<Rightarrow> nat \<Rightarrow> string \<Rightarrow> (string \<times> pyval) list parsed" where
  "read_value J 0 s = None"
| "read_value J (Suc n) s =
     (case s of
        [] \<Rightarrow> None
      | c # s' \<Rightarrow>
          if c = CHR 0x22 then
            map_option (\<lambda>(t, rest). Inr (PStr t, rest)) (read_string (length s') s')
          else if c = CHR ''['' then
            (case skip_space s' of
               x # rest \<Rightarrow> if x = CHR '']'' then Some (Inr (PList [], rest))
                 else parsed_bind (read_items J n (x # rest)) (\<lambda>vs r. Some (Inr (PList vs, r)))
             | [] \<Rightarrow> None)
          else if c = CHR ''{'' then
            (case skip_space s' of
               x # rest \<Rightarrow> if x = CHR ''}'' then Some (Inr (PDict [], rest))
                 else parsed_bind (read_members J n (x # rest)) (\<lambda>ms r. Some (Inr (PDict (dict_update [] ms), r)))
             | [] \<Rightarrow> None)
          else (case read_keyword json_words s of
                  Some (v, rest) \<Rightarrow> Some (Inr (v, rest))
                | None \<Rightarrow> read_number J s))"
| "read_items J 0 s = None"
| "read_items J (Suc n) s =
     parsed_bind (read_value J n s) (\<lambda>v r.
       case skip_space r of
         x # r' \<Rightarrow>
           if x = CHR '']'' then Some (Inr ([v], r'))
           else if x = CHR '','' then
             parsed_bind (read_items J n (skip_space r')) (\<lambda>vs r''. Some (Inr (v # vs, r'')))
           else None
       | [] \<Rightarrow> None)"
| "read_members J 0 s = None"
| "read_members J (Suc n) s =
     (case s of
        c # s' \<Rightarrow>
          if c = CHR 0x22 then
            (case read_string (length s') s' of
               None \<Rightarrow> None
             | Some (k, r) \<Rightarrow>
                 (case skip_space r of
                    x # r1 \<Rightarrow>
                      if x = CHR '':'' then
                        parsed_bind (read_value J n (skip_space r1)) (\<lambda>v r2.
                          case skip_space r2 of
                            y # r3 \<Rightarrow>
                              if y = CHR ''}'' then Some (Inr ([(k, v)], r3))
                              else if y = CHR '','' then
                                parsed_bind (read_members J n (skip_space r3)) (\<lambda>ms r4. Some (Inr ((k, v) # ms, r4)))
                              else None
                          | [] \<Rightarrow> None)
                      else None
                  | [] \<Rightarrow> None))
          else None
      | [] \<Rightarrow> None)"

definition decode_error :: "json_lib \<Rightarrow> string \<Rightarrow> exn" where
  "decode_error J s = Exn (ForeignException ''JSONDecodeError'') (jl_decode_message J s)"

definition loads :: "json_lib \<Rightarrow> string \<Rightarrow> pyval res" where
  "loads J s =
     (case read_value J (2 * length s) (skip_space s) of
        Some (Inr (v, rest)) \<Rightarrow> if skip_space rest = [] then Inr v else Inl (decode_error J s)
      | Some (Inl e) \<Rightarrow> Inl e
      | None \<Rightarrow> Inl (decode_error J s))"

section \<open>What is written reads back\<close>

text \<open>\<open>repr\<close> of a float is a JSON number with a fraction or an exponent, and \<open>float\<close> reads it back.\<close>

definition float_text :: "string \<Rightarrow> bool" where
  "float_text t \<longleftrightarrow> (\<exists>s i f e. t = s @ i @ f @ e \<and> (s = [] \<or> s = ''-'')
     \<and> i \<noteq> [] \<and> list_all ascii_digit i \<and> (hd i = CHR ''0'' \<longrightarrow> i = ''0'')
     \<and> (f = [] \<or> (\<exists>d. f = CHR ''.'' # d \<and> d \<noteq> [] \<and> list_all ascii_digit d))
     \<and> (e = [] \<or> (\<exists>c s' d. e = c # s' @ d \<and> c \<in> {CHR ''e'', CHR ''E''} \<and> s' \<in> {[], ''-'', ''+''}
           \<and> d \<noteq> [] \<and> list_all ascii_digit d))
     \<and> (f \<noteq> [] \<or> e \<noteq> []))"

definition float_law :: "json_lib \<Rightarrow> real \<Rightarrow> bool" where
  "float_law J x \<longleftrightarrow> float_text (jl_float_repr J x) \<and> jl_float_read J (jl_float_repr J x) = x"

text \<open>The value that comes back: tuples as lists; dictionaries have distinct keys.\<close>

fun json_norm :: "pyval \<Rightarrow> pyval" where
  "json_norm (PTuple xs) = PList (map json_norm xs)"
| "json_norm (PList xs) = PList (map json_norm xs)"
| "json_norm (PDict m) = PDict (map (\<lambda>(k, v). (k, json_norm v)) m)"
| "json_norm v = v"

fun json_ok :: "json_lib \<Rightarrow> pyval \<Rightarrow> bool" where
  "json_ok J (PFloat (Fin x)) = float_law J x"
| "json_ok J (PTuple xs) = list_all (json_ok J) xs"
| "json_ok J (PList xs) = list_all (json_ok J) xs"
| "json_ok J (PDict m) = (dict_ok m \<and> list_all (\<lambda>(k, v). json_ok J v) m)"
| "json_ok J v = True"

definition ends_value :: "string \<Rightarrow> bool" where
  "ends_value rest \<longleftrightarrow> rest = [] \<or> hd rest \<in> {CHR '','', CHR '']'', CHR ''}''}"

lemma hex_value_digit [simp]: "k < 16 \<Longrightarrow> hex_value (hex_digit k) = Some k"
  by (auto simp: hex_value_def hex_digit_def of_char_char_of_lt Let_def)

lemma char_codeI: "of_char c = (of_char d :: nat) \<Longrightarrow> c = d"
  by simp

lemma read_escape_json:
  assumes "json_char a c = CHR 0x5C # t"
  shows "read_escape (t @ rest) = Some (c, rest)"
proof -
  let ?n = "of_char c :: nat"
  have n: "?n < 256" by simp
  have c: "c = char_of ?n" by simp
  consider (quote) "?n = 34" | (slash) "?n = 92" | (b) "?n = 8" | (t) "?n = 9" | (nl) "?n = 10" | (f) "?n = 12"
    | (r) "?n = 13" | (u) "t = [CHR ''u'', CHR ''0'', CHR ''0''] @ hex2 ?n"
    using assms by (auto simp: json_char_def Let_def split: if_splits)
  then show ?thesis
  proof cases
    case u
    have "16 * (?n div 16) + ?n mod 16 = ?n" by simp
    moreover have "?n div 16 < 16" "?n mod 16 < 16" using n by (auto intro: less_mult_imp_div_less)
    ultimately show ?thesis using u by (simp add: read_escape_def hex2_def)
  next
    case quote
    then have "c = CHR 0x22" by (intro char_codeI) simp
    with assms show ?thesis by (auto simp: json_char_def read_escape_def)
  next
    case slash
    then have "c = CHR 0x5C" by (intro char_codeI) simp
    with assms show ?thesis by (auto simp: json_char_def read_escape_def)
  next
    case b
    then have "c = CHR 0x08" by (intro char_codeI) simp
    with assms show ?thesis by (auto simp: json_char_def read_escape_def)
  next
    case t
    then have "c = CHR 0x09" by (intro char_codeI) simp
    with assms show ?thesis by (auto simp: json_char_def read_escape_def)
  next
    case nl
    then have "c = CHR 0x0A" by (intro char_codeI) simp
    with assms show ?thesis by (auto simp: json_char_def read_escape_def)
  next
    case f
    then have "c = CHR 0x0C" by (intro char_codeI) simp
    with assms show ?thesis by (auto simp: json_char_def read_escape_def)
  next
    case r
    then have "c = CHR 0x0D" by (intro char_codeI) simp
    with assms show ?thesis by (auto simp: json_char_def read_escape_def)
  qed
qed

lemma json_char_cases:
  obtains (plain) "json_char a c = [c]" "c \<noteq> CHR 0x22" "c \<noteq> CHR 0x5C" "32 \<le> (of_char c :: nat)"
  | (escaped) t where "json_char a c = CHR 0x5C # t"
proof (cases "json_char a c = [c]")
  case True
  then have "32 \<le> (of_char c :: nat)" "c \<noteq> CHR 0x22" "c \<noteq> CHR 0x5C"
    by (auto simp: json_char_def Let_def split: if_splits)
  with True plain show ?thesis by blast
next
  case False
  then have "\<exists>t. json_char a c = CHR 0x5C # t" by (auto simp: json_char_def Let_def split: if_splits)
  with escaped show ?thesis by blast
qed

lemma read_string_json:
  "length s < n \<Longrightarrow> read_string n (concat (map (json_char a) s) @ CHR 0x22 # rest) = Some (s, rest)"
proof (induction s arbitrary: n)
  case Nil
  then show ?case by (cases n) simp_all
next
  case (Cons c s)
  then obtain m where m: "n = Suc m" "length s < m" by (cases n) simp_all
  show ?case
  proof (cases rule: json_char_cases[of a c])
    case plain
    with m Cons.IH show ?thesis by simp
  next
    case (escaped t)
    from read_escape_json[OF escaped, of "concat (map (json_char a) s) @ CHR 0x22 # rest"] m Cons.IH escaped
    show ?thesis by simp
  qed
qed

lemma json_char_not_Nil [simp]: "json_char a c \<noteq> []"
  by (cases rule: json_char_cases[of a c]) simp_all

lemma length_json_body: "length s \<le> length (concat (map (json_char a) s))"
proof (induction s)
  case (Cons c s)
  have "1 \<le> length (json_char a c)" by (simp add: Suc_le_eq)
  with Cons show ?case by simp
qed simp

lemma read_string_written:
  "json_string a s @ rest = CHR 0x22 # t \<Longrightarrow> read_string (length t) t = Some (s, rest)"
proof -
  assume "json_string a s @ rest = CHR 0x22 # t"
  then have t: "t = concat (map (json_char a) s) @ CHR 0x22 # rest" by (simp add: json_string_def)
  have "length s < length t" using length_json_body[of s a] by (simp add: t)
  from read_string_json[OF this, of a rest] show ?thesis by (simp add: t)
qed

text \<open>Numbers.\<close>

lemma span_digits_append:
  "list_all ascii_digit d \<Longrightarrow> rest = [] \<or> \<not> ascii_digit (hd rest) \<Longrightarrow> span_digits (d @ rest) = (d, rest)"
proof -
  assume d: "list_all ascii_digit d" and r: "rest = [] \<or> \<not> ascii_digit (hd rest)"
  have "takeWhile ascii_digit rest = []" "dropWhile ascii_digit rest = rest" using r by (cases rest; simp)+
  with d show ?thesis by (simp add: span_digits_def list_all_iff)
qed

lemma ends_value_no_number:
  assumes "ends_value rest"
  shows "rest = [] \<or> \<not> ascii_digit (hd rest)" "read_fraction rest = ([], rest)" "read_exponent rest = ([], rest)"
  using assms by (cases rest; auto simp: ends_value_def ascii_digit_def read_fraction_def read_exponent_def)+

lemma read_int_part_append:
  assumes "i \<noteq> []" and "list_all ascii_digit i" and "hd i = CHR ''0'' \<longrightarrow> i = ''0''"
    and "rest = [] \<or> \<not> ascii_digit (hd rest)"
  shows "read_int_part (i @ rest) = Some (i, rest)"
proof (cases i)
  case (Cons c i')
  show ?thesis
  proof (cases "c = CHR ''0''")
    case True
    with assms(3) Cons show ?thesis by (simp add: read_int_part_def)
  next
    case False
    with assms(2) Cons span_digits_append[OF assms(2,4)] show ?thesis by (simp add: read_int_part_def)
  qed
qed (use assms(1) in simp)

lemma nat_str_head: "hd (nat_str n) = CHR ''0'' \<longrightarrow> nat_str n = ''0''"
proof (induction n rule: nat_str.induct)
  case (1 n)
  show ?case
  proof (cases "n < 10")
    case True
    have "digit_char n = CHR ''0'' \<longrightarrow> n = 0"
    proof
      assume "digit_char n = CHR ''0''"
      then have "(of_char (digit_char n) :: nat) = 48" by simp
      with True show "n = 0" by simp
    qed
    with True show ?thesis by (auto simp: nat_str.simps[of n] nat_str.simps[of 0] digit_char_def)
  next
    case False
    have "nat_str (n div 10) \<noteq> ''0''"
    proof
      assume "nat_str (n div 10) = ''0''"
      then have "digits_value (nat_str (n div 10)) = digits_value ''0''" by simp
      moreover have "digits_value ''0'' = 0" by (simp add: digits_value_def)
      ultimately have "n div 10 = 0" by simp
      with False show False by simp
    qed
    with 1 False have "hd (nat_str (n div 10)) \<noteq> CHR ''0''" by simp
    moreover have "nat_str n = nat_str (n div 10) @ [digit_char n]" using False by (simp add: nat_str.simps[of n])
    ultimately show ?thesis by simp
  qed
qed

lemma digit_head_sign: "ascii_digit c \<Longrightarrow> c \<noteq> CHR ''-''"
  by (auto simp: ascii_digit_def)

lemma nat_str_first: "ascii_digit (hd (nat_str n))"
  using nat_str_digits[of n] by (cases "nat_str n") simp_all

text \<open>The sign of a number and what is behind it.\<close>

definition read_sign :: "string \<Rightarrow> string \<times> string" where
  "read_sign s = (case s of c # s' \<Rightarrow> if c = CHR ''-'' then ([c], s') else ([], s) | [] \<Rightarrow> ([], s))"

lemma read_sign_append:
  assumes "s = [] \<or> s = ''-''" and "t \<noteq> []" and "ascii_digit (hd t)"
  shows "read_sign (s @ t) = (s, t)"
  using assms digit_head_sign[of "hd t"] by (cases t) (auto simp: read_sign_def)

lemma read_number_sign:
  "read_number J s = (let (sign, s1) = read_sign s in
      case read_int_part s1 of
        None \<Rightarrow> None
      | Some (i, s2) \<Rightarrow>
          (let (f, s3) = read_fraction s2; (e, s4) = read_exponent s3 in
           if f = [] \<and> e = []
           then Some (rbind (int_of_digits i) (\<lambda>n. Inr (PInt (if sign = [] then int n else - int n), s4)))
           else Some (Inr (PFloat (Fin (jl_float_read J (sign @ i @ f @ e))), s4))))"
  unfolding read_number_def read_sign_def ..

lemma read_number_int:
  assumes "json_int i = Inr t" and "ends_value rest"
  shows "read_number J (t @ rest) = Some (Inr (PInt i, rest))"
proof -
  let ?n = "nat \<bar>i\<bar>"
  let ?s = "if i < 0 then ''-'' else []"
  have t: "t = ?s @ nat_str ?n" "length (nat_str ?n) \<le> max_int_digits"
    using assms(1) by (auto simp: json_int_def int_str_def split: if_splits)
  have "read_sign (?s @ (nat_str ?n @ rest)) = (?s, nat_str ?n @ rest)"
    by (rule read_sign_append) (auto simp: nat_str_first)
  moreover have "read_int_part (nat_str ?n @ rest) = Some (nat_str ?n, rest)"
    by (rule read_int_part_append[OF _ nat_str_digits nat_str_head ends_value_no_number(1)[OF assms(2)]]) simp
  ultimately show ?thesis
    using ends_value_no_number[OF assms(2)] int_of_nat_str[OF t(2)]
    by (cases "i < 0") (simp_all add: read_number_sign t(1))
qed

lemma read_fraction_append:
  assumes "f = [] \<or> (\<exists>d. f = CHR ''.'' # d \<and> d \<noteq> [] \<and> list_all ascii_digit d)"
    and "rest = [] \<or> (\<not> ascii_digit (hd rest) \<and> hd rest \<noteq> CHR ''.'')"
  shows "read_fraction (f @ rest) = (f, rest)"
proof (cases "f = []")
  case True
  then show ?thesis using assms(2) by (cases rest) (auto simp: read_fraction_def)
next
  case False
  with assms(1) obtain d where d: "f = CHR ''.'' # d" "d \<noteq> []" "list_all ascii_digit d" by blast
  have "span_digits (d @ rest) = (d, rest)" using span_digits_append[OF d(3)] assms(2) by blast
  with d show ?thesis by (simp add: read_fraction_def)
qed

lemma read_exponent_append:
  assumes "e = [] \<or> (\<exists>c s' d. e = c # s' @ d \<and> c \<in> {CHR ''e'', CHR ''E''} \<and> s' \<in> {[], ''-'', ''+''}
      \<and> d \<noteq> [] \<and> list_all ascii_digit d)" and "ends_value rest"
  shows "read_exponent (e @ rest) = (e, rest)"
proof (cases "e = []")
  case True
  then show ?thesis using ends_value_no_number(3)[OF assms(2)] by simp
next
  case False
  with assms(1) obtain c s' d where e: "e = c # s' @ d" "c \<in> {CHR ''e'', CHR ''E''}" "s' \<in> {[], ''-'', ''+''}"
    "d \<noteq> []" "list_all ascii_digit d" by blast
  have span: "span_digits (d @ rest) = (d, rest)"
    using span_digits_append[OF e(5) ends_value_no_number(1)[OF assms(2)]] .
  have "ascii_digit (hd d)" using e(4,5) by (cases d) simp_all
  then have "hd d \<noteq> CHR ''-''" "hd d \<noteq> CHR ''+''" by (auto simp: ascii_digit_def)
  with e span show ?thesis
    by (cases d) (auto simp: read_exponent_def Let_def)
qed

lemma float_text_read:
  assumes "float_text t" and "ends_value rest"
  shows "read_number J (t @ rest) = Some (Inr (PFloat (Fin (jl_float_read J t)), rest))"
proof -
  obtain s i f e where t: "t = s @ i @ f @ e" "s = [] \<or> s = ''-''" "i \<noteq> []" "list_all ascii_digit i"
      "hd i = CHR ''0'' \<longrightarrow> i = ''0''"
      "f = [] \<or> (\<exists>d. f = CHR ''.'' # d \<and> d \<noteq> [] \<and> list_all ascii_digit d)"
      "e = [] \<or> (\<exists>c s' d. e = c # s' @ d \<and> c \<in> {CHR ''e'', CHR ''E''} \<and> s' \<in> {[], ''-'', ''+''}
           \<and> d \<noteq> [] \<and> list_all ascii_digit d)" "f \<noteq> [] \<or> e \<noteq> []"
    using assms(1) unfolding float_text_def by blast
  have hd_i: "ascii_digit (hd i)" using t(3,4) by (cases i) simp_all
  have er: "e @ rest = [] \<or> (\<not> ascii_digit (hd (e @ rest)) \<and> hd (e @ rest) \<noteq> CHR ''.'')"
    using t(7) assms(2) by (cases "e = []"; cases rest) (auto simp: ends_value_def ascii_digit_def)
  have fr: "f @ e @ rest = [] \<or> \<not> ascii_digit (hd (f @ e @ rest))"
    using t(6) er by (cases "f = []") (auto simp: ascii_digit_def)
  have "read_sign (s @ (i @ f @ e @ rest)) = (s, i @ f @ e @ rest)"
    by (rule read_sign_append[OF t(2)]) (use t(3) hd_i in auto)
  moreover have "read_int_part (i @ f @ e @ rest) = Some (i, f @ e @ rest)"
    by (rule read_int_part_append[OF t(3,4,5) fr])
  moreover have "read_fraction (f @ e @ rest) = (f, e @ rest)" by (rule read_fraction_append[OF t(6) er])
  moreover have "read_exponent (e @ rest) = (e, rest)" by (rule read_exponent_append[OF t(7) assms(2)])
  ultimately show ?thesis using t(8)
    by (cases "f = []"; cases "e = []") (simp_all add: read_number_sign t(1))
qed

lemma read_keyword_number:
  "(s = [] \<or> s = ''-'') \<Longrightarrow> t \<noteq> [] \<Longrightarrow> ascii_digit (hd t) \<Longrightarrow> read_keyword json_words (s @ t) = None"
  by (cases t) (auto simp: json_words_def read_word_def ascii_digit_def)

lemma read_keyword_words:
  "read_keyword json_words (''null'' @ rest) = Some (PNone, rest)"
  "read_keyword json_words (''true'' @ rest) = Some (PBool True, rest)"
  "read_keyword json_words (''false'' @ rest) = Some (PBool False, rest)"
  "read_keyword json_words (''NaN'' @ rest) = Some (PFloat NaN, rest)"
  "read_keyword json_words (''Infinity'' @ rest) = Some (PFloat PosInf, rest)"
  "read_keyword json_words (''-Infinity'' @ rest) = Some (PFloat NegInf, rest)"
  by (simp_all add: json_words_def read_word_def)

text \<open>The head of a written value is no white space and closes nothing.\<close>

definition opens_value :: "string \<Rightarrow> bool" where
  "opens_value t \<longleftrightarrow> t \<noteq> [] \<and> \<not> json_space (hd t) \<and> hd t \<noteq> CHR '']'' \<and> hd t \<noteq> CHR ''}''"

lemma opens_value_append: "opens_value t \<Longrightarrow> opens_value (t @ rest)"
  by (simp add: opens_value_def)

lemma skip_space_opens: "opens_value t \<Longrightarrow> skip_space (t @ rest) = t @ rest"
  by (cases t) (simp_all add: opens_value_def skip_space_def)

lemma skip_space_simps [simp]:
  "skip_space [] = []" "skip_space (CHR '' '' # s) = skip_space s"
  "skip_space (CHR '','' # s) = CHR '','' # s" "skip_space (CHR '']'' # s) = CHR '']'' # s"
  "skip_space (CHR ''}'' # s) = CHR ''}'' # s" "skip_space (CHR '':'' # s) = CHR '':'' # s"
  "skip_space (CHR 0x22 # s) = CHR 0x22 # s"
  by (simp_all add: skip_space_def json_space_def)

lemma digit_opens: "t \<noteq> [] \<Longrightarrow> ascii_digit (hd t) \<or> hd t = CHR ''-'' \<Longrightarrow> opens_value t"
  by (auto simp: opens_value_def json_space_def ascii_digit_def)

lemma json_string_opens [simp]: "opens_value (json_string a s)"
  by (simp add: opens_value_def json_string_def json_space_def)

lemma json_int_opens: "json_int i = Inr t \<Longrightarrow> opens_value t"
  by (rule digit_opens) (auto simp: json_int_def int_str_def nat_str_first split: if_splits)

lemma float_text_opens: "float_text t \<Longrightarrow> opens_value t"
proof (rule digit_opens)
  assume "float_text t"
  then obtain s i r where "t = s @ i @ r" "s = [] \<or> s = ''-''" "i \<noteq> []" "list_all ascii_digit i"
    unfolding float_text_def by blast
  then show "t \<noteq> []" "ascii_digit (hd t) \<or> hd t = CHR ''-''" by (cases i; auto)+
qed

lemma dumps_opens: "dumps J a None v = Inr t \<Longrightarrow> json_ok J v \<Longrightarrow> opens_value t"
proof (cases v)
  case (PFloat x)
  assume "dumps J a None v = Inr t" "json_ok J v"
  with PFloat show ?thesis
    by (cases x) (auto simp: float_law_def dest: float_text_opens, auto simp: opens_value_def json_space_def)
qed (auto simp: json_int_opens rbind_Inr_iff, auto simp: opens_value_def json_space_def)

lemma read_value_number:
  assumes "opens_value t" and "ascii_digit (hd t) \<or> hd t = CHR ''-''" and "read_keyword json_words (t @ rest) = None"
  shows "read_value J (Suc n) (t @ rest) = read_number J (t @ rest)"
proof (cases t)
  case (Cons c t')
  with assms(2) have "c \<noteq> CHR 0x22" "c \<noteq> CHR ''[''" "c \<noteq> CHR ''{''" by (auto simp: ascii_digit_def)
  with Cons assms(3) show ?thesis by simp
qed (use assms(1) in \<open>simp add: opens_value_def\<close>)

lemma list_json_norm [simp]: "json_norm (PList xs) = PList (map json_norm xs)"
  by simp

lemma keys_norm: "dict_ok m \<Longrightarrow> dict_update [] (map (\<lambda>(k, v). (k, json_norm v)) m) = map (\<lambda>(k, v). (k, json_norm v)) m"
proof -
  assume "dict_ok m"
  moreover have "keys (map (\<lambda>(k, v). (k, json_norm v)) m) = keys m" by (induction m) auto
  ultimately have "dict_ok (map (\<lambda>(k, v). (k, json_norm v)) m)" unfolding dict_ok_def by metis
  from dict_update_disjoint[OF this, of "[]"] show ?thesis by simp
qed

lemma ends_value_simps [simp]:
  "ends_value []" "ends_value (CHR '','' # s)" "ends_value (CHR '']'' # s)" "ends_value (CHR ''}'' # s)"
  by (simp_all add: ends_value_def)

lemma read_scalar:
  assumes "dumps J a None v = Inr t" and "json_ok J v" and "ends_value rest"
    and "\<forall>xs. v \<noteq> PTuple xs \<and> v \<noteq> PList xs" and "\<forall>m. v \<noteq> PDict m"
  shows "read_value J (Suc n) (t @ rest) = Some (Inr (json_norm v, rest))"
proof (cases v)
  case (PInt i)
  with assms(1) have t: "json_int i = Inr t" by simp
  then have shape: "t = (if i < 0 then ''-'' else []) @ nat_str (nat \<bar>i\<bar>)"
    by (auto simp: json_int_def int_str_def split: if_splits)
  have "ascii_digit (hd (nat_str (nat \<bar>i\<bar>) @ rest))" by (simp add: nat_str_first)
  then have "read_keyword json_words (t @ rest) = None"
    using read_keyword_number[of "if i < 0 then ''-'' else []" "nat_str (nat \<bar>i\<bar>) @ rest"] by (simp add: shape)
  moreover have "ascii_digit (hd t) \<or> hd t = CHR ''-''" by (simp add: shape nat_str_first)
  ultimately show ?thesis
    using read_value_number[OF json_int_opens[OF t]] read_number_int[OF t assms(3)] PInt by simp
next
  case (PFloat x)
  show ?thesis
  proof (cases x)
    case (Fin r)
    with PFloat assms(1,2) have t: "t = jl_float_repr J r" "float_text t" "jl_float_read J t = r"
      by (auto simp: float_law_def)
    then obtain s i u where u: "t = s @ i @ u" "s = [] \<or> s = ''-''" "i \<noteq> []" "list_all ascii_digit i"
      unfolding float_text_def by blast
    then have "ascii_digit (hd (i @ u @ rest))" by (cases i) simp_all
    then have "read_keyword json_words (t @ rest) = None"
      using read_keyword_number[OF u(2), of "i @ u @ rest"] u(1,3) by simp
    moreover have "ascii_digit (hd t) \<or> hd t = CHR ''-''" using u by (cases i; auto)
    ultimately show ?thesis
      using read_value_number[OF float_text_opens[OF t(2)]] float_text_read[OF t(2) assms(3)] t PFloat Fin by simp
  qed (use assms PFloat in \<open>auto simp: read_keyword_words[simplified]\<close>)
next
  case (PStr s)
  with assms(1) obtain u where u: "t = json_string a s" "t @ rest = CHR 0x22 # u" by (simp add: json_string_def)
  with read_string_written[of a s rest u] PStr show ?thesis by simp
qed (use assms in \<open>auto simp: read_keyword_words[simplified]\<close>)

lemma scalar_reads:
  assumes "dumps J a None v = Inr t" and "json_ok J v" and "ends_value rest" and "2 * length t \<le> n"
    and "\<forall>xs. v \<noteq> PTuple xs \<and> v \<noteq> PList xs" and "\<forall>m. v \<noteq> PDict m"
  shows "read_value J n (t @ rest) = Some (Inr (json_norm v, rest))"
proof -
  have "t \<noteq> []" using dumps_opens[OF assms(1,2)] by (simp add: opens_value_def)
  with assms(4) obtain m where "n = Suc m" by (cases n) auto
  with read_scalar[OF assms(1,2,3,5,6)] show ?thesis by simp
qed

text \<open>
  The three readers on what the three writers give. The bound is spent once per value and once
  per item, each of which writes at least one character.
\<close>

lemma dumps_items_Inr:
  "dumps_items J a d (v # vs) = Inr t \<longleftrightarrow> (\<exists>tv ts. dumps J a d v = Inr tv \<and> dumps_items J a d vs = Inr ts
    \<and> t = (if vs = [] then tv else tv @ '', '' @ ts))"
  by (auto simp: rbind_Inr_iff)

lemma dumps_members_Inr:
  "dumps_members J a d ((k, v) # m) = Inr t \<longleftrightarrow> (\<exists>tv ts. dumps J a d v = Inr tv \<and> dumps_members J a d m = Inr ts
    \<and> t = json_string a k @ '': '' @ (if m = [] then tv else tv @ '', '' @ ts))"
  by (auto simp: rbind_Inr_iff)

definition value_reads :: "json_lib \<Rightarrow> bool \<Rightarrow> pyval \<Rightarrow> bool" where
  "value_reads J a v \<longleftrightarrow> (\<forall>t n rest. dumps J a None v = Inr t \<longrightarrow> json_ok J v \<longrightarrow> 2 * length t \<le> n \<longrightarrow> ends_value rest
     \<longrightarrow> read_value J n (t @ rest) = Some (Inr (json_norm v, rest)))"

lemma value_readsD:
  "value_reads J a v \<Longrightarrow> dumps J a None v = Inr t \<Longrightarrow> json_ok J v \<Longrightarrow> 2 * length t \<le> n \<Longrightarrow> ends_value rest
    \<Longrightarrow> read_value J n (t @ rest) = Some (Inr (json_norm v, rest))"
  by (simp add: value_reads_def)

lemma items_head: "dumps_items J a None (v # vs) = Inr t \<Longrightarrow> json_ok J v \<Longrightarrow> opens_value t"
  using dumps_opens opens_value_append by (auto simp: dumps_items_Inr simp del: dumps_items.simps)

lemma items_read:
  assumes "\<And>v. v \<in> set vs \<Longrightarrow> value_reads J a v" and "vs \<noteq> []" and "dumps_items J a None vs = Inr t"
    and "list_all (json_ok J) vs" and "2 * length t + 1 \<le> n"
  shows "read_items J n (t @ CHR '']'' # rest) = Some (Inr (map json_norm vs, rest))"
  using assms
proof (induction vs arbitrary: t n)
  case (Cons v vs)
  from Cons.prems(3) obtain tv ts where t: "dumps J a None v = Inr tv" "dumps_items J a None vs = Inr ts"
      "t = (if vs = [] then tv else tv @ '', '' @ ts)" unfolding dumps_items_Inr by blast
  obtain m where n: "n = Suc m" using Cons.prems(5) by (cases n) simp_all
  have v: "read_value J m (tv @ x) = Some (Inr (json_norm v, x))" if "ends_value x" for x
    using value_readsD[OF Cons.prems(1)[of v] t(1) _ _ that] Cons.prems(4,5) t(3) by (simp add: n split: if_splits)
  show ?case
  proof (cases "vs = []")
    case True
    with v[of "CHR '']'' # rest"] t show ?thesis by (simp add: n)
  next
    case False
    then obtain u us where u: "vs = u # us" by (cases vs) auto
    have "opens_value ts" using items_head[of J a u us ts] t(2) Cons.prems(4) u by simp
    then have "skip_space (ts @ CHR '']'' # rest) = ts @ CHR '']'' # rest" by (rule skip_space_opens)
    moreover have "read_items J m (ts @ CHR '']'' # rest) = Some (Inr (map json_norm vs, rest))"
      using Cons.IH[OF _ False t(2)] Cons.prems(1,4,5) t(3) False by (simp add: n)
    ultimately show ?thesis using v[of "'', '' @ ts @ CHR '']'' # rest"] t(3) False by (simp add: n)
  qed
qed simp

lemma members_head: "dumps_members J a None (kv # m) = Inr t \<Longrightarrow> opens_value t"
  by (cases kv) (auto simp: dumps_members_Inr opens_value_append simp del: dumps_members.simps)

lemma members_read:
  assumes "\<And>k v. (k, v) \<in> set m \<Longrightarrow> value_reads J a v" and "m \<noteq> []" and "dumps_members J a None m = Inr t"
    and "list_all (\<lambda>(k, v). json_ok J v) m" and "2 * length t + 1 \<le> n"
  shows "read_members J n (t @ CHR ''}'' # rest) = Some (Inr (map (\<lambda>(k, v). (k, json_norm v)) m, rest))"
  using assms
proof (induction m arbitrary: t n)
  case (Cons kv m)
  obtain k v where kv: "kv = (k, v)" by (cases kv)
  from Cons.prems(3) obtain tv ts where t: "dumps J a None v = Inr tv" "dumps_members J a None m = Inr ts"
      "t = json_string a k @ '': '' @ (if m = [] then tv else tv @ '', '' @ ts)" unfolding kv dumps_members_Inr by blast
  obtain l where n: "n = Suc l" using Cons.prems(5) by (cases n) simp_all
  have ok: "json_ok J v" using Cons.prems(4) kv by simp
  have skip: "skip_space (tv @ x) = tv @ x" for x by (rule skip_space_opens[OF dumps_opens[OF t(1) ok]])
  have v: "read_value J l (tv @ x) = Some (Inr (json_norm v, x))" if "ends_value x" for x
    using value_readsD[OF Cons.prems(1)[of k v] t(1) ok _ that] Cons.prems(5) t(3) by (simp add: n kv split: if_splits)
  have key: "read_members J (Suc l) (json_string a k @ '': '' @ x)
      = parsed_bind (read_value J l (skip_space x)) (\<lambda>v r2.
          case skip_space r2 of
            y # r3 \<Rightarrow>
              if y = CHR ''}'' then Some (Inr ([(k, v)], r3))
              else if y = CHR '','' then
                parsed_bind (read_members J l (skip_space r3)) (\<lambda>ms r4. Some (Inr ((k, v) # ms, r4)))
              else None
          | [] \<Rightarrow> None)" for x
  proof -
    obtain u where u: "json_string a k @ '': '' @ x = CHR 0x22 # u" by (simp add: json_string_def)
    show ?thesis unfolding u using read_string_written[OF u] by simp
  qed
  show ?case
  proof (cases "m = []")
    case True
    with v[of "CHR ''}'' # rest"] key[of "tv @ CHR ''}'' # rest"] t(3) skip show ?thesis by (simp add: n kv)
  next
    case False
    then obtain u us where u: "m = u # us" by (cases m) auto
    have "opens_value ts" using members_head[of J a u us ts] t(2) u by simp
    then have "skip_space (ts @ CHR ''}'' # rest) = ts @ CHR ''}'' # rest" by (rule skip_space_opens)
    moreover have "read_members J l (ts @ CHR ''}'' # rest) = Some (Inr (map (\<lambda>(k, v). (k, json_norm v)) m, rest))"
      by (rule Cons.IH[OF _ False t(2)]) (use Cons.prems(1,4,5) t(3) False in \<open>auto simp: n\<close>)
    ultimately show ?thesis
      using v[of "'', '' @ ts @ CHR ''}'' # rest"] key[of "tv @ '', '' @ ts @ CHR ''}'' # rest"] t(3) skip False
      by (simp add: n kv)
  qed
qed simp

lemma list_reads:
  assumes "\<And>v. v \<in> set vs \<Longrightarrow> value_reads J a v"
    and "dumps_items J a None vs = Inr u" and "list_all (json_ok J) vs" and "2 * length u + 3 \<le> n"
  shows "read_value J (Suc n) (CHR ''['' # u @ CHR '']'' # rest) = Some (Inr (PList (map json_norm vs), rest))"
proof (cases vs)
  case Nil
  with assms(2) show ?thesis by simp
next
  case (Cons v vs')
  with assms(2,3) have o: "opens_value u" using items_head[of J a v vs' u] by simp
  then obtain c u' where u: "u = c # u'" "c \<noteq> CHR '']''" by (cases u) (auto simp: opens_value_def)
  have "read_items J n (u @ CHR '']'' # rest) = Some (Inr (map json_norm vs, rest))"
    by (rule items_read[OF assms(1) _ assms(2,3)]) (use Cons assms(4) in auto)
  with skip_space_opens[OF o, of "CHR '']'' # rest"] u show ?thesis by simp
qed

lemma dict_reads:
  assumes "\<And>k v. (k, v) \<in> set m \<Longrightarrow> value_reads J a v" and "dict_ok m"
    and "dumps_members J a None m = Inr u" and "list_all (\<lambda>(k, v). json_ok J v) m" and "2 * length u + 3 \<le> n"
  shows "read_value J (Suc n) (CHR ''{'' # u @ CHR ''}'' # rest)
    = Some (Inr (PDict (map (\<lambda>(k, v). (k, json_norm v)) m), rest))"
proof (cases m)
  case Nil
  with assms(3) show ?thesis by simp
next
  case (Cons kv m')
  with assms(3) have o: "opens_value u" using members_head[of J a kv m' u] by simp
  then obtain c u' where u: "u = c # u'" "c \<noteq> CHR ''}''" by (cases u) (auto simp: opens_value_def)
  have "read_members J n (u @ CHR ''}'' # rest) = Some (Inr (map (\<lambda>(k, v). (k, json_norm v)) m, rest))"
    by (rule members_read[OF assms(1) _ assms(3,4)]) (use Cons assms(5) in auto)
  with skip_space_opens[OF o, of "CHR ''}'' # rest"] u keys_norm[OF assms(2)] show ?thesis by simp
qed

lemma value_reads_all: "value_reads J a v"
proof (induction v)
  case (PTuple xs)
  show ?case unfolding value_reads_def
  proof (intro allI impI)
    fix t n rest
    assume "dumps J a None (PTuple xs) = Inr t" and ok: "json_ok J (PTuple xs)" and n: "2 * length t \<le> n"
    then obtain u where u: "dumps_items J a None xs = Inr u" "t = ''['' @ u @ '']''" by (auto simp: rbind_Inr_iff)
    with n obtain k where k: "n = Suc k" "2 * length u + 3 \<le> k" by (cases n) auto
    show "read_value J n (t @ rest) = Some (Inr (json_norm (PTuple xs), rest))"
      using list_reads[OF PTuple u(1) _ k(2), where rest = rest] ok by (simp add: k(1) u(2))
  qed
next
  case (PList xs)
  show ?case unfolding value_reads_def
  proof (intro allI impI)
    fix t n rest
    assume "dumps J a None (PList xs) = Inr t" and ok: "json_ok J (PList xs)" and n: "2 * length t \<le> n"
    then obtain u where u: "dumps_items J a None xs = Inr u" "t = ''['' @ u @ '']''" by (auto simp: rbind_Inr_iff)
    with n obtain k where k: "n = Suc k" "2 * length u + 3 \<le> k" by (cases n) auto
    show "read_value J n (t @ rest) = Some (Inr (json_norm (PList xs), rest))"
      using list_reads[OF PList u(1) _ k(2), where rest = rest] ok by (simp add: k(1) u(2))
  qed
next
  case (PDict m)
  have IH: "value_reads J a w" if "(k, w) \<in> set m" for k w
    using PDict[OF that, of w] by (simp add: snds.simps)
  show ?case unfolding value_reads_def
  proof (intro allI impI)
    fix t n rest
    assume "dumps J a None (PDict m) = Inr t" and ok: "json_ok J (PDict m)" and n: "2 * length t \<le> n"
    then obtain u where u: "dumps_members J a None m = Inr u" "t = ''{'' @ u @ ''}''" by (auto simp: rbind_Inr_iff)
    with n obtain k where k: "n = Suc k" "2 * length u + 3 \<le> k" by (cases n) auto
    show "read_value J n (t @ rest) = Some (Inr (json_norm (PDict m), rest))"
      using dict_reads[OF IH _ u(1) _ k(2), where rest = rest] ok by (simp add: k(1) u(2))
  qed
qed (unfold value_reads_def, (intro allI impI, rule scalar_reads; simp)+)

text \<open>Whatever \<open>dumps\<close> writes, \<open>loads\<close> reads back as the same document with its
  tuples as lists, for every document whose floating point texts are read back; a written text
  is never refused.\<close>

theorem loads_dumps:
  assumes "dumps J a None v = Inr t" and "json_ok J v"
  shows "loads J t = Inr (json_norm v)"
proof -
  have "skip_space t = t" using skip_space_opens[OF dumps_opens[OF assms], of "[]"] by simp
  with value_readsD[OF value_reads_all assms order_refl, of "[]"] show ?thesis by (simp add: loads_def)
qed

definition demo_json :: json_lib where
  "demo_json = \<lparr>jl_float_repr = (\<lambda>_. ''1.5''), jl_float_read = (\<lambda>_. 3 / 2), jl_decode_message = (\<lambda>_. [])\<rparr>"

definition demo_document :: pyval where
  "demo_document = PDict [(''x'', PTuple [PInt (- 10), PFloat (Fin (3 / 2)), PStr [CHR 0x0A, CHR 0xE9]]), (''y'', PNone)]"

lemma loads_dumps_demo:
  "\<exists>t. dumps demo_json True None demo_document = Inr t
    \<and> loads demo_json t = Inr (PDict [(''x'', PList [PInt (- 10), PFloat (Fin (3 / 2)), PStr [CHR 0x0A, CHR 0xE9]]),
          (''y'', PNone)])"
proof -
  have "float_text ''1.5''"
    unfolding float_text_def
    by (rule exI[of _ "[]"], rule exI[of _ "''1''"], rule exI[of _ "''.5''"], rule exI[of _ "[]"])
      (simp add: ascii_digit_def)
  then have "json_ok demo_json demo_document"
    by (simp add: demo_document_def demo_json_def float_law_def dict_ok_def)
  moreover obtain t where "dumps demo_json True None demo_document = Inr t"
    by (simp add: demo_document_def json_int_def max_int_digits_def nat_str.simps)
  ultimately show ?thesis using loads_dumps[of demo_json True demo_document t] by (simp add: demo_document_def)
qed

end
