(* ===== verification/Timestamps.thy ===== *)
theory Timestamps
  imports Values Text
begin

text \<open>
  Reading back the text \<open>isoformat\<close> gives a \<open>datetime\<close>. The standard library's
  \<open>fromisoformat\<close> accepts further shapes (basic formats, week dates, shorter times); the
  model has the extended shape \<open>isoformat\<close> writes, the only one the kernel stores, and
  refuses the others.
\<close>

section \<open>Valid datetimes\<close>

definition day_micros :: int where
  "day_micros = 86400000000"

definition check_datetime :: "datetime \<Rightarrow> datetime res" where
  "check_datetime d =
     (let value_error = (\<lambda>m. Inl (Exn (ForeignException ''ValueError'') m)) in
      if dt_year d < 1 \<or> 9999 < dt_year d then value_error (''year '' @ nat_str (dt_year d) @ '' is out of range'')
      else if dt_month d < 1 \<or> 12 < dt_month d then value_error ''month must be in 1..12''
      else if dt_day d < 1 \<or> days_in_month (dt_year d) (dt_month d) < dt_day d
      then value_error ''day is out of range for month''
      else if 23 < dt_hour d then value_error ''hour must be in 0..23''
      else if 59 < dt_minute d then value_error ''minute must be in 0..59''
      else if 59 < dt_second d then value_error ''second must be in 0..59''
      else if 999999 < dt_micro d then value_error ''microsecond must be in 0..999999''
      else (case dt_offset d of
              Some off \<Rightarrow> if day_micros \<le> \<bar>off\<bar>
                then value_error ''offset must be a timedelta strictly between -timedelta(hours=24) and timedelta(hours=24).''
                else Inr d
            | None \<Rightarrow> Inr d))"

definition datetime_ok :: "datetime \<Rightarrow> bool" where
  "datetime_ok d \<longleftrightarrow> check_datetime d = Inr d"

section \<open>Fields of fixed width\<close>

definition take_number :: "nat \<Rightarrow> string \<Rightarrow> (nat \<times> string) option" where
  "take_number k s =
     (if k \<le> length s \<and> list_all ascii_digit (take k s) then Some (digits_value (take k s), drop k s) else None)"

definition take_char :: "char \<Rightarrow> string \<Rightarrow> string option" where
  "take_char c s = (case s of x # s' \<Rightarrow> if x = c then Some s' else None | [] \<Rightarrow> None)"

definition take_fraction :: "string \<Rightarrow> (nat \<times> string) option" where
  "take_fraction s = (case take_char (CHR ''.'') s of None \<Rightarrow> Some (0, s) | Some s' \<Rightarrow> take_number 6 s')"

definition take_time :: "string \<Rightarrow> ((nat \<times> nat \<times> nat \<times> nat) \<times> string) option" where
  "take_time s =
     Option.bind (take_number 2 s) (\<lambda>(h, s1).
     Option.bind (take_char (CHR '':'') s1) (\<lambda>s2.
     Option.bind (take_number 2 s2) (\<lambda>(m, s3).
     Option.bind (take_char (CHR '':'') s3) (\<lambda>s4.
     Option.bind (take_number 2 s4) (\<lambda>(sec, s5).
     Option.bind (take_fraction s5) (\<lambda>(us, s6). Some ((h, m, sec, us), s6)))))))"

text \<open>An offset may leave out its seconds.\<close>

definition take_offset_time :: "string \<Rightarrow> ((nat \<times> nat \<times> nat \<times> nat) \<times> string) option" where
  "take_offset_time s =
     Option.bind (take_number 2 s) (\<lambda>(h, s1).
     Option.bind (take_char (CHR '':'') s1) (\<lambda>s2.
     Option.bind (take_number 2 s2) (\<lambda>(m, s3).
     case take_char (CHR '':'') s3 of
       None \<Rightarrow> Some ((h, m, 0, 0), s3)
     | Some s4 \<Rightarrow> Option.bind (take_number 2 s4) (\<lambda>(sec, s5).
         Option.bind (take_fraction s5) (\<lambda>(us, s6). Some ((h, m, sec, us), s6))))))"

definition micros_of :: "nat \<times> nat \<times> nat \<times> nat \<Rightarrow> nat" where
  "micros_of = (\<lambda>(h, m, s, us). ((h * 60 + m) * 60 + s) * 1000000 + us)"

definition take_offset :: "string \<Rightarrow> (int option \<times> string) option" where
  "take_offset s =
     (case s of
        [] \<Rightarrow> Some (None, [])
      | c # s' \<Rightarrow>
          if c = CHR ''+'' then map_option (\<lambda>(t, r). (Some (int (micros_of t)), r)) (take_offset_time s')
          else if c = CHR ''-'' then map_option (\<lambda>(t, r). (Some (- int (micros_of t)), r)) (take_offset_time s')
          else None)"

definition parse_datetime :: "string \<Rightarrow> datetime option" where
  "parse_datetime s =
     Option.bind (take_number 4 s) (\<lambda>(y, s1).
     Option.bind (take_char (CHR ''-'') s1) (\<lambda>s2.
     Option.bind (take_number 2 s2) (\<lambda>(mo, s3).
     Option.bind (take_char (CHR ''-'') s3) (\<lambda>s4.
     Option.bind (take_number 2 s4) (\<lambda>(da, s5).
     Option.bind (take_char (CHR ''T'') s5) (\<lambda>s6.
     Option.bind (take_time s6) (\<lambda>((h, mi, sec, us), s7).
     Option.bind (take_offset s7) (\<lambda>(off, s8).
     if s8 = [] then Some \<lparr>dt_year = y, dt_month = mo, dt_day = da, dt_hour = h, dt_minute = mi,
        dt_second = sec, dt_micro = us, dt_offset = off\<rparr>
     else None))))))))"

definition fromisoformat :: "string \<Rightarrow> datetime res" where
  "fromisoformat s =
     (case parse_datetime s of
        Some d \<Rightarrow> check_datetime d
      | None \<Rightarrow> Inl (Exn (ForeignException ''ValueError'') (''Invalid isoformat string: '' @ repr_str s)))"

section \<open>The round trip\<close>

lemma digits_value_zeros: "digits_value (replicate k (CHR ''0'') @ s) = digits_value s"
proof -
  have "foldl (\<lambda>n c. 10 * n + (of_char c - 48)) 0 (replicate k (CHR ''0'')) = (0 :: nat)" by (induction k) simp_all
  then show ?thesis by (simp add: digits_value_def)
qed

lemma length_nat_str: "n < 10 ^ k \<Longrightarrow> 0 < k \<Longrightarrow> length (nat_str n) \<le> k"
proof (induction k arbitrary: n)
  case (Suc k)
  show ?case
  proof (cases "n < 10")
    case True
    then show ?thesis by (simp add: nat_str.simps[of n])
  next
    case False
    with Suc.prems have "0 < k" by (cases k) auto
    moreover have "n div 10 < 10 ^ k" using Suc.prems(1) by (simp add: div_less_iff_less_mult mult.commute)
    ultimately show ?thesis using Suc.IH[of "n div 10"] False by (simp add: nat_str.simps[of n])
  qed
qed simp

lemma take_number_pad:
  assumes "x < 10 ^ k" and "0 < k"
  shows "take_number k (pad k x @ rest) = Some (x, rest)"
proof -
  have len: "length (pad k x) = k" using length_nat_str[OF assms] by (simp add: pad_def Let_def)
  have "ascii_digit (CHR ''0'')" by (simp add: ascii_digit_def)
  then have digits: "list_all ascii_digit (pad k x)" using nat_str_digits[of x]
    by (auto simp: pad_def Let_def list_all_iff)
  have "digits_value (pad k x) = x" by (simp add: pad_def Let_def digits_value_zeros)
  with len digits show ?thesis by (simp add: take_number_def)
qed

lemma take_char_same [simp]: "take_char c (c # s) = Some s"
  by (simp add: take_char_def)

lemma take_fraction_written:
  assumes "us < 1000000" and "rest = [] \<or> hd rest \<noteq> CHR ''.''"
  shows "take_fraction ((if us = 0 then [] else ''.'' @ pad 6 us) @ rest) = Some (us, rest)"
proof (cases "us = 0")
  case True
  with assms(2) show ?thesis by (cases rest) (simp_all add: take_fraction_def take_char_def)
next
  case False
  with take_number_pad[of us 6 rest] assms(1) show ?thesis by (simp add: take_fraction_def)
qed

lemma take_time_written:
  assumes "h < 24" "m < 60" "s < 60" "us < 1000000" and "rest = [] \<or> hd rest \<noteq> CHR ''.''"
  shows "take_time (iso_time h m s us @ rest) = Some ((h, m, s, us), rest)"
proof -
  have bounds: "h < 10 ^ 2" "m < 10 ^ 2" "s < 10 ^ 2" using assms(1-3) by simp_all
  show ?thesis unfolding take_time_def iso_time_def append_assoc
    by (simp only: take_number_pad[OF bounds(1)] take_number_pad[OF bounds(2)] take_number_pad[OF bounds(3)]
        bind.simps prod.case append_Cons append_Nil take_char_same
        take_fraction_written[OF assms(4,5), unfolded append_Cons append_Nil] zero_less_numeral)
qed

lemma take_offset_time_written:
  assumes "h < 24" "m < 60" "s < 60" "us < 1000000"
  shows "take_offset_time (pad 2 h @ '':'' @ pad 2 m
      @ (if s = 0 \<and> us = 0 then [] else '':'' @ pad 2 s @ (if us = 0 then [] else ''.'' @ pad 6 us)))
    = Some ((h, m, s, us), [])"
proof -
  have bounds: "h < 10 ^ 2" "m < 10 ^ 2" "s < 10 ^ 2" using assms(1-3) by simp_all
  have fraction: "take_fraction (if us = 0 then [] else ''.'' @ pad 6 us) = Some (us, [])"
    using take_fraction_written[OF assms(4), of "[]"] by simp
  have minute: "take_number 2 (pad 2 m) = Some (m, [])" using take_number_pad[OF bounds(2), of "[]"] by simp
  show ?thesis
  proof (cases "s = 0 \<and> us = 0")
    case True
    have "take_char (CHR '':'') [] = None" by (simp add: take_char_def)
    with True show ?thesis unfolding take_offset_time_def
      by (simp only: take_number_pad[OF bounds(1)] minute if_True append_Nil2 option.case
          bind.simps prod.case append_Cons append_Nil take_char_same zero_less_numeral simp_thms)
  next
    case False
    show ?thesis unfolding take_offset_time_def if_not_P[OF False]
      by (simp only: take_number_pad[OF bounds(1)] take_number_pad[OF bounds(2)] take_number_pad[OF bounds(3)] option.case
          bind.simps prod.case append_Cons append_Nil take_char_same fraction[unfolded append_Cons append_Nil]
          zero_less_numeral)
  qed
qed

lemma micros_split: "micros_of (a div 3600000000, a div 60000000 mod 60, a div 1000000 mod 60, a mod 1000000) = a"
proof -
  let ?b = "a div 1000000"
  have "a div 60000000 = ?b div 60" "a div 3600000000 = ?b div 60 div 60"
    by (simp_all add: div_mult2_eq[symmetric])
  then have "(a div 3600000000 * 60 + a div 60000000 mod 60) * 60 + ?b mod 60 = ?b"
    by (simp only: div_mult_mod_eq)
  then show ?thesis unfolding micros_of_def prod.case by (simp only: div_mult_mod_eq)
qed

lemma take_offset_written:
  assumes "\<bar>off\<bar> < day_micros"
  shows "take_offset (iso_offset off) = Some (Some off, [])"
proof -
  define a where "a = nat \<bar>off\<bar>"
  have "a < 24 * 3600000000" using assms by (simp add: day_micros_def a_def)
  then have "a div 3600000000 < 24" by (simp only: div_less_iff_less_mult zero_less_numeral)
  note parts = take_offset_time_written[OF this, of "a div 60000000 mod 60" "a div 1000000 mod 60" "a mod 1000000"]
  have iso: "iso_offset off = (if off < 0 then ''-'' else ''+'') @ pad 2 (a div 3600000000) @ '':''
      @ pad 2 (a div 60000000 mod 60) @ (if a div 1000000 mod 60 = 0 \<and> a mod 1000000 = 0 then []
          else '':'' @ pad 2 (a div 1000000 mod 60) @ (if a mod 1000000 = 0 then [] else ''.'' @ pad 6 (a mod 1000000)))"
    by (simp only: iso_offset_def Let_def a_def)
  show ?thesis
  proof (cases "off < 0")
    case True
    have "take_offset (iso_offset off) = Some (Some (- int (micros_of (a div 3600000000, a div 60000000 mod 60,
        a div 1000000 mod 60, a mod 1000000))), [])"
      unfolding iso take_offset_def using parts True by simp
    with True show ?thesis unfolding micros_split by (simp add: a_def)
  next
    case False
    have "take_offset (iso_offset off) = Some (Some (int (micros_of (a div 3600000000, a div 60000000 mod 60,
        a div 1000000 mod 60, a mod 1000000))), [])"
      unfolding iso take_offset_def using parts False by simp
    with False show ?thesis unfolding micros_split by (simp add: a_def)
  qed
qed

lemma isoformat_roundtrip:
  assumes "datetime_ok d"
  shows "fromisoformat (isoformat d) = Inr d"
proof -
  from assms have ok: "1 \<le> dt_year d" "dt_year d \<le> 9999" "1 \<le> dt_month d" "dt_month d \<le> 12" "1 \<le> dt_day d"
      "dt_day d \<le> days_in_month (dt_year d) (dt_month d)" "dt_hour d < 24" "dt_minute d < 60" "dt_second d < 60"
      "dt_micro d < 1000000" "\<And>off. dt_offset d = Some off \<Longrightarrow> \<bar>off\<bar> < day_micros"
    by (auto simp: datetime_ok_def check_datetime_def Let_def split: if_splits option.splits)
  have "days_in_month (dt_year d) (dt_month d) \<le> 31" by (simp add: days_in_month_def)
  with ok have bounds: "dt_year d < 10 ^ 4" "dt_month d < 10 ^ 2" "dt_day d < 10 ^ 2" by simp_all
  let ?o = "case dt_offset d of None \<Rightarrow> [] | Some off \<Rightarrow> iso_offset off"
  have off: "take_offset ?o = Some (dt_offset d, [])"
    using take_offset_written ok(11) by (cases "dt_offset d") (simp_all add: take_offset_def)
  have "?o = [] \<or> hd ?o \<noteq> CHR ''.''" by (auto simp: iso_offset_def Let_def split: option.splits)
  note time = take_time_written[OF ok(7-10) this]
  have "parse_datetime (isoformat d) = Some d"
    unfolding parse_datetime_def isoformat_def append_assoc
    by (simp only: take_number_pad[OF bounds(1)] take_number_pad[OF bounds(2)] take_number_pad[OF bounds(3)]
        bind.simps prod.case append_Cons append_Nil take_char_same time off zero_less_numeral) simp
  with assms show ?thesis by (simp add: fromisoformat_def datetime_ok_def)
qed

end
