(* ===== verification/Sqlite_Store.thy ===== *)
theory Sqlite_Store
  imports Memory Json Timestamps
begin

text \<open>
  The durable store (\<open>memory/sqlite_store.py\<close>). A database is its table of rows in the order
  of their row ids, each row five texts, together with what the file system will do to the next
  statements: a statement either takes effect or fails as a whole with an \<open>sqlite3.Error\<close> and
  leaves the table as it was. The rows outlive the connection.
\<close>

section \<open>The database\<close>

record sql_row =
  sr_id :: string
  sr_content :: string
  sr_tags :: string
  sr_metadata :: string
  sr_created_at :: string

record sqlite =
  sq_rows :: "sql_row list"
  sq_open :: bool
  sq_faults :: "string option list"

text \<open>One statement; the messages still to come are consumed one per statement.\<close>

definition next_fault :: "sqlite \<Rightarrow> string option \<times> sqlite" where
  "next_fault db = (case sq_faults db of [] \<Rightarrow> (None, db) | f # fs \<Rightarrow> (f, db\<lparr>sq_faults := fs\<rparr>))"

definition sql_execute :: "(sql_row list \<Rightarrow> 'a \<times> sql_row list) \<Rightarrow> (sqlite, 'a) py" where
  "sql_execute statement = (\<lambda>db.
     if \<not> sq_open db
     then (Inl (Exn (ForeignException ''ProgrammingError'') ''Cannot operate on a closed database.''), db)
     else (case next_fault db of
             (Some m, db') \<Rightarrow> (Inl (Exn (ForeignException ''OperationalError'') m), db')
           | (None, db') \<Rightarrow> (case statement (sq_rows db) of (x, rows) \<Rightarrow> (Inr x, db'\<lparr>sq_rows := rows\<rparr>))))"

definition is_sqlite_error :: "exn \<Rightarrow> bool" where
  "is_sqlite_error e \<longleftrightarrow> exn_isa (ForeignException ''ProgrammingError'') e
     \<or> exn_isa (ForeignException ''OperationalError'') e"

text \<open>The statements; \<open>id\<close> is the primary key, and an upsert keeps the row id.\<close>

definition sql_upsert :: "sql_row \<Rightarrow> sql_row list \<Rightarrow> unit \<times> sql_row list" where
  "sql_upsert r rows = ((), if sr_id r \<in> sr_id ` set rows
     then map (\<lambda>x. if sr_id x = sr_id r then r else x) rows else rows @ [r])"

definition sql_select_one :: "string \<Rightarrow> sql_row list \<Rightarrow> sql_row option \<times> sql_row list" where
  "sql_select_one i rows = (find (\<lambda>r. sr_id r = i) rows, rows)"

definition sql_select_all :: "sql_row list \<Rightarrow> sql_row list \<times> sql_row list" where
  "sql_select_all rows = (rows, rows)"

definition sql_delete_one :: "string \<Rightarrow> sql_row list \<Rightarrow> nat \<times> sql_row list" where
  "sql_delete_one i rows = (length (filter (\<lambda>r. sr_id r = i) rows), filter (\<lambda>r. sr_id r \<noteq> i) rows)"

definition sql_delete_all :: "sql_row list \<Rightarrow> unit \<times> sql_row list" where
  "sql_delete_all rows = ((), [])"

section \<open>The store\<close>

text \<open>\<open>except sqlite3.Error\<close> around a statement.\<close>

definition or_memory_error :: "string \<Rightarrow> (sqlite, 'a) py \<Rightarrow> (sqlite, 'a) py" where
  "or_memory_error what m = attempt m
     (\<lambda>e. if is_sqlite_error e then throw (Exn MemoryError (what @ exn_text e)) else throw e) ret"

text \<open>\<open>_row_to_entry\<close>, for the documents \<open>add\<close> writes: a list of texts and a dictionary.\<close>

definition tags_of_json :: "pyval \<Rightarrow> string list res" where
  "tags_of_json v = (case v of
       PList xs \<Rightarrow> if list_all is_pystr xs then Inr (remdups (map (\<lambda>x. case x of PStr s \<Rightarrow> s | _ \<Rightarrow> []) xs))
         else Inl (type_error ''tags'')
     | _ \<Rightarrow> Inl (type_error ''tags''))"

definition metadata_of_json :: "pyval \<Rightarrow> payload res" where
  "metadata_of_json v = (case v of PDict m \<Rightarrow> Inr m | _ \<Rightarrow> Inl (type_error ''metadata''))"

definition row_to_entry :: "json_lib \<Rightarrow> sql_row \<Rightarrow> memory_entry res" where
  "row_to_entry J r =
     rbind (rbind (loads J (sr_tags r)) tags_of_json) (\<lambda>tags.
     rbind (rbind (loads J (sr_metadata r)) metadata_of_json) (\<lambda>metadata.
     rbind (fromisoformat (sr_created_at r)) (\<lambda>created_at.
     check_memory_entry \<lparr>me_id = sr_id r, me_content = sr_content r, me_tags = tags,
       me_metadata = metadata, me_created_at = created_at\<rparr>)))"

fun rows_to_entries :: "json_lib \<Rightarrow> sql_row list \<Rightarrow> memory_entry list res" where
  "rows_to_entries J [] = Inr []"
| "rows_to_entries J (r # rs) = rbind (row_to_entry J r) (\<lambda>e. rbind (rows_to_entries J rs) (\<lambda>es. Inr (e # es)))"

definition sql_matches :: "memory_entry \<Rightarrow> memory_query \<Rightarrow> bool" where
  "sql_matches e q =
     (if mq_id q \<noteq> None \<and> me_id e \<noteq> the (mq_id q) then False
      else if mq_tag q \<noteq> None \<and> the (mq_tag q) \<notin> set (me_tags e) then False
      else if mq_text q \<noteq> None \<and> \<not> substring (the (mq_text q)) (me_content e) then False
      else list_all (\<lambda>(k, v). py_eq (get_or (me_metadata e) k PNone) v) (mq_metadata q))"

text \<open>
  \<open>__init__\<close>: the connection is open once \<open>connect\<close> succeeded; the two pragmas and the
  \<open>CREATE TABLE IF NOT EXISTS\<close> leave the rows there are.
\<close>

definition sql_connect :: "(sqlite, unit) py" where
  "sql_connect = (\<lambda>db. case next_fault db of
       (Some m, db') \<Rightarrow> (Inl (Exn (ForeignException ''OperationalError'') m), db')
     | (None, db') \<Rightarrow> (Inr (), db'\<lparr>sq_open := True\<rparr>))"

definition sql_keep :: "sql_row list \<Rightarrow> unit \<times> sql_row list" where
  "sql_keep rows = ((), rows)"

definition sqlite_open :: "string \<Rightarrow> (sqlite, unit) py" where
  "sqlite_open path = or_memory_error (''Failed to open SQLite memory store at '' @ path @ '': '')
     (andthen sql_connect (andthen (sql_execute sql_keep) (andthen (sql_execute sql_keep) (sql_execute sql_keep))))"

definition sqlite_add :: "json_lib \<Rightarrow> memory_entry \<Rightarrow> (sqlite, unit) py" where
  "sqlite_add J e =
     bnd (lift_res (dumps J True None (PList (map PStr (sort (remdups (me_tags e))))))) (\<lambda>tags_json.
     bnd (attempt (lift_res (dumps J True None (PDict (me_metadata e))))
            (\<lambda>x. if exn_isa (ForeignException ''TypeError'') x
                 then throw (Exn MemoryError (''MemoryEntry.metadata for id='' @ repr_str (me_id e)
                        @ '' is not JSON-serializable: '' @ exn_text x))
                 else throw x) ret) (\<lambda>metadata_json.
     or_memory_error (''Failed to store entry id='' @ repr_str (me_id e) @ '': '')
       (sql_execute (sql_upsert \<lparr>sr_id = me_id e, sr_content = me_content e, sr_tags = tags_json,
          sr_metadata = metadata_json, sr_created_at = isoformat (me_created_at e)\<rparr>))))"

definition sqlite_get :: "json_lib \<Rightarrow> string \<Rightarrow> (sqlite, memory_entry option) py" where
  "sqlite_get J i =
     bnd (or_memory_error (''Failed to read entry id='' @ repr_str i @ '': '') (sql_execute (sql_select_one i))) (\<lambda>row.
     case row of None \<Rightarrow> ret None | Some r \<Rightarrow> bnd (lift_res (row_to_entry J r)) (\<lambda>e. ret (Some e)))"

definition sqlite_search :: "json_lib \<Rightarrow> memory_query \<Rightarrow> (sqlite, memory_result) py" where
  "sqlite_search J q =
     bnd (or_memory_error ''Failed to search memory store: '' (sql_execute sql_select_all)) (\<lambda>rows.
     bnd (lift_res (rows_to_entries J rows)) (\<lambda>entries.
     ret \<lparr>mr_entries = filter (\<lambda>e. sql_matches e q) entries\<rparr>))"

definition sqlite_delete :: "string \<Rightarrow> (sqlite, bool) py" where
  "sqlite_delete i =
     bnd (or_memory_error (''Failed to delete entry id='' @ repr_str i @ '': '') (sql_execute (sql_delete_one i)))
       (\<lambda>rowcount. ret (0 < rowcount))"

definition sqlite_clear :: "(sqlite, unit) py" where
  "sqlite_clear = or_memory_error ''Failed to clear memory store: '' (sql_execute sql_delete_all)"

definition sqlite_close :: "(sqlite, unit) py" where
  "sqlite_close = (\<lambda>db. (Inr (), db\<lparr>sq_open := False\<rparr>))"

text \<open>The store as its consumers hold it, and the \<open>with\<close> block.\<close>

definition sqlite_ops :: "json_lib \<Rightarrow> sqlite memory_store_ops" where
  "sqlite_ops J = \<lparr>ms_add = sqlite_add J, ms_get = sqlite_get J, ms_search = sqlite_search J,
     ms_delete = sqlite_delete, ms_clear = sqlite_clear\<rparr>"

definition sqlite_with :: "string \<Rightarrow> (sqlite, 'a) py \<Rightarrow> (sqlite, 'a) py" where
  "sqlite_with path body = andthen (sqlite_open path)
     (attempt body (\<lambda>e. andthen sqlite_close (throw e)) (\<lambda>x. andthen sqlite_close (ret x)))"

section \<open>The entry that comes back\<close>

text \<open>
  What JSON keeps of an entry: its tags in order, its metadata with lists for tuples. An entry
  can be stored when it passes its own check, its time is a valid one and the floating point
  numbers in its metadata read back.
\<close>

definition canonical :: "memory_entry \<Rightarrow> memory_entry" where
  "canonical e = e\<lparr>me_tags := sort (remdups (me_tags e)),
     me_metadata := map (\<lambda>(k, v). (k, json_norm v)) (me_metadata e)\<rparr>"

definition storable :: "json_lib \<Rightarrow> memory_entry \<Rightarrow> bool" where
  "storable J e \<longleftrightarrow> check_memory_entry e = Inr e \<and> datetime_ok (me_created_at e)
     \<and> json_ok J (PDict (me_metadata e))"

definition row_of :: "memory_entry \<Rightarrow> string \<Rightarrow> string \<Rightarrow> sql_row" where
  "row_of e tags_json metadata_json = \<lparr>sr_id = me_id e, sr_content = me_content e, sr_tags = tags_json,
     sr_metadata = metadata_json, sr_created_at = isoformat (me_created_at e)\<rparr>"

lemma canonical_id [simp]: "me_id (canonical e) = me_id e"
  by (simp add: canonical_def)

lemma tags_of_strings: "distinct ts \<Longrightarrow> tags_of_json (PList (map PStr ts)) = Inr ts"
  by (simp add: tags_of_json_def comp_def list_all_iff distinct_remdups_id)

lemma norm_strings: "json_norm (PList (map PStr ts)) = PList (map PStr ts)"
  by simp

lemma row_reads_back:
  assumes "storable J e" and "dumps J True None (PList (map PStr (sort (remdups (me_tags e))))) = Inr t"
    and "dumps J True None (PDict (me_metadata e)) = Inr m"
  shows "row_to_entry J (row_of e t m) = Inr (canonical e)"
proof -
  have "loads J t = Inr (PList (map PStr (sort (remdups (me_tags e)))))"
    using loads_dumps[OF assms(2)] norm_strings by (simp add: list_all_iff)
  moreover have "loads J m = Inr (PDict (map (\<lambda>(k, v). (k, json_norm v)) (me_metadata e)))"
    using loads_dumps[OF assms(3)] assms(1) by (simp add: storable_def)
  moreover have "check_memory_entry (canonical e) = Inr (canonical e)"
    using assms(1) by (auto simp: storable_def canonical_def check_memory_entry_def split: if_splits)
  ultimately show ?thesis
    using assms(1) tags_of_strings[of "sort (remdups (me_tags e))"]
    by (cases e) (simp add: row_to_entry_def row_of_def metadata_of_json_def storable_def isoformat_roundtrip
        canonical_def)
qed

lemma tags_written: "\<exists>t. dumps_items J a None (map PStr ts) = Inr t"
  by (induction ts) auto

section \<open>The table and the entries it holds\<close>

definition holds :: "json_lib \<Rightarrow> sql_row list \<Rightarrow> memory_entry list \<Rightarrow> bool" where
  "holds J rows es \<longleftrightarrow> list_all2 (\<lambda>r e. row_to_entry J r = Inr e) rows es"

lemma row_to_entry_id: "row_to_entry J r = Inr e \<Longrightarrow> me_id e = sr_id r"
  by (auto simp: row_to_entry_def rbind_Inr_iff check_memory_entry_def split: if_splits)

lemma holds_ids: "holds J rows es \<Longrightarrow> map sr_id rows = map me_id es"
  unfolding holds_def by (induction rule: list_all2_induct) (simp_all add: row_to_entry_id)

lemma holds_read: "holds J rows es \<Longrightarrow> rows_to_entries J rows = Inr es"
  unfolding holds_def by (induction rule: list_all2_induct) simp_all

lemma holds_find:
  "holds J rows es \<Longrightarrow> case find (\<lambda>r. sr_id r = i) rows of
      None \<Rightarrow> find (\<lambda>e. me_id e = i) es = None
    | Some r \<Rightarrow> \<exists>e. row_to_entry J r = Inr e \<and> find (\<lambda>e. me_id e = i) es = Some e"
  unfolding holds_def
  by (induction rule: list_all2_induct) (auto dest: row_to_entry_id split: option.splits)

lemma holds_filter:
  "holds J rows es \<Longrightarrow> holds J (filter (\<lambda>r. P (sr_id r)) rows) (filter (\<lambda>e. P (me_id e)) es)"
  unfolding holds_def by (induction rule: list_all2_induct) (simp_all add: row_to_entry_id)

lemma holds_upsert:
  assumes "holds J rows es" and "row_to_entry J r = Inr e"
  shows "holds J (snd (sql_upsert r rows)) (put_entry e es)"
proof -
  have "sr_id r \<in> sr_id ` set rows \<longleftrightarrow> me_id e \<in> me_id ` set es"
    using holds_ids[OF assms(1)] row_to_entry_id[OF assms(2)] by (metis list.set_map)
  moreover have "holds J (map (\<lambda>x. if sr_id x = sr_id r then r else x) rows)
      (map (\<lambda>d. if me_id d = me_id e then e else d) es)"
    using assms unfolding holds_def
    by (induction rule: list_all2_induct) (simp_all add: row_to_entry_id)
  ultimately show ?thesis
    using assms by (simp add: sql_upsert_def put_entry_def holds_def list_all2_appendI)
qed

section \<open>Refinement of the in-memory store\<close>

text \<open>
  The calls an owner makes, and what they answer. On the in-memory store an entry is added in
  its canonical form and opening and closing do nothing.
\<close>

datatype store_call = CallAdd memory_entry | CallGet string | CallSearch memory_query | CallDelete string
  | CallClear | CallClose | CallReopen string

datatype store_answer = Done | Found "memory_entry option" | Matches "memory_entry list" | Deleted bool

fun sqlite_do :: "json_lib \<Rightarrow> store_call \<Rightarrow> (sqlite, store_answer) py" where
  "sqlite_do J (CallAdd e) = bnd (sqlite_add J e) (\<lambda>_. ret Done)"
| "sqlite_do J (CallGet i) = bnd (sqlite_get J i) (\<lambda>e. ret (Found e))"
| "sqlite_do J (CallSearch q) = bnd (sqlite_search J q) (\<lambda>r. ret (Matches (mr_entries r)))"
| "sqlite_do J (CallDelete i) = bnd (sqlite_delete i) (\<lambda>b. ret (Deleted b))"
| "sqlite_do J CallClear = bnd sqlite_clear (\<lambda>_. ret Done)"
| "sqlite_do J CallClose = bnd sqlite_close (\<lambda>_. ret Done)"
| "sqlite_do J (CallReopen path) = bnd (sqlite_open path) (\<lambda>_. ret Done)"

fun in_memory_do :: "store_call \<Rightarrow> memory_dict \<Rightarrow> store_answer \<times> memory_dict" where
  "in_memory_do (CallAdd e) s = (Done, store_add (canonical e) s)"
| "in_memory_do (CallGet i) s = (Found (store_get i s), s)"
| "in_memory_do (CallSearch q) s = (Matches (mr_entries (store_search q s)), s)"
| "in_memory_do (CallDelete i) s = (case store_delete i s of (b, s') \<Rightarrow> (Deleted b, s'))"
| "in_memory_do CallClear s = (Done, store_clear s)"
| "in_memory_do _ s = (Done, s)"

definition agrees :: "json_lib \<Rightarrow> sqlite \<Rightarrow> memory_dict \<Rightarrow> bool" where
  "agrees J db s \<longleftrightarrow> store_ok s \<and> holds J (sq_rows db) (map snd s)"

fun call_storable :: "json_lib \<Rightarrow> store_call \<Rightarrow> bool" where
  "call_storable J (CallAdd e) = storable J e"
| "call_storable J _ = True"

text \<open>Calls that cannot fail of themselves on an open store.\<close>

fun call_fits :: "json_lib \<Rightarrow> store_call \<Rightarrow> bool" where
  "call_fits J (CallAdd e) = (\<exists>t. dumps J True None (PDict (me_metadata e)) = Inr t)"
| "call_fits J CallClose = False"
| "call_fits J _ = True"

text \<open>The exceptions that leave a call: \<open>MemoryError\<close>, and from \<open>add\<close> the \<open>ValueError\<close> of an
  integer of more than 4300 digits in the metadata.\<close>

fun call_raises :: "store_call \<Rightarrow> exn \<Rightarrow> bool" where
  "call_raises (CallAdd e) x = (exn_isa MemoryError x
     \<or> exn_isa (ForeignException ''ValueError'') x \<and> holds_long_int (PDict (me_metadata e)))"
| "call_raises _ x = exn_isa MemoryError x"

lemma next_fault_keeps: "next_fault db = (f, db') \<Longrightarrow> sq_rows db' = sq_rows db \<and> sq_open db' = sq_open db"
  by (auto simp: next_fault_def split: list.splits)

lemma next_fault_none: "sq_faults db = [] \<Longrightarrow> next_fault db = (None, db)"
  by (simp add: next_fault_def)

text \<open>A guarded statement takes effect, or raises and leaves the rows; without faults it takes effect.\<close>

lemma statement_cases:
  obtains (fails) e db' where "or_memory_error what (sql_execute f) db = (Inl e, db')" "exn_isa MemoryError e"
      "sq_rows db' = sq_rows db" "\<not> (sq_open db \<and> sq_faults db = [])"
  | (works) x rows db' where "f (sq_rows db) = (x, rows)" "or_memory_error what (sql_execute f) db = (Inr x, db')"
      "sq_rows db' = rows" "sq_open db'" "sq_faults db = [] \<longrightarrow> sq_faults db' = []"
proof (cases "sq_open db")
  case False
  then show ?thesis
    by (intro fails[of "Exn MemoryError (what @ ''Cannot operate on a closed database.'')" db]) (simp_all add: or_memory_error_def sql_execute_def attempt_def is_sqlite_error_def)
next
  case True
  obtain fault db1 where fault: "next_fault db = (fault, db1)" by (cases "next_fault db")
  note keeps = next_fault_keeps[OF fault]
  obtain x rows where x: "f (sq_rows db) = (x, rows)" by (cases "f (sq_rows db)")
  show ?thesis
  proof (cases fault)
    case None
    have "sq_faults db = [] \<longrightarrow> sq_faults db1 = []" using fault next_fault_none[of db] by auto
    with None True fault x keeps show ?thesis
      by (intro works[OF x, of "db1\<lparr>sq_rows := rows\<rparr>"])
        (simp_all add: or_memory_error_def sql_execute_def attempt_def)
  next
    case (Some m)
    with fault next_fault_none[of db] have "sq_faults db \<noteq> []" by auto
    with Some True fault keeps show ?thesis
      by (intro fails[of "Exn MemoryError (what @ m)" db1]) (simp_all add: or_memory_error_def sql_execute_def attempt_def is_sqlite_error_def)
  qed
qed

lemma agrees_rows: "agrees J db s \<Longrightarrow> sq_rows db' = sq_rows db \<Longrightarrow> agrees J db' s"
  by (simp add: agrees_def)

text \<open>One call on a store that agrees with an in-memory one.\<close>

definition call_refines :: "json_lib \<Rightarrow> store_call \<Rightarrow> sqlite \<Rightarrow> memory_dict \<Rightarrow> bool" where
  "call_refines J c db s \<longleftrightarrow> (\<forall>r db'. sqlite_do J c db = (r, db') \<longrightarrow>
     (case r of
        Inl e \<Rightarrow> call_raises c e \<and> agrees J db' s \<and> \<not> (sq_open db \<and> sq_faults db = [] \<and> call_fits J c)
      | Inr a \<Rightarrow> a = fst (in_memory_do c s) \<and> agrees J db' (snd (in_memory_do c s)))
     \<and> (sq_open db \<and> sq_faults db = [] \<and> call_fits J c \<longrightarrow> sq_open db' \<and> sq_faults db' = []))"

lemma call_refines_raise:
  assumes "sqlite_do J c db = (Inl e, db')" "call_raises c e" "agrees J db' s"
    and "\<not> (sq_open db \<and> sq_faults db = [] \<and> call_fits J c)"
  shows "call_refines J c db s"
  using assms by (auto simp: call_refines_def)

lemma call_refines_answer:
  assumes "sqlite_do J c db = (Inr a, db')" "in_memory_do c s = (a, s')" "agrees J db' s'"
    and "sq_open db \<and> sq_faults db = [] \<and> call_fits J c \<longrightarrow> sq_open db' \<and> sq_faults db' = []"
  shows "call_refines J c db s"
  using assms by (simp add: call_refines_def)

lemma statement_refines:
  assumes run: "sqlite_do J c db = bnd (or_memory_error what (sql_execute f)) k db"
    and agrees: "agrees J db s" and raises: "\<And>e. exn_isa MemoryError e \<Longrightarrow> call_raises c e"
    and works: "\<And>x rows db'. f (sq_rows db) = (x, rows) \<Longrightarrow> sq_rows db' = rows
      \<Longrightarrow> \<exists>a s'. k x db' = (Inr a, db') \<and> in_memory_do c s = (a, s') \<and> agrees J db' s'"
  shows "call_refines J c db s"
proof (cases rule: statement_cases[of what f db])
  case (fails e db')
  then have "sqlite_do J c db = (Inl e, db')" by (simp add: run bnd_def)
  then show ?thesis using raises[OF fails(2)] agrees_rows[OF agrees fails(3)] fails(4)
    by (intro call_refines_raise) auto
next
  case (works x rows db')
  obtain a s' where a: "k x db' = (Inr a, db')" "in_memory_do c s = (a, s')" "agrees J db' s'"
    using assms(4)[OF works(1,3)] by blast
  have "sqlite_do J c db = (Inr a, db')" using works(2) a(1) by (simp add: run bnd_def)
  then show ?thesis using a(2,3) works(4,5) by (intro call_refines_answer) auto
qed

lemma in_memory_step:
  assumes "agrees J db s"
  shows "store_ok (store_add e s)" "map snd (store_add e s) = put_entry e (map snd s)"
    "store_get i s = find (\<lambda>e. me_id e = i) (map snd s)"
    "mr_entries (store_search q s) = filter (\<lambda>e. entry_matches e q) (map snd s)"
  using in_memory_store.add_entries[of s e] in_memory_store.get_entries[of s i]
    in_memory_store.search_entries[of s q] assms by (simp_all add: agrees_def)

lemma refines_add:
  assumes agrees: "agrees J db s" and ok: "storable J e"
  shows "call_refines J (CallAdd e) db s"
proof -
  obtain t where t: "dumps J True None (PList (map PStr (sort (remdups (me_tags e))))) = Inr t"
    using tags_written[of J True "sort (remdups (me_tags e))"] by auto
  show ?thesis
  proof (cases "dumps J True None (PDict (me_metadata e))")
    case (Inl x)
    obtain y where "sqlite_do J (CallAdd e) db = (Inl y, db)" "call_raises (CallAdd e) y"
    proof (cases "exn_isa (ForeignException ''TypeError'') x")
      case True
      with Inl t show ?thesis
        by (intro that[of "Exn MemoryError (''MemoryEntry.metadata for id='' @ repr_str (me_id e)
            @ '' is not JSON-serializable: '' @ exn_text x)"]) (simp_all add: sqlite_add_def bnd_def attempt_def)
    next
      case False
      with dumps_errors(1)[OF Inl] have "call_raises (CallAdd e) x" by (simp add: dumps_raises_def)
      with False Inl t show ?thesis by (intro that[of x]) (simp_all add: sqlite_add_def bnd_def attempt_def)
    qed
    with Inl agrees show ?thesis by (intro call_refines_raise) auto
  next
    case (Inr m)
    have row: "row_to_entry J (row_of e t m) = Inr (canonical e)" by (rule row_reads_back[OF ok t Inr])
    show ?thesis
    proof (rule statement_refines[OF _ agrees])
      show "sqlite_do J (CallAdd e) db = bnd (or_memory_error (''Failed to store entry id='' @ repr_str (me_id e) @ '': '')
          (sql_execute (sql_upsert (row_of e t m)))) (\<lambda>_. ret Done) db"
        using t Inr by (simp add: sqlite_add_def bnd_def attempt_def row_of_def)
      fix x rows and db' :: sqlite
      assume "sql_upsert (row_of e t m) (sq_rows db) = (x, rows)" "sq_rows db' = rows"
      then have "agrees J db' (store_add (canonical e) s)"
        using holds_upsert[OF _ row, of "sq_rows db" "map snd s"] agrees in_memory_step(1,2)[OF agrees, of "canonical e"]
        by (simp add: agrees_def)
      then show "\<exists>a s'. ret Done db' = (Inr a, db') \<and> in_memory_do (CallAdd e) s = (a, s') \<and> agrees J db' s'"
        by simp
    qed simp
  qed
qed

lemma refines_get:
  assumes agrees: "agrees J db s"
  shows "call_refines J (CallGet i) db s"
proof (rule statement_refines[OF _ agrees])
  let ?k = "\<lambda>row. bnd (case row of None \<Rightarrow> ret None | Some r \<Rightarrow> bnd (lift_res (row_to_entry J r)) (\<lambda>e. ret (Some e)))
      (\<lambda>e. ret (Found e))"
  show "sqlite_do J (CallGet i) db = bnd (or_memory_error (''Failed to read entry id='' @ repr_str i @ '': '')
      (sql_execute (sql_select_one i))) ?k db"
    by (simp add: sqlite_get_def bnd_assoc)
  fix x rows and db' :: sqlite
  assume sel: "sql_select_one i (sq_rows db) = (x, rows)" "sq_rows db' = rows"
  then have keep: "agrees J db' s" and x: "x = find (\<lambda>r. sr_id r = i) (sq_rows db)"
    using agrees by (auto simp: sql_select_one_def intro: agrees_rows)
  have "holds J (sq_rows db) (map snd s)" using agrees by (simp add: agrees_def)
  from holds_find[OF this, of i] have "?k x db' = (Inr (Found (store_get i s)), db')"
    unfolding in_memory_step(3)[OF agrees] x by (auto simp: bnd_def split: option.splits)
  with keep show "\<exists>a s'. ?k x db' = (Inr a, db') \<and> in_memory_do (CallGet i) s = (a, s') \<and> agrees J db' s'"
    by simp
qed simp

lemma sql_matches_eq: "sql_matches = entry_matches"
  by (intro ext) (simp add: sql_matches_def entry_matches_def)

lemma refines_search:
  assumes agrees: "agrees J db s"
  shows "call_refines J (CallSearch q) db s"
proof (rule statement_refines[OF _ agrees])
  let ?k = "\<lambda>rows. bnd (bnd (lift_res (rows_to_entries J rows)) (\<lambda>entries.
      ret \<lparr>mr_entries = filter (\<lambda>e. sql_matches e q) entries\<rparr>)) (\<lambda>r. ret (Matches (mr_entries r)))"
  show "sqlite_do J (CallSearch q) db = bnd (or_memory_error ''Failed to search memory store: ''
      (sql_execute sql_select_all)) ?k db"
    by (simp add: sqlite_search_def bnd_assoc)
  fix x rows and db' :: sqlite
  assume sel: "sql_select_all (sq_rows db) = (x, rows)" "sq_rows db' = rows"
  then have keep: "agrees J db' s" and x: "x = sq_rows db"
    using agrees by (auto simp: sql_select_all_def intro: agrees_rows)
  have "rows_to_entries J x = Inr (map snd s)" using agrees x by (simp add: agrees_def holds_read)
  then have "?k x db' = (Inr (Matches (mr_entries (store_search q s))), db')"
    unfolding in_memory_step(4)[OF agrees] sql_matches_eq by (simp add: bnd_def)
  with keep show "\<exists>a s'. ?k x db' = (Inr a, db') \<and> in_memory_do (CallSearch q) s = (a, s') \<and> agrees J db' s'"
    by simp
qed simp

lemma ret_bnd: "bnd (ret x) k = k x"
  by (simp add: bnd_def fun_eq_iff)

lemma refines_delete:
  assumes agrees: "agrees J db s"
  shows "call_refines J (CallDelete i) db s"
proof (rule statement_refines[OF _ agrees])
  show "sqlite_do J (CallDelete i) db = bnd (or_memory_error (''Failed to delete entry id='' @ repr_str i @ '': '')
      (sql_execute (sql_delete_one i))) (\<lambda>n. ret (Deleted (0 < n))) db"
    unfolding sqlite_do.simps sqlite_delete_def bnd_assoc ret_bnd ..
  fix x rows and db' :: sqlite
  assume del: "sql_delete_one i (sq_rows db) = (x, rows)" "sq_rows db' = rows"
  have ok: "store_ok s" and holds: "holds J (sq_rows db) (map snd s)" using agrees by (simp_all add: agrees_def)
  obtain b s' where s': "store_delete i s = (b, s')" by (cases "store_delete i s")
  note spec = in_memory_store.delete_entries[OF ok s']
  have "0 < x \<longleftrightarrow> i \<in> sr_id ` set (sq_rows db)" using del by (auto simp: sql_delete_one_def filter_empty_conv)
  also have "\<dots> \<longleftrightarrow> i \<in> me_id ` set (map snd s)" using holds_ids[OF holds] by (metis list.set_map)
  finally have b: "0 < x \<longleftrightarrow> b" using spec by simp
  have "agrees J db' s'"
    using spec holds_filter[OF holds, of "\<lambda>j. j \<noteq> i"] del by (simp add: agrees_def sql_delete_one_def)
  with s' b show "\<exists>a s'. ret (Deleted (0 < x)) db' = (Inr a, db') \<and> in_memory_do (CallDelete i) s = (a, s') \<and> agrees J db' s'"
    by simp
qed simp

lemma refines_clear:
  assumes agrees: "agrees J db s"
  shows "call_refines J CallClear db s"
proof (rule statement_refines[OF _ agrees])
  show "sqlite_do J CallClear db = bnd (or_memory_error ''Failed to clear memory store: ''
      (sql_execute sql_delete_all)) (\<lambda>_. ret Done) db"
    by (simp add: sqlite_clear_def)
  fix x rows and db' :: sqlite
  assume "sql_delete_all (sq_rows db) = (x, rows)" "sq_rows db' = rows"
  then have "agrees J db' (store_clear s)"
    using in_memory_store.clear_entries[of s] agrees by (auto simp: agrees_def sql_delete_all_def holds_def store_clear_def)
  then show "\<exists>a s'. ret Done db' = (Inr a, db') \<and> in_memory_do CallClear s = (a, s') \<and> agrees J db' s'"
    by simp
qed simp

text \<open>Opening keeps the rows, whatever fails on the way.\<close>

lemma sql_keep_rows: "sql_execute sql_keep db = (r, db') \<Longrightarrow> sq_rows db' = sq_rows db"
  by (auto simp: sql_execute_def sql_keep_def dest: next_fault_keeps split: if_splits prod.splits option.splits)

lemma sql_execute_raises: "sql_execute f db = (Inl e, db') \<Longrightarrow> is_sqlite_error e"
  by (auto simp: sql_execute_def is_sqlite_error_def split: if_splits prod.splits option.splits)

lemma sqlite_open_cases:
  assumes "sqlite_open path db = (r, db')"
  shows "sq_rows db' = sq_rows db \<and> (\<forall>e. r = Inl e \<longrightarrow> exn_isa MemoryError e)
    \<and> (sq_faults db = [] \<longrightarrow> r = Inr () \<and> sq_open db' \<and> sq_faults db' = [])"
proof -
  let ?m = "andthen sql_connect (andthen (sql_execute sql_keep) (andthen (sql_execute sql_keep) (sql_execute sql_keep)))"
  obtain r1 db1 where m: "?m db = (r1, db1)" by (cases "?m db")
  have rows: "sq_rows db1 = sq_rows db"
    using m by (auto simp: andthen_def bnd_def sql_connect_def dest!: sql_keep_rows next_fault_keeps
        split: sum.splits prod.splits option.splits)
  have raises: "is_sqlite_error e" if "r1 = Inl e" for e
    using m that by (auto simp: andthen_def bnd_def sql_connect_def dest!: sql_execute_raises
        split: sum.splits prod.splits option.splits) (simp_all add: is_sqlite_error_def)
  have clean: "r1 = Inr () \<and> sq_open db1 \<and> sq_faults db1 = []" if "sq_faults db = []"
    using m that by (auto simp: andthen_def bnd_def sql_connect_def sql_execute_def sql_keep_def next_fault_def)
  show ?thesis using assms m rows raises clean
    by (cases r1) (auto simp: sqlite_open_def or_memory_error_def attempt_def)
qed

lemma refines_reopen:
  assumes agrees: "agrees J db s"
  shows "call_refines J (CallReopen path) db s"
proof -
  obtain r db' where r: "sqlite_open path db = (r, db')" by (cases "sqlite_open path db")
  note cases = sqlite_open_cases[OF r]
  then have "agrees J db' s" using agrees agrees_rows by blast
  with r cases show ?thesis by (cases r) (auto simp: call_refines_def bnd_def)
qed

lemma refines_close:
  assumes agrees: "agrees J db s"
  shows "call_refines J CallClose db s"
  using agrees by (simp add: call_refines_def sqlite_close_def bnd_def agrees_def)

lemma call_refines_all: "agrees J db s \<Longrightarrow> call_storable J c \<Longrightarrow> call_refines J c db s"
  by (cases c) (simp_all add: refines_add refines_get refines_search refines_delete refines_clear refines_close
      refines_reopen)

text \<open>A sequence of calls with their answers, and the calls of it that answered.\<close>

fun sqlite_run :: "json_lib \<Rightarrow> store_call list \<Rightarrow> sqlite \<Rightarrow> store_answer res list \<times> sqlite" where
  "sqlite_run J [] db = ([], db)"
| "sqlite_run J (c # cs) db = (case sqlite_do J c db of (r, db1) \<Rightarrow>
     case sqlite_run J cs db1 of (rs, db2) \<Rightarrow> (r # rs, db2))"

fun in_memory_run :: "store_call list \<Rightarrow> memory_dict \<Rightarrow> store_answer list \<times> memory_dict" where
  "in_memory_run [] s = ([], s)"
| "in_memory_run (c # cs) s = (case in_memory_do c s of (a, s1) \<Rightarrow>
     case in_memory_run cs s1 of (as, s2) \<Rightarrow> (a # as, s2))"

fun answered :: "store_call list \<Rightarrow> store_answer res list \<Rightarrow> store_call list" where
  "answered (c # cs) (Inr a # rs) = c # answered cs rs"
| "answered (c # cs) (Inl e # rs) = answered cs rs"
| "answered _ _ = []"

fun answers :: "store_answer res list \<Rightarrow> store_answer list" where
  "answers [] = []"
| "answers (Inr a # rs) = a # answers rs"
| "answers (Inl e # rs) = answers rs"

lemma call_refinesD:
  assumes "call_refines J c db s" and "sqlite_do J c db = (r, db')"
  shows "r = Inl e \<Longrightarrow> call_raises c e \<and> agrees J db' s"
    and "r = Inr a \<Longrightarrow> in_memory_do c s = (a, snd (in_memory_do c s)) \<and> agrees J db' (snd (in_memory_do c s))"
    and "sq_open db \<Longrightarrow> sq_faults db = [] \<Longrightarrow> call_fits J c \<Longrightarrow> (\<exists>a. r = Inr a) \<and> sq_open db' \<and> sq_faults db' = []"
  using assms by (auto simp: call_refines_def split: sum.splits)

lemma run_refines:
  assumes "agrees J db s" and "list_all (call_storable J) cs" and "sqlite_run J cs db = (rs, db')"
  shows "(\<exists>s'. in_memory_run (answered cs rs) s = (answers rs, s') \<and> agrees J db' s')
    \<and> list_all2 (\<lambda>c r. \<forall>e. r = Inl e \<longrightarrow> call_raises c e) cs rs
    \<and> (sq_open db \<and> sq_faults db = [] \<and> list_all (call_fits J) cs \<longrightarrow> (\<forall>e. Inl e \<notin> set rs))"
  using assms
proof (induction cs arbitrary: db s rs db')
  case (Cons c cs)
  obtain r db1 where r: "sqlite_do J c db = (r, db1)" by (cases "sqlite_do J c db")
  obtain rs1 db2 where rs1: "sqlite_run J cs db1 = (rs1, db2)" by (cases "sqlite_run J cs db1")
  from Cons.prems(3) r rs1 have out: "rs = r # rs1" "db' = db2" by auto
  have cr: "call_refines J c db s" using Cons.prems(1,2) by (simp add: call_refines_all)
  note step = call_refinesD[OF cr r]
  show ?case
  proof (cases r)
    case (Inl e)
    with step(1) have e: "call_raises c e" "agrees J db1 s" by auto
    have "\<not> (sq_open db \<and> sq_faults db = [] \<and> call_fits J c)" using step(3) Inl by auto
    with Cons.IH[OF e(2) _ rs1] Cons.prems(2) e(1) show ?thesis unfolding out Inl by auto
  next
    case (Inr a)
    with step(2) obtain s1 where a: "in_memory_do c s = (a, s1)" "agrees J db1 s1" by fastforce
    have "sq_open db \<and> sq_faults db = [] \<and> call_fits J c \<longrightarrow> sq_open db1 \<and> sq_faults db1 = []" using step(3) by auto
    with Cons.IH[OF a(2) _ rs1] Cons.prems(2) a(1) show ?thesis unfolding out Inr by auto
  qed
qed simp

text \<open>C21 The durable store refines the in-memory one: in every sequence of calls, closing and
  reopening the file included and whatever statements fail, the calls that answer give what an
  in-memory store gives that gets only those calls and adds entries in the form JSON keeps; a
  call that raises changes no row and raises \<open>MemoryError\<close>, metadata that is not
  JSON-serializable included, with one exception: the \<open>ValueError\<close> of \<open>json.dumps\<close> leaves
  \<open>add\<close> when the metadata holds an integer of more than 4300 digits. Nothing raises on an open
  file without faults, metadata that \<open>json\<close> cannot write apart.\<close>

theorem sqlite_refines_in_memory:
  assumes "agrees J db s" and "list_all (call_storable J) cs" and "sqlite_run J cs db = (rs, db')"
  shows "(\<exists>s'. in_memory_run (answered cs rs) s = (answers rs, s') \<and> agrees J db' s')
    \<and> list_all2 (\<lambda>c r. \<forall>e. r = Inl e \<longrightarrow> call_raises c e) cs rs
    \<and> (sq_open db \<and> sq_faults db = [] \<and> list_all (call_fits J) cs \<longrightarrow> (\<forall>e. Inl e \<notin> set rs))"
  using assms by (rule run_refines)

definition demo_note :: memory_entry where
  "demo_note = \<lparr>me_id = ''n'', me_content = ''text'', me_tags = [''b'', ''a''],
     me_metadata = [(''k'', PTuple [PInt 1])], me_created_at = fst (env_now counting_env 7)\<rparr>"

lemma demo_note_storable: "storable demo_json demo_note"
  by (simp add: storable_def demo_note_def check_memory_entry_def py_isspace_def Let_def dict_ok_def datetime_ok_def
      check_datetime_def counting_env_def days_in_month_def day_micros_def)

lemma sqlite_run_Cons:
  "sqlite_do J c db = (r, db1) \<Longrightarrow> sqlite_run J cs db1 = (rs, db2) \<Longrightarrow> sqlite_run J (c # cs) db = (r # rs, db2)"
  by simp

definition unwritable_note :: memory_entry where
  "unwritable_note = demo_note\<lparr>me_metadata := [(''o'', PObject ''Thing'')]\<rparr>"

lemma unwritable_note_storable: "storable demo_json unwritable_note"
  using demo_note_storable
  by (auto simp: storable_def unwritable_note_def check_memory_entry_def dict_ok_def split: if_splits)

theorem sqlite_refines_in_memory_witness:
  "\<exists>e rs db'. sqlite_run demo_json
        [CallAdd unwritable_note, CallAdd demo_note, CallClose, CallGet ''n'', CallReopen ''f'', CallGet ''n'']
        \<lparr>sq_rows = [], sq_open = True, sq_faults = [None, Some ''disk I/O error'']\<rparr> = (Inl e # rs, db')
    \<and> exn_isa MemoryError e
    \<and> answers rs = fst (in_memory_run (answered [CallAdd demo_note, CallClose, CallGet ''n'', CallReopen ''f'',
          CallGet ''n''] rs) [])"
proof -
  let ?cs = "[CallAdd demo_note, CallClose, CallGet ''n'', CallReopen ''f'', CallGet ''n'']"
  let ?db = "\<lparr>sq_rows = [], sq_open = True, sq_faults = [None, Some ''disk I/O error'']\<rparr>"
  obtain e where add: "sqlite_do demo_json (CallAdd unwritable_note) ?db = (Inl e, ?db)"
    using tags_written[of demo_json True "sort (remdups (me_tags unwritable_note))"]
    by (auto simp: sqlite_add_def bnd_def attempt_def unwritable_note_def type_error_def)
  obtain rs db' where rest: "sqlite_run demo_json ?cs ?db = (rs, db')" by (cases "sqlite_run demo_json ?cs ?db")
  have run: "sqlite_run demo_json (CallAdd unwritable_note # ?cs) ?db = (Inl e # rs, db')"
    by (rule sqlite_run_Cons[OF add rest])
  have "agrees demo_json ?db []" by (simp add: agrees_def holds_def store_ok_def)
  moreover have "list_all (call_storable demo_json) (CallAdd unwritable_note # ?cs)"
    by (simp add: demo_note_storable unwritable_note_storable)
  ultimately have told: "\<exists>s'. in_memory_run (answered (CallAdd unwritable_note # ?cs) (Inl e # rs)) [] =
        (answers (Inl e # rs), s') \<and> agrees demo_json db' s'"
      "list_all2 (\<lambda>c r. \<forall>e. r = Inl e \<longrightarrow> call_raises c e) (CallAdd unwritable_note # ?cs) (Inl e # rs)"
    using sqlite_refines_in_memory[OF _ _ run] by blast+
  from told(2) have "exn_isa MemoryError e" by (simp add: unwritable_note_def)
  with run told(1) show ?thesis by auto
qed

end
