(* ===== verification/Plugin_Discovery.thy ===== *)
theory Plugin_Discovery
  imports Plugins Json
begin

text \<open>
  Discovery of plugins (\<open>plugin_discovery/\<close>): manifest files read into manifests, entry points
  resolved to constructors, and the directories of a root loaded and registered in order. The
  file system and the import system are records of what they answer; paths are normalised texts.
\<close>

record 'w file_system =
  fs_is_dir :: "string \<Rightarrow> 'w \<Rightarrow> bool"
  fs_is_file :: "string \<Rightarrow> 'w \<Rightarrow> bool"
  fs_names :: "string \<Rightarrow> 'w \<Rightarrow> string list res"
  fs_read :: "string \<Rightarrow> 'w \<Rightarrow> string res"

definition child_path :: "string \<Rightarrow> string \<Rightarrow> string" where
  "child_path d n = d @ ''/'' @ n"

definition os_error_classes :: "string list" where
  "os_error_classes = [''OSError'', ''FileNotFoundError'', ''PermissionError'', ''IsADirectoryError'',
     ''NotADirectoryError'', ''InterruptedError'', ''TimeoutError'', ''BlockingIOError'']"

definition is_os_error :: "exn \<Rightarrow> bool" where
  "is_os_error e \<longleftrightarrow> list_ex (\<lambda>n. exn_isa (ForeignException n) e) os_error_classes"

section \<open>Manifest files\<close>

text \<open>
  The fields of a document reach the constructors as they are: calling \<open>strip\<close> on what is no
  text raises \<open>AttributeError\<close>, and a set of capabilities needs hashable descriptions.
\<close>

definition as_text :: "pyval \<Rightarrow> string res" where
  "as_text v = (case v of PStr s \<Rightarrow> Inr s
     | _ \<Rightarrow> Inl (Exn (ForeignException ''AttributeError'') ''object has no attribute strip''))"

definition required_fields :: "string list" where
  "required_fields = [''id'', ''name'', ''version'', ''author'']"

definition parse_error :: "string \<Rightarrow> exn" where
  "parse_error m = Exn ManifestParseError m"

definition parse_capability :: "string \<Rightarrow> pyval \<Rightarrow> plugin_capability res" where
  "parse_capability path entry =
     (case entry of
        PDict d \<Rightarrow>
          (case map_of d ''name'' of
             Some n \<Rightarrow> rbind (as_text n) (\<lambda>n. check_plugin_capability
               \<lparr>cb_name = n, cb_description = get_or d ''description'' (PStr [])\<rparr>)
           | None \<Rightarrow> Inl (parse_error (path @ '': each entry in 'capabilities' must be an object with a 'name' field.'')))
      | _ \<Rightarrow> Inl (parse_error (path @ '': each entry in 'capabilities' must be an object with a 'name' field.'')))"

fun parse_capabilities :: "string \<Rightarrow> pyval list \<Rightarrow> plugin_capability list res" where
  "parse_capabilities path [] = Inr []"
| "parse_capabilities path (e # es) =
     rbind (parse_capability path e) (\<lambda>c. rbind (parse_capabilities path es) (\<lambda>cs. Inr (c # cs)))"

text \<open>\<open>PluginManifest(...)\<close> on fields of any type, its checks in order.\<close>

definition manifest_of_fields ::
  "pyval \<Rightarrow> pyval \<Rightarrow> pyval \<Rightarrow> pyval \<Rightarrow> pyval \<Rightarrow> plugin_capability frozenset \<Rightarrow> pyval \<Rightarrow> plugin_manifest res" where
  "manifest_of_fields i n v d a cs mi =
     rbind (as_text i) (\<lambda>i'. if blank i' then Inl (Exn PluginValidationError ''PluginManifest.id must not be blank.'') else
     rbind (as_text n) (\<lambda>n'. if blank n' then Inl (Exn PluginValidationError ''PluginManifest.name must not be blank.'') else
     rbind (as_text a) (\<lambda>a'. if blank a' then Inl (Exn PluginValidationError ''PluginManifest.author must not be blank.'') else
     rbind (as_text v) (\<lambda>v'. rbind (parse_version v' ''PluginManifest.version'') (\<lambda>_.
     rbind (as_text mi) (\<lambda>mi'. rbind (parse_version mi' ''PluginManifest.minimum_kernel_version'') (\<lambda>_.
       Inr \<lparr>mf_id = i', mf_name = n', mf_version = v', mf_description = d, mf_author = a', mf_capabilities = cs,
         mf_minimum = mi'\<rparr>)))))))"

lemma manifest_of_texts:
  "manifest_of_fields (PStr i) (PStr n) (PStr v) d (PStr a) cs (PStr mi) = check_plugin_manifest
     \<lparr>mf_id = i, mf_name = n, mf_version = v, mf_description = d, mf_author = a, mf_capabilities = cs, mf_minimum = mi\<rparr>"
  by (simp add: manifest_of_fields_def check_plugin_manifest_def as_text_def)

definition manifest_of_document :: "string \<Rightarrow> payload \<Rightarrow> (plugin_manifest \<times> string) res" where
  "manifest_of_document path data =
     (let missing = filter (\<lambda>f. \<not> has_key f data) required_fields in
      if missing \<noteq> []
      then Inl (parse_error (path @ '' is missing required field(s): '' @ join '', '' missing @ ''.''))
      else (case map_of data ''entry_point'' of
         Some (PStr entry_point) \<Rightarrow>
           if blank entry_point then Inl (parse_error (path @ '' is missing a non-empty 'entry_point' string.''))
           else (case get_or data ''capabilities'' (PList []) of
              PList entries \<Rightarrow>
                rbind (parse_capabilities path entries) (\<lambda>cs.
                rbind (capability_set cs) (\<lambda>cs'.
                rbind (manifest_of_fields (get_or data ''id'' PNone) (get_or data ''name'' PNone)
                    (get_or data ''version'' PNone) (get_or data ''description'' (PStr [])) (get_or data ''author'' PNone)
                    cs' (get_or data ''minimum_kernel_version'' (PStr ''0.0.0''))) (\<lambda>m. Inr (m, entry_point))))
            | _ \<Rightarrow> Inl (parse_error (path @ '': 'capabilities' must be a list.'')))
       | _ \<Rightarrow> Inl (parse_error (path @ '' is missing a non-empty 'entry_point' string.''))))"

definition read_manifest_file ::
  "json_lib \<Rightarrow> 'w file_system \<Rightarrow> string \<Rightarrow> 'w \<Rightarrow> (plugin_manifest \<times> string) res" where
  "read_manifest_file J fs path w =
     (if \<not> fs_is_file fs path w then Inl (Exn ManifestNotFoundError (''No manifest file found at '' @ path @ ''.''))
      else case fs_read fs path w of
        Inl e \<Rightarrow> Inl (if is_os_error e then parse_error (''Could not read '' @ path @ '': '' @ exn_text e) else e)
      | Inr raw \<Rightarrow>
          (case loads J raw of
             Inl e \<Rightarrow> Inl (if exn_isa (ForeignException ''JSONDecodeError'') e
               then parse_error (path @ '' is not valid JSON: '' @ exn_text e) else e)
           | Inr (PDict data) \<Rightarrow> manifest_of_document path data
           | Inr _ \<Rightarrow> Inl (parse_error (path @ '' must contain a JSON object at the top level.''))))"

section \<open>Entry points\<close>

text \<open>
  The import system: importing runs the module's code and gives an object, an attribute of
  which may be a constructor. Both may raise.
\<close>

datatype 'w attribute = Factory "('w, 'w plugin) py" | NotCallable

record 'w import_system =
  im_module :: "string \<Rightarrow> ('w, nat) py"
  im_attribute :: "nat \<Rightarrow> string \<Rightarrow> ('w, 'w attribute) py"

definition is_import_error :: "exn \<Rightarrow> bool" where
  "is_import_error e \<longleftrightarrow> exn_isa (ForeignException ''ImportError'') e \<or> exn_isa (ForeignException ''ModuleNotFoundError'') e"

definition resolve_entry_point ::
  "'w import_system \<Rightarrow> string \<Rightarrow> ('w, ('w, 'w plugin) py) py" where
  "resolve_entry_point im entry_point =
     (case partition_at (CHR '':'') entry_point of
        (module_name, sep, attr_name) \<Rightarrow>
          if \<not> sep \<or> module_name = [] \<or> attr_name = []
          then throw (Exn EntryPointError (''Entry point '' @ repr_str entry_point
                 @ '' must be in 'module:attribute' format.''))
          else
          attempt (im_module im module_name)
            (\<lambda>e. if is_import_error e
                  then throw (Exn EntryPointError (''Could not import module '' @ repr_str module_name
                         @ '' for entry point '' @ repr_str entry_point @ '': '' @ exn_text e))
                  else throw e)
            (\<lambda>m. attempt (im_attribute im m attr_name)
               (\<lambda>e. if exn_isa (ForeignException ''AttributeError'') e
                     then throw (Exn EntryPointError (''Module '' @ repr_str module_name @ '' has no attribute ''
                            @ repr_str attr_name @ '' for entry point '' @ repr_str entry_point @ ''.''))
                     else throw e)
               (\<lambda>a. case a of
                  Factory f \<Rightarrow> ret f
                | NotCallable \<Rightarrow> throw (Exn EntryPointError (''Resolved entry point '' @ repr_str entry_point
                    @ '' is not callable.'')))))"

section \<open>Discovery\<close>

record 'w plugin_discovery =
  di_json :: json_lib
  di_files :: "'w file_system"
  di_imports :: "'w import_system"
  di_loader :: plugin_loader
  di_filename :: string

definition default_manifest_filename :: string where
  "default_manifest_filename = ''plugin_manifest.json''"

definition new_plugin_discovery ::
  "json_lib \<Rightarrow> 'w file_system \<Rightarrow> 'w import_system \<Rightarrow> plugin_loader option \<Rightarrow> string option \<Rightarrow> 'w plugin_discovery" where
  "new_plugin_discovery J fs im loader filename = \<lparr>di_json = J, di_files = fs, di_imports = im,
     di_loader = (case loader of Some L \<Rightarrow> L | None \<Rightarrow> new_plugin_loader None),
     di_filename = (case filename of Some n \<Rightarrow> n | None \<Rightarrow> default_manifest_filename)\<rparr>"

definition discovery_scan :: "'w plugin_discovery \<Rightarrow> string \<Rightarrow> 'w \<Rightarrow> string list res" where
  "discovery_scan D base w =
     (if \<not> fs_is_dir (di_files D) base w then Inl (Exn PluginDiscoveryError (base @ '' is not a directory.''))
      else rbind (fs_names (di_files D) base w) (\<lambda>names.
        Inr (filter (\<lambda>d. fs_is_dir (di_files D) d w \<and> fs_is_file (di_files D) (child_path d (di_filename D)) w)
          (map (child_path base) (sort names)))))"

definition discovery_read :: "'w plugin_discovery \<Rightarrow> string \<Rightarrow> 'w \<Rightarrow> (plugin_manifest \<times> string) res" where
  "discovery_read D plugin_dir = read_manifest_file (di_json D) (di_files D) (child_path plugin_dir (di_filename D))"

definition discovery_load :: "'w plugin_discovery \<Rightarrow> string \<Rightarrow> ('w, 'w plugin) py" where
  "discovery_load D plugin_dir = (\<lambda>w.
     bnd (lift_res (discovery_read D plugin_dir w)) (\<lambda>(manifest, entry_point).
     bnd (resolve_entry_point (di_imports D) entry_point) (\<lambda>f.
     plugin_load (di_loader D) manifest f)) w)"

text \<open>
  The registry is shared with the caller: it is part of the state and keeps what was
  registered before an error.
\<close>

fun discover_dirs ::
  "'w plugin_discovery \<Rightarrow> string list \<Rightarrow> ('w plugin_registry \<times> 'w, 'w plugin list) py" where
  "discover_dirs D [] = ret []"
| "discover_dirs D (d # ds) = (\<lambda>(r, w).
     case discovery_load D d w of
       (Inl e, w1) \<Rightarrow> (Inl e, r, w1)
     | (Inr p, w1) \<Rightarrow>
         (case plugin_register p r of
            Inl e \<Rightarrow> (Inl e, r, w1)
          | Inr r1 \<Rightarrow> bnd (discover_dirs D ds) (\<lambda>ps. ret (p # ps)) (r1, w1)))"

definition discover_and_register ::
  "'w plugin_discovery \<Rightarrow> string \<Rightarrow> ('w plugin_registry \<times> 'w, 'w plugin list) py" where
  "discover_and_register D base = (\<lambda>(r, w).
     case discovery_scan D base w of Inl e \<Rightarrow> (Inl e, r, w) | Inr ds \<Rightarrow> discover_dirs D ds (r, w))"

section \<open>What is registered\<close>

text \<open>A plugin came from a directory when it has the id of the manifest read there.\<close>

definition came_from :: "'w plugin_discovery \<Rightarrow> string \<Rightarrow> 'w plugin \<Rightarrow> bool" where
  "came_from D d p \<longleftrightarrow> (\<exists>w m entry_point. discovery_read D d w = Inr (m, entry_point) \<and> plugin_id p = mf_id m)"

lemma discovery_load_Inr: "discovery_load D d w = (Inr p, w') \<Longrightarrow> came_from D d p"
  unfolding discovery_load_def came_from_def
  by (auto dest!: bnd_InrD simp: plugin_load_Inr split: prod.splits) (metis lift_res_apply prod.inject)

lemma discover_dirs_outcome:
  "discover_dirs D ds (r, w) = (x, r', w') \<Longrightarrow>
    \<exists>ps. r' = r @ map (\<lambda>p. (plugin_id p, p)) ps \<and> list_all2 (came_from D) (take (length ps) ds) ps
      \<and> (if length ps = length ds then x = Inr ps else \<exists>e. x = Inl e)
      \<and> distinct (map plugin_id ps) \<and> set (map plugin_id ps) \<inter> set (keys r) = {}"
proof (induction ds arbitrary: r w x r' w')
  case Nil
  then show ?case by (intro exI[of _ "[]"]) simp
next
  case (Cons d ds)
  obtain y w1 where load: "discovery_load D d w = (y, w1)" by (cases "discovery_load D d w")
  show ?case
  proof (cases y)
    case (Inl e)
    with Cons.prems load show ?thesis by (intro exI[of _ "[]"]) auto
  next
    case (Inr p)
    show ?thesis
    proof (cases "plugin_register p r")
      case (Inl e)
      with Cons.prems load \<open>y = Inr p\<close> show ?thesis by (intro exI[of _ "[]"]) auto
    next
      case (Inr r1)
      then have r1: "r1 = r @ [(plugin_id p, p)]" and new: "plugin_id p \<notin> set (keys r)"
        by (auto simp: plugin_register_def has_key_iff update_new split: if_splits)
      obtain z r2 w2 where rest: "discover_dirs D ds (r1, w1) = (z, r2, w2)" by (rule prod_cases3)
      from Cons.IH[OF rest] obtain ps where ps: "r2 = r1 @ map (\<lambda>p. (plugin_id p, p)) ps"
        "list_all2 (came_from D) (take (length ps) ds) ps"
        "if length ps = length ds then z = Inr ps else \<exists>e. z = Inl e"
        "distinct (map plugin_id ps)" "set (map plugin_id ps) \<inter> set (keys r1) = {}" by blast
      have out: "x = (case z of Inl e \<Rightarrow> Inl e | Inr qs \<Rightarrow> Inr (p # qs))" "r' = r2"
        using Cons.prems load \<open>y = Inr p\<close> Inr rest by (auto simp: bnd_def split: sum.splits)
      have "came_from D d p" using load unfolding \<open>y = Inr p\<close> by (rule discovery_load_Inr)
      with ps r1 new out show ?thesis by (intro exI[of _ "p # ps"]) (auto split: if_splits)
    qed
  qed
qed

text \<open>C23 Discovery fails fast and never rolls back: whatever happens, the registry afterwards is
  the one before with a plugin appended for each directory of a prefix of the scan, in the order of
  their names, each under the id of the manifest in its directory and under no id there was;
  the call returns exactly those plugins when every directory gave one, and raises otherwise.\<close>

theorem discovery_registers_prefix:
  assumes "discover_and_register D base (r, w) = (x, r', w')" and "discovery_scan D base w = Inr ds"
  shows "\<exists>ps. r' = r @ map (\<lambda>p. (plugin_id p, p)) ps \<and> list_all2 (came_from D) (take (length ps) ds) ps
      \<and> (if length ps = length ds then x = Inr ps else \<exists>e. x = Inl e)
      \<and> distinct (map plugin_id ps) \<and> set (map plugin_id ps) \<inter> set (keys r) = {}"
  using assms by (intro discover_dirs_outcome) (simp add: discover_and_register_def)

text \<open>A file system of one plugin directory, for concrete runs.\<close>

definition demo_discovery :: "nat plugin_discovery" where
  "demo_discovery = new_plugin_discovery demo_json
     \<lparr>fs_is_dir = (\<lambda>p _. p \<in> {''plugins'', ''plugins/a''}), fs_is_file = (\<lambda>p _. p = ''plugins/a/plugin_manifest.json''),
      fs_names = (\<lambda>_ _. Inr [''b'', ''a'']), fs_read = (\<lambda>_ _. Inr ''[]'')\<rparr>
     \<lparr>im_module = (\<lambda>_. ret 0), im_attribute = (\<lambda>_ _. ret NotCallable)\<rparr> None None"

theorem discovery_registers_prefix_witness:
  "\<exists>x r'. discover_and_register demo_discovery ''plugins'' ([], 0) = (x, r', 0)
     \<and> discovery_scan demo_discovery ''plugins'' 0 = Inr [''plugins/a''] \<and> (\<exists>ps. r' = map (\<lambda>p. (plugin_id p, p)) ps)"
proof -
  have scan: "discovery_scan demo_discovery ''plugins'' 0 = Inr [''plugins/a'']"
    by code_simp
  obtain x r' w' where run: "discover_and_register demo_discovery ''plugins'' ([], 0) = (x, r', w')"
    by (rule prod_cases3)
  have "discovery_read demo_discovery ''plugins/a'' 0
      = Inl (parse_error (''plugins/a/plugin_manifest.json must contain a JSON object at the top level.''))"
    by code_simp
  then have "w' = 0" using run scan
    by (auto simp: discover_and_register_def discovery_load_def bnd_def)
  with discovery_registers_prefix[OF run scan] run scan show ?thesis by auto
qed

section \<open>A written manifest reads back\<close>

definition capability_document :: "plugin_capability \<Rightarrow> pyval" where
  "capability_document c = PDict [(''name'', PStr (cb_name c)), (''description'', cb_description c)]"

definition manifest_document :: "plugin_manifest \<Rightarrow> string \<Rightarrow> pyval" where
  "manifest_document m entry_point = PDict [(''id'', PStr (mf_id m)), (''name'', PStr (mf_name m)),
     (''version'', PStr (mf_version m)), (''description'', mf_description m), (''author'', PStr (mf_author m)),
     (''capabilities'', PList (map capability_document (mf_capabilities m))),
     (''minimum_kernel_version'', PStr (mf_minimum m)), (''entry_point'', PStr entry_point)]"

text \<open>A manifest as the SDK builds it: it passed its check, and its texts are texts.\<close>

definition plain_manifest :: "plugin_manifest \<Rightarrow> bool" where
  "plain_manifest m \<longleftrightarrow> check_plugin_manifest m = Inr m \<and> is_pystr (mf_description m)
     \<and> list_all (\<lambda>c. check_plugin_capability c = Inr c \<and> is_pystr (cb_description c)) (mf_capabilities m)
     \<and> distinct (mf_capabilities m)"

lemma pystr_norm [simp]: "is_pystr v \<Longrightarrow> json_norm v = v" "is_pystr v \<Longrightarrow> json_ok J v"
  by (cases v; simp)+

lemma parse_capability_document:
  "check_plugin_capability c = Inr c \<Longrightarrow> parse_capability path (capability_document c) = Inr c"
  by (cases c) (simp add: parse_capability_def capability_document_def as_text_def get_or_def)

lemma parse_capability_documents:
  "list_all (\<lambda>c. check_plugin_capability c = Inr c) cs \<Longrightarrow>
    parse_capabilities path (map capability_document cs) = Inr cs"
  by (induction cs) (simp_all add: parse_capability_document)

lemma unique_capabilities_distinct:
  "distinct cs \<Longrightarrow> list_all (\<lambda>c. is_pystr (cb_description c)) cs \<Longrightarrow> unique_capabilities cs = cs"
proof (induction cs)
  case (Cons c cs)
  have "\<not> (cb_name d = cb_name c \<and> py_eq (cb_description d) (cb_description c))" if "d \<in> set cs" for d
  proof
    assume eq: "cb_name d = cb_name c \<and> py_eq (cb_description d) (cb_description c)"
    have "is_pystr (cb_description d)" "is_pystr (cb_description c)" using Cons.prems(2) that by (auto simp: list_all_iff)
    with eq have "d = c" by (cases "cb_description d"; cases "cb_description c") auto
    with that Cons.prems(1) show False by simp
  qed
  with Cons show ?case by (simp add: filter_id_conv)
qed simp

lemma norm_capabilities:
  "list_all (\<lambda>c. is_pystr (cb_description c)) cs \<Longrightarrow> map (json_norm \<circ> capability_document) cs = map capability_document cs"
  by (induction cs) (simp_all add: capability_document_def)

text \<open>C22 The manifest format round-trips: the JSON text of the document that spells out a manifest
  that passed its checks and a non-blank entry point is read back as that manifest and that
  entry point, whichever way non-ASCII characters are written.\<close>

theorem manifest_file_roundtrip:
  assumes "plain_manifest m" and "\<not> blank entry_point"
    and "dumps J ascii None (manifest_document m entry_point) = Inr text"
    and "fs_is_file fs path w" and "fs_read fs path w = Inr text"
  shows "read_manifest_file J fs path w = Inr (m, entry_point)"
proof -
  have plain: "check_plugin_manifest m = Inr m" "is_pystr (mf_description m)"
      "list_all (\<lambda>c. check_plugin_capability c = Inr c) (mf_capabilities m)"
      "list_all (\<lambda>c. is_pystr (cb_description c)) (mf_capabilities m)" "distinct (mf_capabilities m)"
    using assms(1) by (auto simp: plain_manifest_def list_all_iff)
  have "json_ok J (manifest_document m entry_point)"
    using plain(2,4) by (simp add: manifest_document_def capability_document_def dict_ok_def list_all_iff)
  from loads_dumps[OF assms(3) this] have "loads J text = Inr (manifest_document m entry_point)"
    using plain(2) norm_capabilities[OF plain(4)] by (simp add: manifest_document_def)
  moreover have "hashable v" if "is_pystr v" for v using that by (cases v) (simp_all add: hashable_def)
  then have "capability_set (mf_capabilities m) = Inr (mf_capabilities m)"
    using plain(4,5) by (auto simp: capability_set_def unique_capabilities_distinct list_all_iff)
  ultimately show ?thesis
    using assms(2,4,5) plain(1) parse_capability_documents[OF plain(3), of path]
    by (cases m) (simp add: read_manifest_file_def manifest_document_def manifest_of_document_def required_fields_def
        has_key_def get_or_def manifest_of_texts)
qed

theorem manifest_file_roundtrip_witness:
  "\<exists>raw. dumps demo_json True None (manifest_document demo_manifest ''m:f'') = Inr raw
    \<and> read_manifest_file demo_json \<lparr>fs_is_dir = (\<lambda>_ _. True), fs_is_file = (\<lambda>_ _. True),
        fs_names = (\<lambda>_ _. Inr []), fs_read = (\<lambda>_ _. Inr raw)\<rparr> ''p'' (0 :: nat) = Inr (demo_manifest, ''m:f'')"
proof -
  obtain raw where t: "dumps demo_json True None (manifest_document demo_manifest ''m:f'') = Inr raw"
    by (simp add: manifest_document_def demo_manifest_def)
  have "plain_manifest demo_manifest"
    by (simp add: plain_manifest_def check_plugin_manifest_def demo_manifest_def demo_versions py_isspace_def Let_def)
  moreover have "\<not> blank ''m:f''" by (simp add: py_isspace_def)
  ultimately show ?thesis
    by (intro exI[of _ raw] conjI t manifest_file_roundtrip[OF _ _ t]) simp_all
qed

end
