(* ===== verification/Plugin_Sdk.thy ===== *)
theory Plugin_Sdk
  imports Plugins
begin

text \<open>
  The plugin SDK (\<open>plugin_sdk/\<close>): a base class with empty hooks, the builder, the helper
  functions and the predicates. All of them go through the constructors of the runtime.
\<close>

definition base_plugin :: "plugin_metadata \<Rightarrow> 'w plugin" where
  "base_plugin m = \<lparr>pg_metadata = m, pg_initialize = (\<lambda>_. ret ()), pg_start = ret (), pg_stop = ret (),
     pg_dispose = ret ()\<rparr>"

section \<open>Helpers\<close>

definition create_capability :: "string \<Rightarrow> pyval \<Rightarrow> plugin_capability res" where
  "create_capability name description = check_plugin_capability \<lparr>cb_name = name, cb_description = description\<rparr>"

definition create_manifest ::
  "string \<Rightarrow> string \<Rightarrow> string \<Rightarrow> string \<Rightarrow> pyval \<Rightarrow> plugin_capability list \<Rightarrow> string \<Rightarrow> plugin_manifest res" where
  "create_manifest i name version author description capabilities minimum =
     rbind (capability_set capabilities) (\<lambda>cs.
     check_plugin_manifest \<lparr>mf_id = i, mf_name = name, mf_version = version, mf_description = description,
       mf_author = author, mf_capabilities = cs, mf_minimum = minimum\<rparr>)"

definition create_metadata ::
  "string \<Rightarrow> string \<Rightarrow> string \<Rightarrow> pyval \<Rightarrow> plugin_capability list \<Rightarrow> plugin_metadata res" where
  "create_metadata i name version description capabilities =
     rbind (capability_set capabilities) (\<lambda>cs.
     check_plugin_metadata \<lparr>pd_id = i, pd_name = name, pd_version = version, pd_description = description,
       pd_capabilities = cs\<rparr>)"

section \<open>Predicates\<close>

text \<open>\<open>try ... except PluginValidationError: return False\<close>; anything else propagates.\<close>

definition constructs :: "'a res \<Rightarrow> bool res" where
  "constructs r = (case r of Inr _ \<Rightarrow> Inr True
     | Inl e \<Rightarrow> if exn_isa PluginValidationError e then Inr False else Inl e)"

definition is_valid_capability :: "string \<Rightarrow> pyval \<Rightarrow> bool res" where
  "is_valid_capability name description =
     constructs (check_plugin_capability \<lparr>cb_name = name, cb_description = description\<rparr>)"

definition is_valid_metadata ::
  "string \<Rightarrow> string \<Rightarrow> string \<Rightarrow> pyval \<Rightarrow> plugin_capability list \<Rightarrow> bool res" where
  "is_valid_metadata i name version description capabilities =
     constructs (rbind (capability_set capabilities) (\<lambda>cs.
       check_plugin_metadata \<lparr>pd_id = i, pd_name = name, pd_version = version, pd_description = description,
         pd_capabilities = cs\<rparr>))"

definition is_valid_manifest ::
  "string \<Rightarrow> string \<Rightarrow> string \<Rightarrow> string \<Rightarrow> pyval \<Rightarrow> plugin_capability list \<Rightarrow> string \<Rightarrow> bool res" where
  "is_valid_manifest i name version author description capabilities minimum =
     constructs (rbind (capability_set capabilities) (\<lambda>cs.
       check_plugin_manifest \<lparr>mf_id = i, mf_name = name, mf_version = version, mf_description = description,
         mf_author = author, mf_capabilities = cs, mf_minimum = minimum\<rparr>))"

section \<open>The builder\<close>

record plugin_builder =
  ub_id :: string
  ub_name :: string
  ub_version :: string
  ub_author :: string
  ub_description :: pyval
  ub_capabilities :: "plugin_capability frozenset"
  ub_minimum :: string

definition new_plugin_builder :: plugin_builder where
  "new_plugin_builder = \<lparr>ub_id = [], ub_name = [], ub_version = [], ub_author = [], ub_description = PStr [],
     ub_capabilities = [], ub_minimum = ''0.0.0''\<rparr>"

definition with_id :: "string \<Rightarrow> plugin_builder \<Rightarrow> plugin_builder" where
  "with_id v b = b\<lparr>ub_id := v\<rparr>"

definition with_name :: "string \<Rightarrow> plugin_builder \<Rightarrow> plugin_builder" where
  "with_name v b = b\<lparr>ub_name := v\<rparr>"

definition with_version :: "string \<Rightarrow> plugin_builder \<Rightarrow> plugin_builder" where
  "with_version v b = b\<lparr>ub_version := v\<rparr>"

definition with_author :: "string \<Rightarrow> plugin_builder \<Rightarrow> plugin_builder" where
  "with_author v b = b\<lparr>ub_author := v\<rparr>"

definition with_description :: "pyval \<Rightarrow> plugin_builder \<Rightarrow> plugin_builder" where
  "with_description v b = b\<lparr>ub_description := v\<rparr>"

definition with_capability :: "string \<Rightarrow> pyval \<Rightarrow> plugin_builder \<Rightarrow> plugin_builder res" where
  "with_capability name description b =
     rbind (check_plugin_capability \<lparr>cb_name = name, cb_description = description\<rparr>) (\<lambda>c.
     rbind (capability_set (ub_capabilities b @ [c])) (\<lambda>cs. Inr (b\<lparr>ub_capabilities := cs\<rparr>)))"

definition with_capabilities :: "plugin_capability list \<Rightarrow> plugin_builder \<Rightarrow> plugin_builder res" where
  "with_capabilities capabilities b = rbind (capability_set capabilities) (\<lambda>cs. Inr (b\<lparr>ub_capabilities := cs\<rparr>))"

definition with_minimum_kernel_version :: "string \<Rightarrow> plugin_builder \<Rightarrow> plugin_builder" where
  "with_minimum_kernel_version v b = b\<lparr>ub_minimum := v\<rparr>"

definition build_manifest :: "plugin_builder \<Rightarrow> plugin_manifest res" where
  "build_manifest b = check_plugin_manifest \<lparr>mf_id = ub_id b, mf_name = ub_name b, mf_version = ub_version b,
     mf_description = ub_description b, mf_author = ub_author b, mf_capabilities = ub_capabilities b,
     mf_minimum = ub_minimum b\<rparr>"

definition build_metadata :: "plugin_builder \<Rightarrow> plugin_metadata res" where
  "build_metadata b = check_plugin_metadata \<lparr>pd_id = ub_id b, pd_name = ub_name b, pd_version = ub_version b,
     pd_description = ub_description b, pd_capabilities = ub_capabilities b\<rparr>"

section \<open>The three ways agree\<close>

text \<open>A builder that went through every setter.\<close>

definition filled_builder ::
  "string \<Rightarrow> string \<Rightarrow> string \<Rightarrow> string \<Rightarrow> pyval \<Rightarrow> plugin_capability list \<Rightarrow> string \<Rightarrow> plugin_builder res" where
  "filled_builder i name version author description capabilities minimum =
     with_capabilities capabilities (with_minimum_kernel_version minimum (with_description description
       (with_author author (with_version version (with_name name (with_id i new_plugin_builder))))))"

lemma constructs_iff:
  "constructs r = Inr True \<longleftrightarrow> (\<exists>x. r = Inr x)"
  "constructs r = Inr False \<longleftrightarrow> (\<exists>e. r = Inl e \<and> exn_isa PluginValidationError e)"
  "constructs r = Inl e \<longleftrightarrow> r = Inl e \<and> \<not> exn_isa PluginValidationError e"
  by (auto simp: constructs_def split: sum.splits)

lemma parse_version_raises:
  "parse_version v f = Inl e \<Longrightarrow> exn_isa PluginValidationError e \<or> exn_isa (ForeignException ''ValueError'') e"
  by (auto simp: parse_version_def version_error_def int_of_digits_def rbind_def Let_def
      split: if_splits list.splits sum.splits)

lemma check_manifest_raises:
  "check_plugin_manifest m = Inl e \<Longrightarrow> exn_isa PluginValidationError e \<or> exn_isa (ForeignException ''ValueError'') e"
  by (auto simp: check_plugin_manifest_def rbind_def dest: parse_version_raises split: if_splits sum.splits)

lemma sdk_manifest_raises:
  assumes "list_all (\<lambda>c. is_pystr (cb_description c)) cs" and "create_manifest i n v a d cs mi = Inl e"
  shows "exn_isa PluginValidationError e \<or> exn_isa (ForeignException ''ValueError'') e"
proof -
  have "hashable x" if "is_pystr x" for x using that by (cases x) (simp_all add: hashable_def)
  with assms(1) have "list_all (\<lambda>c. hashable (cb_description c)) cs" by (simp add: list_all_iff)
  with assms(2) show ?thesis by (simp add: create_manifest_def capability_set_def check_manifest_raises)
qed

text \<open>C24 The SDK agrees with the runtime: the builder gives exactly what the helper gives, the
  manifest or the exception; the predicate is true exactly when the helper constructs a manifest,
  and a constructed manifest passes the runtime's check; it is false exactly when the helper raises
  \<open>PluginValidationError\<close>; and with textual descriptions the only exception that leaves either is
  the \<open>ValueError\<close> of a version number.\<close>

theorem sdk_agrees_with_runtime:
  "rbind (filled_builder i n v a d cs mi) build_manifest = create_manifest i n v a d cs mi
    \<and> (is_valid_manifest i n v a d cs mi = Inr True \<longleftrightarrow>
         (\<exists>m. create_manifest i n v a d cs mi = Inr m \<and> check_plugin_manifest m = Inr m))
    \<and> (is_valid_manifest i n v a d cs mi = Inr False \<longleftrightarrow>
         (\<exists>e. create_manifest i n v a d cs mi = Inl e \<and> exn_isa PluginValidationError e))
    \<and> (list_all (\<lambda>c. is_pystr (cb_description c)) cs \<and> is_valid_manifest i n v a d cs mi = Inl e
         \<longrightarrow> exn_isa (ForeignException ''ValueError'') e)"
proof (intro conjI)
  show "rbind (filled_builder i n v a d cs mi) build_manifest = create_manifest i n v a d cs mi"
    by (cases "capability_set cs") (simp_all add: filled_builder_def with_capabilities_def create_manifest_def
        build_manifest_def with_minimum_kernel_version_def with_description_def with_author_def with_version_def
        with_name_def with_id_def new_plugin_builder_def)
  have valid: "is_valid_manifest i n v a d cs mi = constructs (create_manifest i n v a d cs mi)"
    by (simp add: is_valid_manifest_def create_manifest_def)
  have checked: "create_manifest i n v a d cs mi = Inr m \<Longrightarrow> check_plugin_manifest m = Inr m" for m
    by (auto simp: create_manifest_def rbind_Inr_iff check_plugin_manifest_iff)
  show "is_valid_manifest i n v a d cs mi = Inr True \<longleftrightarrow>
      (\<exists>m. create_manifest i n v a d cs mi = Inr m \<and> check_plugin_manifest m = Inr m)"
    using checked unfolding valid constructs_iff by blast
  show "is_valid_manifest i n v a d cs mi = Inr False \<longleftrightarrow>
      (\<exists>e. create_manifest i n v a d cs mi = Inl e \<and> exn_isa PluginValidationError e)"
    unfolding valid constructs_iff ..
  show "list_all (\<lambda>c. is_pystr (cb_description c)) cs \<and> is_valid_manifest i n v a d cs mi = Inl e
      \<longrightarrow> exn_isa (ForeignException ''ValueError'') e"
    unfolding valid constructs_iff using sdk_manifest_raises by blast
qed

theorem sdk_agrees_with_runtime_witness:
  "is_valid_manifest ''p'' ''P'' ''1.0.0'' ''a'' (PStr []) [] ''1.10.0'' = Inr True"
proof -
  have "create_manifest ''p'' ''P'' ''1.0.0'' ''a'' (PStr []) [] ''1.10.0'' = Inr demo_manifest"
    "check_plugin_manifest demo_manifest = Inr demo_manifest"
    by (simp_all add: create_manifest_def capability_set_def check_plugin_manifest_def demo_manifest_def demo_versions
        py_isspace_def Let_def)
  with sdk_agrees_with_runtime[of "''p''" "''P''" "''1.0.0''" "''a''" "PStr []" "[]" "''1.10.0''"]
  show ?thesis by blast
qed

end
