(* ===== verification/System_Info.thy ===== *)
theory System_Info
  imports Bootstrap Plugin_Sdk
begin

text \<open>
  The builtin plugin \<open>plugins_builtin/system_info.py\<close>: it keeps the context it was initialised
  with and reports on the runtime that context names, the objects of a bootstrapped kernel.
\<close>

record system_info_snapshot =
  sn_kernel_version :: string
  sn_build_info :: string
  sn_capabilities :: "string frozenset"
  sn_providers :: "string list"
  sn_tools :: "string list"
  sn_health :: health_status

text \<open>The plugin: the registry it may read, and the context once it has one.\<close>

record 'w system_info_plugin =
  sy_registry :: "'w plugin_registry option"
  sy_context :: "plugin_context option"

definition new_system_info :: "'w plugin_registry option \<Rightarrow> 'w system_info_plugin" where
  "new_system_info r = \<lparr>sy_registry = r, sy_context = None\<rparr>"

definition system_info_metadata :: plugin_metadata where
  "system_info_metadata = \<lparr>pd_id = ''system-info'', pd_name = ''System Information Plugin'', pd_version = ''1.0.0'',
     pd_description = PStr (''Exposes read-only kernel information: version, build info, ''
       @ ''available capabilities, registered providers/tools, and runtime health.''),
     pd_capabilities = [\<lparr>cb_name = ''kernel.introspection'',
       cb_description = PStr ''Read-only kernel and runtime information.''\<rparr>]\<rparr>"

definition system_info_initialize :: "plugin_context \<Rightarrow> 'w system_info_plugin \<Rightarrow> 'w system_info_plugin" where
  "system_info_initialize ctx p = p\<lparr>sy_context := Some ctx\<rparr>"

definition available_capabilities :: "'w system_info_plugin \<Rightarrow> string frozenset" where
  "available_capabilities p =
     (case sy_registry p of
        None \<Rightarrow> remdups (map cb_name (pd_capabilities system_info_metadata))
      | Some r \<Rightarrow> remdups (concat (map (\<lambda>m. map cb_name (pd_capabilities m)) (plugin_enumerate r))))"

text \<open>
  A service resolved from the container; a missing one gives the empty answer, an instance of
  another class has none of the registry's methods.
\<close>

definition no_method :: "string \<Rightarrow> exn" where
  "no_method n = Exn (ForeignException ''AttributeError'') (''object has no attribute '' @ repr_str n)"

definition resolve_provider_names :: "nat \<Rightarrow> ('w boot_state, string list) py" where
  "resolve_provider_names depth = (\<lambda>s.
     case resolve depth (service_type_name ''providers.registry.ProviderRegistry'') (bs_container s) of
       (Inl e, c, _) \<Rightarrow> (if exn_isa ServiceRegistrationError e then Inr [] else Inl e, s\<lparr>bs_container := c\<rparr>)
     | (Inr i, c, _) \<Rightarrow>
         (case i of ProviderRegistryService \<Rightarrow> Inr (provider_list (bs_providers s))
          | _ \<Rightarrow> Inl (no_method ''list_providers''), s\<lparr>bs_container := c\<rparr>))"

definition resolve_tool_ids :: "nat \<Rightarrow> ('w boot_state, string list) py" where
  "resolve_tool_ids depth = (\<lambda>s.
     case resolve depth (service_type_name ''tools.registry.ToolRegistry'') (bs_container s) of
       (Inl e, c, _) \<Rightarrow> (if exn_isa ServiceRegistrationError e then Inr [] else Inl e, s\<lparr>bs_container := c\<rparr>)
     | (Inr i, c, _) \<Rightarrow>
         (case i of ToolRegistryService \<Rightarrow> Inr (map tm_id (tool_enumerate (bs_tools s)))
          | _ \<Rightarrow> Inl (no_method ''enumerate''), s\<lparr>bs_container := c\<rparr>))"

text \<open>\<open>collect\<close>; the platform gives the interpreter's version, the system and its release.\<close>

definition system_info_collect ::
  "string \<times> string \<times> string \<Rightarrow> nat \<Rightarrow> 'w system_info_plugin \<Rightarrow> ('w boot_state, system_info_snapshot) py" where
  "system_info_collect platform depth p =
     (case (sy_context p, platform) of
        (None, _) \<Rightarrow> throw (Exn PluginLifecycleError ''SystemInfoPlugin.collect() was called before initialize().'')
      | (Some _, python_version, system, release) \<Rightarrow>
          bnd (resolve_provider_names depth) (\<lambda>providers.
          bnd (resolve_tool_ids depth) (\<lambda>tools. (\<lambda>s.
          case runtime_health s of
            None \<Rightarrow> (Inl (no_method ''health''), s)
          | Some health \<Rightarrow>
              (Inr \<lparr>sn_kernel_version = kernel_version,
                 sn_build_info = ''Python '' @ python_version @ '' on '' @ system @ '' '' @ release,
                 sn_capabilities = available_capabilities p, sn_providers = providers, sn_tools = tools,
                 sn_health = health\<rparr>, s)))))"

lemma resolve_instance: "map_of (sc_instances c) t = Some i \<Longrightarrow> resolve n t c = (Inr i, c, [])"
  by (cases n) (simp_all add: resolve_with_def)

lemma default_services_of: "list_all P (default_services config @ xs) \<Longrightarrow>
    P (service_type_name ''providers.registry.ProviderRegistry'', ProviderRegistryService)
    \<and> P (service_type_name ''tools.registry.ToolRegistry'', ToolRegistryService)"
  by (simp add: default_services_def)

text \<open>On a bootstrapped kernel the builtin plugin, once initialised, always reports: the names of
  the registered providers and the ids of the registered tools as they are, a healthy running
  kernel, and nothing changes; before it is initialised it raises \<open>PluginLifecycleError\<close>.\<close>

theorem system_info_reports:
  assumes "check_kernel_config (bb_config b) = Inr (bb_config b)" and "tool_registry_ok (bs_tools (boot_objects b lg))"
    and "bootstrap_build K b lg = (Inr rc, s)"
  shows "(\<exists>sn. system_info_collect platform depth (system_info_initialize ctx (new_system_info r)) s = (Inr sn, s)
      \<and> sn_providers sn = provider_list (bs_providers s) \<and> sn_tools sn = map tm_id (tool_enumerate (bs_tools s))
      \<and> sn_kernel_version sn = kernel_version \<and> hs_healthy (sn_health sn))
    \<and> (\<exists>e. system_info_collect platform depth (new_system_info r) s = (Inl e, s) \<and> exn_isa PluginLifecycleError e)"
proof -
  note boot = bootstrap_build_Inr[OF assms(3,1,2)]
  then have "map_of (sc_instances (bs_container s)) (service_type_name ''providers.registry.ProviderRegistry'')
        = Some ProviderRegistryService"
    "map_of (sc_instances (bs_container s)) (service_type_name ''tools.registry.ToolRegistry'') = Some ToolRegistryService"
    using default_services_of[of "\<lambda>(t, i). map_of (sc_instances (bs_container s)) t = Some i"] by auto
  then have providers: "resolve_provider_names depth s = (Inr (provider_list (bs_providers s)), s)"
    and tools: "resolve_tool_ids depth s = (Inr (map tm_id (tool_enumerate (bs_tools s))), s)"
    by (simp_all add: resolve_provider_names_def resolve_tool_ids_def resolve_instance)
  from boot obtain k where k: "bs_kernel s = Some k" "k_state k = RUNNING" by (auto simp: runtime_state_def)
  then have "runtime_health s = Some (kernel_health k)" "hs_healthy (kernel_health k)"
    by (simp_all add: runtime_health_def kernel_health_def)
  with providers tools show ?thesis
    by (cases platform) (simp add: system_info_collect_def system_info_initialize_def new_system_info_def bnd_def)
qed

theorem system_info_reports_witness:
  "\<exists>rc s sn. bootstrap_build (\<lambda>_ (_ :: nat). new_kernel ''INFO'') (with_builtin_tools (new_bootstrap_builder default_config))
      fresh_logger = (Inr rc, s)
    \<and> system_info_collect (''3.13'', ''Linux'', ''6'') 0 (system_info_initialize demo_plugin_context (new_system_info None)) s
        = (Inr sn, s) \<and> sn_tools sn = map tm_id (tool_enumerate (bs_tools s))"
proof -
  let ?b = "with_builtin_tools (new_bootstrap_builder default_config) :: nat bootstrap_builder"
  have config: "check_kernel_config (bb_config ?b) = Inr (bb_config ?b)"
    by (simp add: check_kernel_config_def has_key_def level_names_def default_config_def with_builtin_tools_def
        new_bootstrap_builder_def)
  have tools: "tool_registry_ok (bs_tools (boot_objects ?b fresh_logger))"
    by (simp add: boot_objects_def keyed_by_def with_builtin_tools_def new_bootstrap_builder_def)
  have "boot_fits ?b"
    by (simp add: boot_fits_def with_builtin_tools_def new_bootstrap_builder_def default_services_def
        service_type_name_def tool_exists_def has_key_def is_registered_def empty_container_def)
  from bootstrap_build_fits[OF this config tools] obtain rc s where
    run: "bootstrap_build (\<lambda>_ (_ :: nat). new_kernel ''INFO'') ?b fresh_logger = (Inr rc, s)" by blast
  from system_info_reports[OF config tools run, of "(''3.13'', ''Linux'', ''6'')" 0 demo_plugin_context None] run
  show ?thesis by blast
qed

end
