(* ===== verification/Ai_Engine.thy ===== *)
theory Ai_Engine
  imports Agents Bootstrap Plugin_Discovery Plugin_Lifecycle
begin

text \<open>
  The AI engine (\<open>ai_engine/\<close>): a builder that composes the engines on a bootstrapped runtime, the
  facade that delegates to them, and the fleet of plugin lifecycles it drives.

  Plugin registries and engines are objects with an identity; the state holds the registries,
  the weak table of their owners, the engines that are alive and the lifecycles each engine holds.
  Hooks act on the world and leave the registries alone.
\<close>

section \<open>Contexts\<close>

record ai_context =
  ic_log_level :: string
  ic_logger :: string
  ic_runtime :: nat
  ic_services :: nat

definition to_execution_context :: "ai_context \<Rightarrow> string option \<Rightarrow> exec_context" where
  "to_execution_context c logger = \<lparr>xc_log_level = ic_log_level c,
     xc_logger = (case logger of Some l \<Rightarrow> l | None \<Rightarrow> ic_logger c), xc_runtime = ic_runtime c,
     xc_services = ic_services c\<rparr>"

definition to_workflow_context :: "ai_context \<Rightarrow> string option \<Rightarrow> workflow_context" where
  "to_workflow_context c logger = \<lparr>wc_execution = to_execution_context c logger, wc_results = []\<rparr>"

definition to_agent_context :: "ai_context \<Rightarrow> string option \<Rightarrow> agent_context" where
  "to_agent_context c logger = \<lparr>ac_workflow = to_workflow_context c logger\<rparr>"

definition to_plugin_context :: "ai_context \<Rightarrow> string option \<Rightarrow> plugin_context" where
  "to_plugin_context c logger = \<lparr>px_log_level = ic_log_level c,
     px_logger = (case logger of Some l \<Rightarrow> l | None \<Rightarrow> ic_logger c), px_runtime = ic_runtime c,
     px_services = ic_services c\<rparr>"

section \<open>State and engines\<close>

record 'w ai_state =
  is_registries :: "(nat, 'w plugin_registry) dict"
  is_owners :: "(nat, nat) dict"
  is_live :: "nat list"
  is_fleets :: "(nat, (string, 'w lifecycle) dict) dict"
  is_next :: nat
  is_world :: 'w

text \<open>The bootstrapped runtime with the registries it reads and what the process provides.\<close>

record 'w ai_runtime =
  rt_context :: runtime_context
  rt_kernel :: nat
  rt_container :: nat
  rt_dispatcher :: "'w dispatcher"
  rt_str :: "payload \<Rightarrow> string"
  rt_schedule :: "'w \<Rightarrow> nat \<Rightarrow> nat"
  rt_json :: json_lib
  rt_files :: "'w file_system"
  rt_imports :: "'w import_system"

record 'w ai_engine =
  ai_id :: nat
  ai_runtime :: "'w ai_runtime"
  ai_context :: ai_context
  ai_execution :: "'w exec_engine"
  ai_workflows :: "'w workflow_engine"
  ai_agents :: "'w agent_engine"
  ai_registry :: nat

text \<open>\<open>AIEngine.__init__\<close>: the registry must not have a live owner.\<close>

definition registry_repr :: "nat \<Rightarrow> string" where
  "registry_repr r = ''<mellivor_kernel.plugins.registry.PluginRegistry object at '' @ nat_str r @ ''>''"

definition registry_owned :: "nat \<Rightarrow> 'w ai_state \<Rightarrow> bool" where
  "registry_owned r s = (case map_of (is_owners s) r of Some e \<Rightarrow> e \<in> set (is_live s) | None \<Rightarrow> False)"

definition new_ai_engine :: "nat \<Rightarrow> (nat \<Rightarrow> 'w ai_engine) \<Rightarrow> ('w ai_state, 'w ai_engine) py" where
  "new_ai_engine r make_engine = (\<lambda>s.
     if registry_owned r s
     then (Inl (Exn AIEngineError (registry_repr r @ '' is already owned by another live AIEngine. ''
            @ ''Each AIEngine must be built with an exclusive PluginRegistry.'')), s)
     else let e = is_next s in
       (Inr (make_engine e), s\<lparr>is_owners := AList.update r e (is_owners s), is_live := e # is_live s,
          is_fleets := AList.update e [] (is_fleets s), is_next := Suc e\<rparr>))"

text \<open>\<open>PluginRegistry()\<close>, and an engine that is collected.\<close>

definition new_plugin_registry :: "'w ai_state \<Rightarrow> nat \<times> 'w ai_state" where
  "new_plugin_registry s = (is_next s,
     s\<lparr>is_registries := AList.update (is_next s) [] (is_registries s), is_next := Suc (is_next s)\<rparr>)"

definition collect_engine :: "nat \<Rightarrow> 'w ai_state \<Rightarrow> 'w ai_state" where
  "collect_engine e s = s\<lparr>is_live := removeAll e (is_live s), is_fleets := AList.delete e (is_fleets s)\<rparr>"

definition registry_of :: "nat \<Rightarrow> 'w ai_state \<Rightarrow> 'w plugin_registry" where
  "registry_of r s = (case map_of (is_registries s) r of Some x \<Rightarrow> x | None \<Rightarrow> [])"

section \<open>The builder\<close>

record 'w ai_builder =
  ab_runtime :: "'w ai_runtime"
  ab_authorization_requested :: bool
  ab_authorizer :: "'w authorizer option"
  ab_audit :: "(audit_record \<Rightarrow> ('w, unit) py) option"
  ab_bus :: "(event \<Rightarrow> ('w, unit) py) option"
  ab_memory :: "'w memory_store_ops option"
  ab_sink :: "(observation \<Rightarrow> ('w, unit) py) option"
  ab_registry :: "nat option"
  ab_discovery_root :: "string option"
  ab_discovery_loader :: "plugin_loader option"

definition new_ai_builder :: "'w ai_runtime \<Rightarrow> 'w ai_builder" where
  "new_ai_builder rt = \<lparr>ab_runtime = rt, ab_authorization_requested = False, ab_authorizer = None,
     ab_audit = None, ab_bus = None, ab_memory = None, ab_sink = None, ab_registry = None,
     ab_discovery_root = None, ab_discovery_loader = None\<rparr>"

definition with_authorization ::
  "'w authorizer option \<Rightarrow> (audit_record \<Rightarrow> ('w, unit) py) option \<Rightarrow> 'w ai_builder \<Rightarrow> 'w ai_builder" where
  "with_authorization a audit B = B\<lparr>ab_authorization_requested := True, ab_authorizer := a, ab_audit := audit\<rparr>"

definition with_event_bus :: "(event \<Rightarrow> ('w, unit) py) \<Rightarrow> 'w ai_builder \<Rightarrow> 'w ai_builder" where
  "with_event_bus bus B = B\<lparr>ab_bus := Some bus\<rparr>"

definition with_memory :: "'w memory_store_ops \<Rightarrow> 'w ai_builder \<Rightarrow> 'w ai_builder" where
  "with_memory m B = B\<lparr>ab_memory := Some m\<rparr>"

definition with_observability :: "(observation \<Rightarrow> ('w, unit) py) \<Rightarrow> 'w ai_builder \<Rightarrow> 'w ai_builder" where
  "with_observability sink B = B\<lparr>ab_sink := Some sink\<rparr>"

definition with_plugin_registry :: "nat \<Rightarrow> 'w ai_builder \<Rightarrow> 'w ai_builder" where
  "with_plugin_registry r B = B\<lparr>ab_registry := Some r\<rparr>"

definition with_plugin_discovery :: "string \<Rightarrow> plugin_loader option \<Rightarrow> 'w ai_builder \<Rightarrow> 'w ai_builder" where
  "with_plugin_discovery dir loader B = B\<lparr>ab_discovery_root := Some dir, ab_discovery_loader := loader\<rparr>"

definition build_context :: "'w ai_runtime \<Rightarrow> ai_context" where
  "build_context rt =
     (let probe = runtime_execution_context (rt_context rt) (rt_kernel rt) (rt_container rt) ''ai_engine'' in
      \<lparr>ic_log_level = kc_log_level (rc_configuration (rt_context rt)), ic_logger = get_logger ''ai_engine'',
       ic_runtime = xc_runtime probe, ic_services = rt_container rt\<rparr>)"

text \<open>The three engines over one dispatcher, with what was set.\<close>

definition built_authorizer :: "'w ai_builder \<Rightarrow> 'w authorizer option" where
  "built_authorizer B =
     (if ab_authorization_requested B \<and> ab_authorizer B = None
      then Some (authorizer_of \<lparr>ae_tools = dp_tools (rt_dispatcher (ab_runtime B)), ae_bus = ab_bus B, ae_audit = ab_audit B\<rparr>)
      else ab_authorizer B)"

definition built_execution :: "'w ai_builder \<Rightarrow> 'w exec_engine" where
  "built_execution B = \<lparr>xe_dispatcher = rt_dispatcher (ab_runtime B), xe_authorizer = built_authorizer B,
     xe_bus = ab_bus B, xe_memory = ab_memory B, xe_sink = ab_sink B, xe_str = rt_str (ab_runtime B)\<rparr>"

definition built_workflows :: "'w ai_builder \<Rightarrow> 'w workflow_engine" where
  "built_workflows B = \<lparr>we_execute = execute (built_execution B), we_memory = ab_memory B, we_bus = ab_bus B,
     we_max_concurrency = None, we_clock = system_clock (dp_env (rt_dispatcher (ab_runtime B))),
     we_env = dp_env (rt_dispatcher (ab_runtime B)), we_schedule = rt_schedule (ab_runtime B)\<rparr>"

definition built_agents :: "'w ai_builder \<Rightarrow> 'w agent_engine" where
  "built_agents B = \<lparr>an_run = workflow_run (built_workflows B), an_memory = ab_memory B, an_bus = ab_bus B,
     an_env = dp_env (rt_dispatcher (ab_runtime B))\<rparr>"

text \<open>Discovery into a registry, any \<open>Exception\<close> of it wrapped.\<close>

definition build_discovery :: "'w ai_builder \<Rightarrow> nat \<Rightarrow> ('w ai_state, unit) py" where
  "build_discovery B r =
     (case ab_discovery_root B of
        None \<Rightarrow> ret ()
      | Some dir \<Rightarrow> (\<lambda>s.
          let rt = ab_runtime B;
              loader = (case ab_discovery_loader B of Some L \<Rightarrow> L | None \<Rightarrow> new_plugin_loader None);
              D = new_plugin_discovery (rt_json rt) (rt_files rt) (rt_imports rt) (Some loader) None
          in case discover_and_register D dir (registry_of r s, is_world s) of (x, reg, w) \<Rightarrow>
            (case x of
               Inl e \<Rightarrow> Inl (if exn_is_exception e
                 then Exn AIEngineError (''Plugin discovery from '' @ repr_str dir @ '' failed: '' @ exn_text e) else e)
             | Inr _ \<Rightarrow> Inr (),
             s\<lparr>is_registries := AList.update r reg (is_registries s), is_world := w\<rparr>)))"

definition ai_build :: "'w ai_builder \<Rightarrow> ('w ai_state, 'w ai_engine) py" where
  "ai_build B = (\<lambda>s.
     case (case ab_registry B of Some r \<Rightarrow> (r, s) | None \<Rightarrow> new_plugin_registry s) of (r, s1) \<Rightarrow>
       andthen (build_discovery B r)
         (new_ai_engine r (\<lambda>e. \<lparr>ai_id = e, ai_runtime = ab_runtime B, ai_context = build_context (ab_runtime B),
            ai_execution = built_execution B, ai_workflows = built_workflows B, ai_agents = built_agents B,
            ai_registry = r\<rparr>)) s1)"

section \<open>The facade\<close>

definition ai_execute ::
  "'w ai_engine \<Rightarrow> exec_request \<Rightarrow> exec_context \<Rightarrow> string frozenset \<Rightarrow> ('w, exec_result) py" where
  "ai_execute E = execute (ai_execution E)"

definition ai_run_workflow :: "'w ai_engine \<Rightarrow> workflow \<Rightarrow> workflow_context \<Rightarrow> ('w, workflow_result) py" where
  "ai_run_workflow E run c = workflow_run (ai_workflows E) run c None"

definition ai_run_agent :: "'w ai_engine \<Rightarrow> agent \<Rightarrow> agent_context \<Rightarrow> ('w, agent_result) py" where
  "ai_run_agent E = agent_execute (ai_agents E)"

definition ai_execution_context :: "'w ai_engine \<Rightarrow> string \<Rightarrow> exec_context" where
  "ai_execution_context E n = to_execution_context (ai_context E) (Some (get_logger n))"

definition ai_workflow_context :: "'w ai_engine \<Rightarrow> string \<Rightarrow> workflow_context" where
  "ai_workflow_context E n = to_workflow_context (ai_context E) (Some (get_logger n))"

definition ai_agent_context :: "'w ai_engine \<Rightarrow> string \<Rightarrow> agent_context" where
  "ai_agent_context E n = to_agent_context (ai_context E) (Some (get_logger n))"

definition ai_plugin_context :: "'w ai_engine \<Rightarrow> string \<Rightarrow> plugin_context" where
  "ai_plugin_context E n = to_plugin_context (ai_context E) (Some (get_logger n))"

section \<open>The plugin fleet\<close>

definition fleet_of :: "'w ai_engine \<Rightarrow> 'w ai_state \<Rightarrow> (string, 'w lifecycle) dict" where
  "fleet_of E s = (case map_of (is_fleets s) (ai_id E) of Some f \<Rightarrow> f | None \<Rightarrow> [])"

definition put_lifecycle :: "'w ai_engine \<Rightarrow> string \<Rightarrow> 'w lifecycle \<Rightarrow> 'w ai_state \<Rightarrow> 'w ai_state" where
  "put_lifecycle E i l s = s\<lparr>is_fleets := AList.update (ai_id E) (AList.update i l (fleet_of E s)) (is_fleets s)\<rparr>"

definition lifecycle_for :: "'w ai_engine \<Rightarrow> string \<Rightarrow> ('w ai_state, 'w lifecycle) py" where
  "lifecycle_for E i = (\<lambda>s.
     case map_of (fleet_of E s) i of
       Some l \<Rightarrow> (Inr l, s)
     | None \<Rightarrow>
         (case plugin_lookup i (registry_of (ai_registry E) s) of
            Inl e \<Rightarrow> (Inl e, s)
          | Inr p \<Rightarrow> (Inr (new_lifecycle p), put_lifecycle E i (new_lifecycle p) s)))"

text \<open>A call on the lifecycle of a plugin: the object is shared with the fleet, so what it becomes is kept.\<close>

definition fleet_call :: "'w ai_engine \<Rightarrow> ('w lifecycle \<times> 'w, unit) py \<Rightarrow> string \<Rightarrow> ('w ai_state, unit) py" where
  "fleet_call E m i = bnd (lifecycle_for E i) (\<lambda>l s.
     case m (l, is_world s) of (r, l', w') \<Rightarrow> (r, put_lifecycle E i l' (s\<lparr>is_world := w'\<rparr>)))"

fun for_each :: "(string \<Rightarrow> ('s, unit) py) \<Rightarrow> string list \<Rightarrow> ('s, unit) py" where
  "for_each f [] = ret ()"
| "for_each f (i # is) = andthen (f i) (for_each f is)"

definition start_one :: "plugin_context \<Rightarrow> ('w lifecycle \<times> 'w, unit) py" where
  "start_one c = (\<lambda>(l, w).
     if lc_state l = REGISTERED then andthen (lifecycle_initialize c) lifecycle_start (l, w)
     else lifecycle_start (l, w))"

definition fleet_ids :: "'w ai_engine \<Rightarrow> 'w ai_state \<Rightarrow> string list" where
  "fleet_ids E s = map pd_id (plugin_enumerate (registry_of (ai_registry E) s))"

definition start_plugins :: "'w ai_engine \<Rightarrow> ('w ai_state, unit) py" where
  "start_plugins E = (\<lambda>s. for_each (fleet_call E (start_one (ai_plugin_context E ''plugins''))) (fleet_ids E s) s)"

definition stop_plugins :: "'w ai_engine \<Rightarrow> ('w ai_state, unit) py" where
  "stop_plugins E = (\<lambda>s. for_each (fleet_call E lifecycle_stop) (fleet_ids E s) s)"

definition dispose_plugins :: "'w ai_engine \<Rightarrow> ('w ai_state, unit) py" where
  "dispose_plugins E = (\<lambda>s. for_each (fleet_call E lifecycle_dispose) (fleet_ids E s) s)"

section \<open>Exclusive registries\<close>

text \<open>
  What can happen around the engines: a registry is created, an engine is built or refused, an
  engine drives its fleet, registrations and the world change in any way, an engine is collected.
\<close>

inductive ai_step :: "'w ai_state \<times> 'w ai_engine list \<Rightarrow> 'w ai_state \<times> 'w ai_engine list \<Rightarrow> bool" where
  step_registry: "ai_step (s, es) (snd (new_plugin_registry s), es)"
| step_built: "\<lbrakk> \<forall>r. ab_registry B = Some r \<longrightarrow> has_key r (is_registries s); ai_build B s = (Inr E, s') \<rbrakk>
    \<Longrightarrow> ai_step (s, es) (s', E # es)"
| step_refused: "\<lbrakk> \<forall>r. ab_registry B = Some r \<longrightarrow> has_key r (is_registries s); ai_build B s = (Inl e, s') \<rbrakk>
    \<Longrightarrow> ai_step (s, es) (s', es)"
| step_fleet: "\<lbrakk> E \<in> set es; op \<in> {start_plugins, stop_plugins, dispose_plugins}; op E s = (r, s') \<rbrakk>
    \<Longrightarrow> ai_step (s, es) (s', es)"
| step_other: "keys rs = keys (is_registries s) \<Longrightarrow> ai_step (s, es) (s\<lparr>is_registries := rs, is_world := w\<rparr>, es)"
| step_collect: "ai_step (s, es) (collect_engine e s, filter (\<lambda>E. ai_id E \<noteq> e) es)"

inductive ai_reachable :: "'w ai_state \<times> 'w ai_engine list \<Rightarrow> bool" where
  ai_init: "ai_reachable (\<lparr>is_registries = [], is_owners = [], is_live = [], is_fleets = [], is_next = 0, is_world = w\<rparr>, [])"
| ai_next: "ai_reachable x \<Longrightarrow> ai_step x y \<Longrightarrow> ai_reachable y"

text \<open>Every engine is alive and the owner of its registry; identities are never used twice.\<close>

definition ai_inv :: "'w ai_state \<times> 'w ai_engine list \<Rightarrow> bool" where
  "ai_inv = (\<lambda>(s, es).
     (\<forall>E \<in> set es. ai_id E \<in> set (is_live s) \<and> map_of (is_owners s) (ai_registry E) = Some (ai_id E))
     \<and> distinct (map ai_id es) \<and> set (is_live s) \<subseteq> {..< is_next s}
     \<and> fst ` set (is_registries s) \<subseteq> {..< is_next s} \<and> fst ` set (is_owners s) \<subseteq> {..< is_next s})"

text \<open>Only building and collecting touch owners, live engines and the counter.\<close>

definition same_ownership :: "'w ai_state \<Rightarrow> 'w ai_state \<Rightarrow> bool" where
  "same_ownership s t \<longleftrightarrow> is_owners t = is_owners s \<and> is_live t = is_live s \<and> is_next t = is_next s
     \<and> fst ` set (is_registries t) = fst ` set (is_registries s)"

lemma same_ownership_inv: "same_ownership s t \<Longrightarrow> ai_inv (s, es) \<Longrightarrow> ai_inv (t, es)"
  by (simp add: same_ownership_def ai_inv_def)

lemma same_ownership_refl [simp]: "same_ownership s s"
  by (simp add: same_ownership_def)

lemma same_ownership_trans: "same_ownership s t \<Longrightarrow> same_ownership t u \<Longrightarrow> same_ownership s u"
  by (simp add: same_ownership_def)

lemma put_lifecycle_same [simp]: "same_ownership s (put_lifecycle E i l s)"
  by (simp add: same_ownership_def put_lifecycle_def)

lemma put_lifecycle_world_same [simp]: "same_ownership s (put_lifecycle E i l (s\<lparr>is_world := w\<rparr>))"
  by (simp add: same_ownership_def put_lifecycle_def)

lemma fleet_call_same: "fleet_call E m i s = (r, t) \<Longrightarrow> same_ownership s t"
  by (auto simp: fleet_call_def lifecycle_for_def bnd_def split: option.splits sum.splits prod.splits
      intro: same_ownership_trans[OF put_lifecycle_same put_lifecycle_world_same])

lemma for_each_same: "for_each (fleet_call E m) is s = (r, t) \<Longrightarrow> same_ownership s t"
proof (induction "is" arbitrary: s)
  case (Cons i "is")
  obtain x u where u: "fleet_call E m i s = (x, u)" by (cases "fleet_call E m i s")
  with Cons fleet_call_same[OF u] show ?case
    by (cases x) (auto simp: andthen_def bnd_def intro: same_ownership_trans)
qed simp

lemma fleet_ops_same: "op \<in> {start_plugins, stop_plugins, dispose_plugins} \<Longrightarrow> op E s = (r, t) \<Longrightarrow> same_ownership s t"
  by (auto simp: start_plugins_def stop_plugins_def dispose_plugins_def dest: for_each_same)

lemma update_keys: "fst ` set (AList.update k v d) = insert k (fst ` set d)"
  by (induction d) auto

lemma build_discovery_same:
  assumes "build_discovery B r s = (x, t)" and "has_key r (is_registries s)"
  shows "same_ownership s t"
proof -
  from assms(1) have "t = s \<or> (\<exists>reg w. t = s\<lparr>is_registries := AList.update r reg (is_registries s), is_world := w\<rparr>)"
    by (auto simp: build_discovery_def Let_def split: option.splits prod.splits)
  moreover have "insert r (fst ` set (is_registries s)) = fst ` set (is_registries s)"
    using assms(2) by (intro insert_absorb) (simp add: has_key_iff)
  ultimately show ?thesis by (elim disjE exE) (simp_all add: same_ownership_def update_keys)
qed

lemma new_registry_inv: "ai_inv (s, es) \<Longrightarrow> ai_inv (snd (new_plugin_registry s), es)"
  by (auto simp: ai_inv_def new_plugin_registry_def update_keys)

lemma new_engine_inv:
  assumes "new_ai_engine r make_engine s = (Inr E, t)" and "ai_inv (s, es)" and "r < is_next s"
    and "\<And>e. ai_id (make_engine e) = e \<and> ai_registry (make_engine e) = r"
  shows "ai_inv (t, E # es)"
proof -
  from assms(1) have free: "\<not> registry_owned r s" and E: "E = make_engine (is_next s)"
    and t: "is_owners t = AList.update r (is_next s) (is_owners s)" "is_live t = is_next s # is_live s"
      "is_next t = Suc (is_next s)" "is_registries t = is_registries s"
    by (auto simp: new_ai_engine_def Let_def split: if_splits)
  have "ai_registry F \<noteq> r" if "F \<in> set es" for F
    using assms(2) that free by (auto simp: ai_inv_def registry_owned_def)
  moreover have "is_next s \<notin> ai_id ` set es" using assms(2) by (auto simp: ai_inv_def)
  ultimately show ?thesis
    using assms(2-4) by (auto simp: ai_inv_def E t update_keys update_conv')
qed

lemma build_cases:
  assumes "ai_build B s = (x, t)" and "ai_inv (s, es)" and "\<forall>r. ab_registry B = Some r \<longrightarrow> has_key r (is_registries s)"
  shows "case x of Inr E \<Rightarrow> ai_inv (t, E # es) | Inl e \<Rightarrow> ai_inv (t, es)"
proof -
  obtain r s1 where r: "(case ab_registry B of Some r \<Rightarrow> (r, s) | None \<Rightarrow> new_plugin_registry s) = (r, s1)"
    by (cases "case ab_registry B of Some r \<Rightarrow> (r, s) | None \<Rightarrow> new_plugin_registry s")
  have inv: "ai_inv (s1, es)" and reg: "has_key r (is_registries s1)"
    using r assms(2,3) new_registry_inv[OF assms(2)]
    by (auto simp: new_plugin_registry_def has_key_iff update_keys split: option.splits)
  obtain y s2 where y: "build_discovery B r s1 = (y, s2)" by (cases "build_discovery B r s1")
  note same = build_discovery_same[OF y reg]
  have inv2: "ai_inv (s2, es)" using same_ownership_inv[OF same inv] .
  have "r < is_next s1" using reg inv by (auto simp: ai_inv_def has_key_iff)
  then have bound: "r < is_next s2" using same by (simp add: same_ownership_def)
  show ?thesis
  proof (cases y)
    case (Inl e)
    with assms(1) r y have "x = Inl e" "t = s2" by (auto simp: ai_build_def andthen_def bnd_def)
    with inv2 show ?thesis by simp
  next
    case (Inr u)
    let ?mk = "\<lambda>e. \<lparr>ai_id = e, ai_runtime = ab_runtime B, ai_context = build_context (ab_runtime B),
            ai_execution = built_execution B, ai_workflows = built_workflows B, ai_agents = built_agents B,
            ai_registry = r\<rparr>"
    have run: "new_ai_engine r ?mk s2 = (x, t)" using assms(1) r y Inr by (simp add: ai_build_def andthen_def bnd_def)
    show ?thesis
    proof (cases x)
      case (Inl e)
      with run have "t = s2" by (auto simp: new_ai_engine_def Let_def split: if_splits)
      with inv2 Inl show ?thesis by simp
    next
      case (Inr E)
      from new_engine_inv[OF run[unfolded Inr] inv2 bound] Inr show ?thesis by simp
    qed
  qed
qed

lemma ai_step_inv: "ai_step x y \<Longrightarrow> ai_inv x \<Longrightarrow> ai_inv y"
proof (induction rule: ai_step.induct)
  case (step_registry s es)
  then show ?case by (rule new_registry_inv)
next
  case (step_built B s E s' es)
  from build_cases[OF step_built.hyps(2) step_built.prems step_built.hyps(1)] show ?case by simp
next
  case (step_refused B s e s' es)
  from build_cases[OF step_refused.hyps(2) step_refused.prems step_refused.hyps(1)] show ?case by simp
next
  case (step_fleet E es op s r s')
  from same_ownership_inv[OF fleet_ops_same[OF step_fleet.hyps(2,3)] step_fleet.prems] show ?case .
next
  case (step_other rs s es w)
  then have "fst ` set rs = fst ` set (is_registries s)" by (metis list.set_map)
  with step_other.prems show ?case by (simp add: ai_inv_def)
next
  case (step_collect s es e)
  then show ?case by (auto simp: ai_inv_def collect_engine_def distinct_map inj_on_def)
qed

lemma ai_reachable_inv: "ai_reachable x \<Longrightarrow> ai_inv x"
proof (induction rule: ai_reachable.induct)
  case (ai_init w)
  then show ?case by (simp add: ai_inv_def)
next
  case (ai_next x y)
  then show ?case by (blast intro: ai_step_inv)
qed

text \<open>C36 A plugin registry never serves two engines: whatever registries are created, engines built,
  driven and collected, two living engines with the same registry are the same engine, and
  building another one on a registry that has a living engine raises \<open>AIEngineError\<close> (or the
  non-\<open>Exception\<close> a discovered plugin raised) and leaves every owner as it is.\<close>

theorem registries_are_exclusive:
  assumes "ai_reachable (s, es)" and "E \<in> set es" and "F \<in> set es"
  shows "(ai_registry E = ai_registry F \<longrightarrow> E = F)
    \<and> (has_key (ai_registry E) (is_registries s) \<and> ab_registry B = Some (ai_registry E) \<longrightarrow>
        (\<exists>e s'. ai_build B s = (Inl e, s') \<and> (exn_isa AIEngineError e \<or> \<not> exn_is_exception e)
           \<and> is_owners s' = is_owners s \<and> is_live s' = is_live s))"
proof (intro conjI impI)
  have inv: "ai_inv (s, es)" by (rule ai_reachable_inv[OF assms(1)])
  show "E = F" if "ai_registry E = ai_registry F"
  proof -
    have owner: "map_of (is_owners s) (ai_registry G) = Some (ai_id G)" if "G \<in> set es" for G
      using inv that by (simp add: ai_inv_def)
    have "ai_id E = ai_id F" using owner[OF assms(2)] owner[OF assms(3)] that by simp
    moreover have "inj_on ai_id (set es)" using inv by (simp add: ai_inv_def distinct_map)
    ultimately show ?thesis using assms(2,3) by (auto dest: inj_onD)
  qed
  assume B: "has_key (ai_registry E) (is_registries s) \<and> ab_registry B = Some (ai_registry E)"
  have owned: "registry_owned (ai_registry E) s" using inv assms(2) by (auto simp: ai_inv_def registry_owned_def)
  obtain y t where y: "build_discovery B (ai_registry E) s = (y, t)" by (cases "build_discovery B (ai_registry E) s")
  have same: "same_ownership s t" using build_discovery_same[OF y] B by simp
  then have "is_owners t = is_owners s" "is_live t = is_live s" by (simp_all add: same_ownership_def)
  then have owned': "registry_owned (ai_registry E) t" using owned by (simp only: registry_owned_def)
  have "\<exists>e. ai_build B s = (Inl e, t) \<and> (exn_isa AIEngineError e \<or> \<not> exn_is_exception e)"
  proof (cases y)
    case (Inl e)
    then have "exn_isa AIEngineError e \<or> \<not> exn_is_exception e"
      using y by (auto simp: build_discovery_def Let_def split: option.splits prod.splits sum.splits if_splits)
    with Inl y B show ?thesis by (simp add: ai_build_def andthen_def bnd_def)
  next
    case (Inr u)
    with y B owned' show ?thesis by (simp add: ai_build_def andthen_def bnd_def new_ai_engine_def)
  qed
  with same show "\<exists>e s'. ai_build B s = (Inl e, s') \<and> (exn_isa AIEngineError e \<or> \<not> exn_is_exception e)
      \<and> is_owners s' = is_owners s \<and> is_live s' = is_live s" by (auto simp: same_ownership_def)
qed

theorem registries_are_exclusive_witness:
  "\<forall>rt :: unit ai_runtime. \<exists>s E e s'. ai_reachable (s, [E]) \<and> ai_registry E = 0
     \<and> ai_build (with_plugin_registry 0 (new_ai_builder rt)) s = (Inl e, s') \<and> exn_is_exception e"
proof
  fix rt :: "unit ai_runtime"
  let ?s0 = "\<lparr>is_registries = [], is_owners = [], is_live = [], is_fleets = [], is_next = 0, is_world = ()\<rparr>"
  let ?s1 = "snd (new_plugin_registry ?s0)"
  let ?B = "with_plugin_registry 0 (new_ai_builder rt)"
  have s1: "ai_reachable (?s1, [])" by (rule ai_next[OF ai_init step_registry])
  obtain E s2 where built: "ai_build ?B ?s1 = (Inr E, s2)" and reg: "ai_registry E = 0" "has_key 0 (is_registries s2)"
    by (simp add: ai_build_def with_plugin_registry_def new_ai_builder_def build_discovery_def new_plugin_registry_def
        new_ai_engine_def registry_owned_def andthen_def bnd_def Let_def has_key_def)
  have "\<forall>r. ab_registry ?B = Some r \<longrightarrow> has_key r (is_registries ?s1)"
    by (simp add: with_plugin_registry_def new_plugin_registry_def has_key_def)
  from ai_next[OF s1 step_built[OF this built]] have reach: "ai_reachable (s2, [E])" .
  have "ab_registry ?B = Some 0" by (simp add: with_plugin_registry_def)
  with registries_are_exclusive[OF reach, of E E ?B] reg obtain e s' where "ai_build ?B s2 = (Inl e, s')"
    "exn_isa AIEngineError e \<or> \<not> exn_is_exception e" by auto
  moreover have "exn_is_exception e"
    using calculation(1) by (auto simp: ai_build_def with_plugin_registry_def new_ai_builder_def build_discovery_def
        new_ai_engine_def andthen_def bnd_def Let_def split: if_splits)
  ultimately show "\<exists>s E e s'. ai_reachable (s, [E]) \<and> ai_registry E = 0 \<and> ai_build ?B s = (Inl e, s') \<and> exn_is_exception e"
    using reach reg(1) by blast
qed

section \<open>Driving the fleet\<close>

text \<open>Plugins whose hooks return, and the state an engine has for a plugin.\<close>

definition hooks_return :: "'w plugin \<Rightarrow> bool" where
  "hooks_return p \<longleftrightarrow> (\<forall>w c. \<exists>w'. pg_initialize p c w = (Inr (), w')) \<and> (\<forall>w. \<exists>w'. pg_start p w = (Inr (), w'))
     \<and> (\<forall>w. \<exists>w'. pg_stop p w = (Inr (), w')) \<and> (\<forall>w. \<exists>w'. pg_dispose p w = (Inr (), w'))"

definition fleet_state :: "'w ai_engine \<Rightarrow> 'w ai_state \<Rightarrow> string \<Rightarrow> lifecycle_state" where
  "fleet_state E s i = (case map_of (fleet_of E s) i of Some l \<Rightarrow> lc_state l | None \<Rightarrow> REGISTERED)"

definition fleet_behaved :: "'w ai_engine \<Rightarrow> 'w ai_state \<Rightarrow> bool" where
  "fleet_behaved E s \<longleftrightarrow> (\<forall>i p. map_of (registry_of (ai_registry E) s) i = Some p \<longrightarrow> hooks_return p)
     \<and> (\<forall>i l. map_of (fleet_of E s) i = Some l \<longrightarrow> hooks_return (lc_plugin l))"

text \<open>An operation that takes the states of a set to one state and refuses the others.\<close>

definition moves :: "('w lifecycle \<times> 'w, unit) py \<Rightarrow> lifecycle_state set \<Rightarrow> lifecycle_state \<Rightarrow> bool" where
  "moves m A b \<longleftrightarrow> (\<forall>l w. hooks_return (lc_plugin l) \<longrightarrow>
     (if lc_state l \<in> A then \<exists>w'. m (l, w) = (Inr (), l\<lparr>lc_state := b\<rparr>, w')
      else \<exists>e. m (l, w) = (Inl e, l, w) \<and> exn_isa PluginLifecycleError e))"

lemma lifecycle_run_returns:
  "hook (lc_plugin l) w = (Inr (), w') \<Longrightarrow> lifecycle_run hook st (l, w) = (Inr (), l\<lparr>lc_state := st\<rparr>, w')"
  by (simp add: lifecycle_run_def)

lemma lifecycle_require_ok: "lc_state l \<in> set A \<Longrightarrow> lifecycle_require A what (l, w) = (Inr (), l, w)"
  by (simp add: lifecycle_require_def)

lemma lifecycle_require_refused:
  "lc_state l \<notin> set A \<Longrightarrow> \<exists>e. lifecycle_require A what (l, w) = (Inl e, l, w) \<and> exn_isa PluginLifecycleError e"
  by (simp add: lifecycle_require_def)

lemma guarded_moves:
  fixes hook :: "'w plugin \<Rightarrow> ('w, unit) py"
  assumes "\<And>p w. hooks_return p \<Longrightarrow> \<exists>w'. hook p w = (Inr (), w')"
  shows "moves (andthen (lifecycle_require A what) (lifecycle_run hook b)) (set A) b"
  unfolding moves_def
proof (intro allI impI)
  fix l :: "'w lifecycle" and w
  assume ret: "hooks_return (lc_plugin l)"
  show "if lc_state l \<in> set A then \<exists>w'. andthen (lifecycle_require A what) (lifecycle_run hook b) (l, w)
        = (Inr (), l\<lparr>lc_state := b\<rparr>, w')
      else \<exists>e. andthen (lifecycle_require A what) (lifecycle_run hook b) (l, w) = (Inl e, l, w)
        \<and> exn_isa PluginLifecycleError e"
  proof (cases "lc_state l \<in> set A")
    case True
    obtain w' where "hook (lc_plugin l) w = (Inr (), w')" using assms[OF ret] by blast
    with True show ?thesis by (simp add: andthen_def bnd_def lifecycle_require_ok lifecycle_run_returns)
  next
    case False
    obtain e where "lifecycle_require A what (l, w) = (Inl e, l, w)" "exn_isa PluginLifecycleError e"
      using lifecycle_require_refused[OF False] by blast
    with False show ?thesis by (simp add: andthen_Inl)
  qed
qed

lemma start_moves: "moves lifecycle_start {INITIALIZED, lifecycle_state.STOPPED} lifecycle_state.RUNNING"
proof -
  have "moves lifecycle_start (set [INITIALIZED, lifecycle_state.STOPPED]) lifecycle_state.RUNNING"
    unfolding lifecycle_start_def by (rule guarded_moves) (simp add: hooks_return_def)
  then show ?thesis by simp
qed

lemma initialize_moves: "moves (lifecycle_initialize c) {REGISTERED} INITIALIZED"
proof -
  have "moves (lifecycle_initialize c) (set [REGISTERED]) INITIALIZED"
    unfolding lifecycle_initialize_def by (rule guarded_moves) (simp add: hooks_return_def)
  then show ?thesis by simp
qed

lemma stop_moves: "moves lifecycle_stop {lifecycle_state.RUNNING} lifecycle_state.STOPPED"
proof -
  have "moves lifecycle_stop (set [lifecycle_state.RUNNING]) lifecycle_state.STOPPED"
    unfolding lifecycle_stop_def by (rule guarded_moves) (simp add: hooks_return_def)
  then show ?thesis by simp
qed

lemma dispose_moves: "moves lifecycle_dispose (UNIV - {lifecycle_state.RUNNING}) DISPOSED"
proof -
  let ?A = "[REGISTERED, INITIALIZED, lifecycle_state.STOPPED, lifecycle_state.FAILED]"
  have guarded: "moves (andthen (lifecycle_require ?A ''dispose'') (lifecycle_run pg_dispose DISPOSED)) (set ?A) DISPOSED"
    by (rule guarded_moves) (simp add: hooks_return_def)
  have A: "x \<in> set ?A \<longleftrightarrow> x \<in> UNIV - {lifecycle_state.RUNNING}" if "x \<noteq> DISPOSED" for x using that by (cases x) auto
  show ?thesis unfolding moves_def
  proof (intro allI impI)
    fix l :: "'a lifecycle" and w
    assume ret: "hooks_return (lc_plugin l)"
    show "if lc_state l \<in> UNIV - {lifecycle_state.RUNNING} then \<exists>w'. lifecycle_dispose (l, w) = (Inr (), l\<lparr>lc_state := DISPOSED\<rparr>, w')
      else \<exists>e. lifecycle_dispose (l, w) = (Inl e, l, w) \<and> exn_isa PluginLifecycleError e"
    proof (cases "lc_state l = DISPOSED")
      case True
      then have "l\<lparr>lc_state := DISPOSED\<rparr> = l" by (cases l) simp
      with True show ?thesis by (simp add: lifecycle_dispose_def)
    next
      case False
      with guarded[unfolded moves_def, rule_format, OF ret, of w] A[OF False] show ?thesis
        by (simp add: lifecycle_dispose_def)
    qed
  qed
qed

lemma start_one_moves:
  "moves (start_one c) {REGISTERED, INITIALIZED, lifecycle_state.STOPPED} lifecycle_state.RUNNING"
  unfolding moves_def
proof (intro allI impI)
  fix l :: "'a lifecycle" and w
  assume ret: "hooks_return (lc_plugin l)"
  note start = start_moves[unfolded moves_def, rule_format]
  show "if lc_state l \<in> {REGISTERED, INITIALIZED, lifecycle_state.STOPPED}
      then \<exists>w'. start_one c (l, w) = (Inr (), l\<lparr>lc_state := lifecycle_state.RUNNING\<rparr>, w')
      else \<exists>e. start_one c (l, w) = (Inl e, l, w) \<and> exn_isa PluginLifecycleError e"
  proof (cases "lc_state l = REGISTERED")
    case True
    with initialize_moves[unfolded moves_def, rule_format, OF ret, of c w] obtain w1 where
      w1: "lifecycle_initialize c (l, w) = (Inr (), l\<lparr>lc_state := INITIALIZED\<rparr>, w1)" by auto
    from start[of "l\<lparr>lc_state := INITIALIZED\<rparr>" w1] ret obtain w2 where
      "lifecycle_start (l\<lparr>lc_state := INITIALIZED\<rparr>, w1) = (Inr (), l\<lparr>lc_state := lifecycle_state.RUNNING\<rparr>, w2)" by auto
    with w1 True show ?thesis by (simp add: start_one_def andthen_Inr)
  next
    case False
    with start[OF ret, of w] show ?thesis by (simp add: start_one_def)
  qed
qed

lemma fleet_of_put [simp]: "fleet_of E (put_lifecycle E i l s) = AList.update i l (fleet_of E s)"
  by (simp add: fleet_of_def put_lifecycle_def map_of_update)

lemma put_lifecycle_registries [simp]:
  "is_registries (put_lifecycle E i l s) = is_registries s" "is_world (put_lifecycle E i l s) = is_world s"
  by (simp_all add: put_lifecycle_def)

lemma fleet_of_world [simp]: "fleet_of E (s\<lparr>is_world := w\<rparr>) = fleet_of E s"
  by (simp add: fleet_of_def)

lemma registry_of_cong: "is_registries t = is_registries s \<Longrightarrow> registry_of r t = registry_of r s"
  by (simp add: registry_of_def)

text \<open>What a call leaves: registries, good behaviour, and the one state it set.\<close>

definition fleet_after :: "'w ai_engine \<Rightarrow> 'w ai_state \<Rightarrow> (string \<Rightarrow> lifecycle_state) \<Rightarrow> 'w ai_state \<Rightarrow> bool" where
  "fleet_after E s f t \<longleftrightarrow> is_registries t = is_registries s \<and> fleet_behaved E t \<and> fleet_state E t = f"

lemma fleet_after_put:
  assumes "fleet_behaved E s" and "hooks_return (lc_plugin l)"
    and "is_registries t = is_registries s" and "fleet_of E t = AList.update i l (fleet_of E s)"
  shows "fleet_after E s ((fleet_state E s)(i := lc_state l)) t"
proof -
  have "fleet_state E t = (fleet_state E s)(i := lc_state l)"
    by (rule ext) (simp add: fleet_state_def assms(4) map_of_update)
  moreover have "registry_of (ai_registry E) t = registry_of (ai_registry E) s" by (rule registry_of_cong[OF assms(3)])
  ultimately show ?thesis using assms by (auto simp: fleet_after_def fleet_behaved_def map_of_update split: if_splits)
qed

lemma lifecycle_for_returns:
  assumes "fleet_behaved E s" and "map_of (registry_of (ai_registry E) s) i = Some p"
  shows "\<exists>l t. lifecycle_for E i s = (Inr l, t) \<and> lc_state l = fleet_state E s i \<and> hooks_return (lc_plugin l)
    \<and> fleet_after E s (fleet_state E s) t"
proof (cases "map_of (fleet_of E s) i")
  case (Some l)
  with assms(1) show ?thesis
    by (intro exI[of _ l] exI[of _ s]) (auto simp: lifecycle_for_def fleet_state_def fleet_behaved_def fleet_after_def)
next
  case None
  let ?l = "new_lifecycle p"
  have ret: "hooks_return (lc_plugin ?l)" using assms by (auto simp: fleet_behaved_def new_lifecycle_def)
  have "(fleet_state E s)(i := lc_state ?l) = fleet_state E s"
    using None by (intro ext) (simp add: fleet_state_def new_lifecycle_def)
  with fleet_after_put[OF assms(1) ret, of "put_lifecycle E i ?l s" i]
  have "fleet_after E s (fleet_state E s) (put_lifecycle E i ?l s)" by simp
  with None assms(2) ret show ?thesis
    by (intro exI[of _ ?l] exI[of _ "put_lifecycle E i ?l s"])
      (simp add: lifecycle_for_def plugin_lookup_def fleet_state_def new_lifecycle_def)
qed

lemma fleet_call_moves:
  assumes "moves m A b" and "fleet_behaved E s" and "map_of (registry_of (ai_registry E) s) i = Some p"
  shows "if fleet_state E s i \<in> A
    then \<exists>t. fleet_call E m i s = (Inr (), t) \<and> fleet_after E s ((fleet_state E s)(i := b)) t
    else \<exists>e t. fleet_call E m i s = (Inl e, t) \<and> exn_isa PluginLifecycleError e \<and> fleet_after E s (fleet_state E s) t"
proof -
  obtain l s1 where l: "lifecycle_for E i s = (Inr l, s1)" "lc_state l = fleet_state E s i" "hooks_return (lc_plugin l)"
      and s1: "fleet_after E s (fleet_state E s) s1" using lifecycle_for_returns[OF assms(2,3)] by blast
  have behaved: "fleet_behaved E s1" and regs: "is_registries s1 = is_registries s"
    and states: "fleet_state E s1 = fleet_state E s" using s1 by (simp_all add: fleet_after_def)
  obtain r l' w' where m: "m (l, is_world s1) = (r, l', w')" by (rule prod_cases3)
  let ?t = "put_lifecycle E i l' (s1\<lparr>is_world := w'\<rparr>)"
  have run: "fleet_call E m i s = (r, ?t)" using l(1) m by (simp add: fleet_call_def bnd_def)
  have after: "fleet_after E s ((fleet_state E s)(i := lc_state l')) ?t" if "lc_plugin l' = lc_plugin l"
    using fleet_after_put[OF behaved, of l' ?t i] l(3) that regs states by (simp add: fleet_after_def)
  note mv = assms(1)[unfolded moves_def, rule_format, OF l(3), of "is_world s1", unfolded m]
  show ?thesis
  proof (cases "fleet_state E s i \<in> A")
    case True
    with mv l(2) have "r = Inr ()" "l' = l\<lparr>lc_state := b\<rparr>" by auto
    with True run after show ?thesis by auto
  next
    case False
    with mv l(2) obtain e where "r = Inl e" "l' = l" "exn_isa PluginLifecycleError e" by auto
    moreover have "(fleet_state E s)(i := lc_state l) = fleet_state E s" using l(2) by auto
    ultimately show ?thesis using False run after by auto
  qed
qed

lemma for_each_moves:
  assumes "moves m A b" and "fleet_behaved E s" and "distinct ids"
    and "set ids \<subseteq> set (keys (registry_of (ai_registry E) s))"
  shows "\<exists>moved rest x t. for_each (fleet_call E m) ids s = (x, t) \<and> ids = moved @ rest
    \<and> (\<forall>i \<in> set moved. fleet_state E s i \<in> A)
    \<and> fleet_after E s (\<lambda>i. if i \<in> set moved then b else fleet_state E s i) t
    \<and> (case rest of [] \<Rightarrow> x = Inr () | j # _ \<Rightarrow> fleet_state E s j \<notin> A \<and> (\<exists>e. x = Inl e \<and> exn_isa PluginLifecycleError e))"
  using assms(2-4)
proof (induction ids arbitrary: s)
  case Nil
  then show ?case by (intro exI[of _ "[]"]) (simp add: fleet_after_def)
next
  case (Cons i ids)
  from Cons.prems(3) obtain p where p: "map_of (registry_of (ai_registry E) s) i = Some p"
    by (cases "map_of (registry_of (ai_registry E) s) i") (auto simp: map_of_eq_None_iff)
  note call = fleet_call_moves[OF assms(1) Cons.prems(1) p]
  show ?case
  proof (cases "fleet_state E s i \<in> A")
    case False
    with call obtain e t where "fleet_call E m i s = (Inl e, t)" "exn_isa PluginLifecycleError e"
      "fleet_after E s (fleet_state E s) t" by auto
    with False show ?thesis
      by (intro exI[of _ "[]"] exI[of _ "i # ids"]) (simp add: andthen_Inl)
  next
    case True
    with call obtain s1 where s1: "fleet_call E m i s = (Inr (), s1)"
      "fleet_after E s ((fleet_state E s)(i := b)) s1" by auto
    then have b1: "fleet_behaved E s1" and regs: "is_registries s1 = is_registries s"
      and states: "fleet_state E s1 = (fleet_state E s)(i := b)" by (simp_all add: fleet_after_def)
    have sub: "set ids \<subseteq> set (keys (registry_of (ai_registry E) s1))"
      using Cons.prems(3) registry_of_cong[OF regs, of "ai_registry E"] by simp
    from Cons.IH[OF b1 _ sub] Cons.prems(2) obtain moved rest x t where
      t: "for_each (fleet_call E m) ids s1 = (x, t)" "ids = moved @ rest" "\<forall>j \<in> set moved. fleet_state E s1 j \<in> A"
        "fleet_after E s1 (\<lambda>j. if j \<in> set moved then b else fleet_state E s1 j) t"
        "case rest of [] \<Rightarrow> x = Inr () | j # _ \<Rightarrow> fleet_state E s1 j \<notin> A \<and> (\<exists>e. x = Inl e \<and> exn_isa PluginLifecycleError e)"
      by auto
    have other: "fleet_state E s1 j = fleet_state E s j" if "j \<in> set ids" for j
      using that Cons.prems(2) by (auto simp: states)
    have "(\<lambda>j. if j \<in> set moved then b else fleet_state E s1 j) = (\<lambda>j. if j \<in> set (i # moved) then b else fleet_state E s j)"
      by (rule ext) (simp add: states)
    then have "fleet_after E s (\<lambda>j. if j \<in> set (i # moved) then b else fleet_state E s j) t"
      using t(4) regs by (simp add: fleet_after_def)
    moreover have "for_each (fleet_call E m) (i # ids) s = (x, t)" using s1(1) t(1) by (simp add: andthen_Inr)
    moreover have "\<forall>j \<in> set (i # moved). fleet_state E s j \<in> A" using True t(2,3) other by auto
    moreover have "case rest of [] \<Rightarrow> x = Inr () | j # _ \<Rightarrow> fleet_state E s j \<notin> A \<and> (\<exists>e. x = Inl e \<and> exn_isa PluginLifecycleError e)"
      using t(2,5) other by (cases rest) auto
    ultimately show ?thesis using t(2)
      by (intro exI[of _ "i # moved"] exI[of _ rest] exI[of _ x] exI[of _ t]) simp
  qed
qed


text \<open>C37 Over plugins whose hooks return, starting, stopping and disposing the fleet moves the plugins of a
  prefix of the registry to the new state, all of them exactly when the call returns; otherwise
  it raises \<open>PluginLifecycleError\<close> at the first plugin whose state does not allow the move, and that
  plugin and all after it keep their state.\<close>

theorem fleet_moves:
  assumes "fleet_behaved E s" and "plugin_registry_ok (registry_of (ai_registry E) s)"
    and "dict_ok (registry_of (ai_registry E) s)"
    and "(op, A, b) \<in> {(start_plugins, {REGISTERED, INITIALIZED, lifecycle_state.STOPPED}, lifecycle_state.RUNNING),
      (stop_plugins, {lifecycle_state.RUNNING}, lifecycle_state.STOPPED),
      (dispose_plugins, UNIV - {lifecycle_state.RUNNING}, DISPOSED)}"
  shows "\<exists>moved rest x t. op E s = (x, t) \<and> fleet_ids E s = moved @ rest \<and> (\<forall>i \<in> set moved. fleet_state E s i \<in> A)
    \<and> is_registries t = is_registries s \<and> fleet_state E t = (\<lambda>i. if i \<in> set moved then b else fleet_state E s i)
    \<and> (case rest of [] \<Rightarrow> x = Inr () | j # _ \<Rightarrow> fleet_state E s j \<notin> A \<and> (\<exists>e. x = Inl e \<and> exn_isa PluginLifecycleError e))"
proof -
  have "\<exists>m. moves m A b \<and> op E s = for_each (fleet_call E m) (fleet_ids E s) s"
    using assms(4)
  proof (elim insertE emptyE)
    assume "(op, A, b) = (start_plugins, {REGISTERED, INITIALIZED, lifecycle_state.STOPPED}, lifecycle_state.RUNNING)"
    then show ?thesis
      by (intro exI[of _ "start_one (ai_plugin_context E ''plugins'')"]) (simp add: start_plugins_def start_one_moves)
  next
    assume "(op, A, b) = (stop_plugins, {lifecycle_state.RUNNING}, lifecycle_state.STOPPED)"
    then show ?thesis by (intro exI[of _ lifecycle_stop]) (simp add: stop_plugins_def stop_moves)
  next
    assume "(op, A, b) = (dispose_plugins, UNIV - {lifecycle_state.RUNNING}, DISPOSED)"
    then show ?thesis by (intro exI[of _ lifecycle_dispose]) (simp add: dispose_plugins_def dispose_moves)
  qed
  then obtain m where m: "moves m A b" "op E s = for_each (fleet_call E m) (fleet_ids E s) s" by blast
  have ids: "fleet_ids E s = keys (registry_of (ai_registry E) s)"
    unfolding fleet_ids_def by (rule plugin_enumerate_ids[OF assms(2)])
  show ?thesis
    using for_each_moves[OF m(1) assms(1), of "fleet_ids E s"] assms(3)
    by (simp add: m(2) ids fleet_after_def dict_ok_def) blast
qed

theorem fleet_moves_witness:
  "\<forall>E :: unit ai_engine. \<exists>s x t. start_plugins E s = (x, t) \<and> fleet_state E s ''q'' = lifecycle_state.RUNNING
     \<and> fleet_state E t ''p'' = lifecycle_state.RUNNING \<and> (\<exists>e. x = Inl e \<and> exn_isa PluginLifecycleError e)"
proof
  fix E :: "unit ai_engine"
  let ?reg = "[(''p'', demo_plugin ''p''), (''q'', demo_plugin ''q'')]"
  let ?s = "\<lparr>is_registries = [(ai_registry E, ?reg)], is_owners = [], is_live = [],
     is_fleets = [(ai_id E, [(''q'', (new_lifecycle (demo_plugin ''q''))\<lparr>lc_state := lifecycle_state.RUNNING\<rparr>)])],
     is_next = 0, is_world = ()\<rparr>"
  have "hooks_return (demo_plugin i :: unit plugin)" for i by (simp add: hooks_return_def demo_plugin_def)
  then have behaved: "fleet_behaved E ?s"
    by (simp add: fleet_behaved_def registry_of_def fleet_of_def new_lifecycle_def)
  have ok: "plugin_registry_ok (registry_of (ai_registry E) ?s)" "dict_ok (registry_of (ai_registry E) ?s)"
    by (simp_all add: registry_of_def keyed_by_def dict_ok_def demo_plugin_def)
  have ids: "fleet_ids E ?s = [''p'', ''q'']"
    by (simp add: fleet_ids_def plugin_enumerate_def registry_of_def demo_plugin_def)
  have state: "fleet_state E ?s ''p'' = REGISTERED" "fleet_state E ?s ''q'' = lifecycle_state.RUNNING"
    by (simp_all add: fleet_state_def fleet_of_def)
  from fleet_moves[OF behaved ok, of start_plugins "{REGISTERED, INITIALIZED, lifecycle_state.STOPPED}" lifecycle_state.RUNNING]
  obtain moved rest x t where run: "start_plugins E ?s = (x, t)" and split: "[''p'', ''q''] = moved @ rest"
    and fit: "\<forall>i \<in> set moved. fleet_state E ?s i \<in> {REGISTERED, INITIALIZED, lifecycle_state.STOPPED}"
    and after: "fleet_state E t = (\<lambda>i. if i \<in> set moved then lifecycle_state.RUNNING else fleet_state E ?s i)"
    and last: "case rest of [] \<Rightarrow> x = Inr () | j # _ \<Rightarrow> fleet_state E ?s j \<notin> {REGISTERED, INITIALIZED, lifecycle_state.STOPPED}
       \<and> (\<exists>e. x = Inl e \<and> exn_isa PluginLifecycleError e)"
    by (simp only: ids) blast
  have "moved = [''p'']" "rest = [''q'']"
    using split fit last state by (auto simp: append_eq_Cons_conv Cons_eq_append_conv)
  with run state after last show "\<exists>s x t. start_plugins E s = (x, t) \<and> fleet_state E s ''q'' = lifecycle_state.RUNNING
     \<and> fleet_state E t ''p'' = lifecycle_state.RUNNING \<and> (\<exists>e. x = Inl e \<and> exn_isa PluginLifecycleError e)"
    by (intro exI[of _ ?s] exI[of _ x] exI[of _ t]) simp
qed

section \<open>What a built engine guards\<close>

text \<open>However an engine was built, a tool call through it succeeds only for a registered tool whose
  permissions the caller holds, and, when neither authorization nor an authorizer was asked for,
  only for a tool that requires none.\<close>

theorem built_engine_guarded:
  assumes "ai_build B s = (Inr E, s')" and "dp_tools (rt_dispatcher (ab_runtime B)) = (\<lambda>_. registered)"
    and "xr_target req = TOOL" and "ai_execute E req ctx granted w = (Inr r, w')" and "er_success r"
  shows "\<exists>t. tool_lookup (xr_operation req) registered = Inr t \<and> perm_value ` set (tool_permissions t)
    \<subseteq> (if ab_authorization_requested B \<or> ab_authorizer B \<noteq> None then set granted else {})"
proof -
  have X: "ai_execution E = built_execution B"
    using assms(1) by (auto simp: ai_build_def andthen_def bnd_def new_ai_engine_def Let_def
        split: option.splits prod.splits sum.splits if_splits)
  have "xe_authorizer (built_execution B) = None \<longleftrightarrow> \<not> (ab_authorization_requested B \<or> ab_authorizer B \<noteq> None)"
    by (auto simp: built_execution_def built_authorizer_def)
  moreover have "dp_tools (xe_dispatcher (built_execution B)) = (\<lambda>_. registered)"
    using assms(2) by (simp add: built_execution_def)
  ultimately show ?thesis
    using execute_tool_success[OF assms(4)[unfolded ai_execute_def X] assms(3,5)] by auto
qed

theorem built_engine_guarded_witness:
  "\<forall>rt. \<exists>E s'. ai_build (new_ai_builder (rt\<lparr>rt_dispatcher := demo_dispatcher\<rparr>))
      \<lparr>is_registries = [], is_owners = [], is_live = [], is_fleets = [], is_next = 0, is_world = 0 :: nat\<rparr> = (Inr E, s')
    \<and> (\<exists>t. tool_lookup ''echo'' [(''echo'', echo_tool :: nat tool)] = Inr t \<and> tool_permissions t = [])"
proof
  fix rt :: "nat ai_runtime"
  let ?B = "new_ai_builder (rt\<lparr>rt_dispatcher := demo_dispatcher\<rparr>)"
  let ?s = "\<lparr>is_registries = [], is_owners = [], is_live = [], is_fleets = [], is_next = 0, is_world = 0 :: nat\<rparr>"
  have built: "\<exists>E s'. ai_build ?B ?s = (Inr E, s') \<and> ai_execution E = plain_engine demo_dispatcher (rt_str rt)"
    by (simp add: ai_build_def new_ai_builder_def build_discovery_def new_plugin_registry_def new_ai_engine_def
        registry_owned_def andthen_def bnd_def Let_def built_execution_def built_authorizer_def plain_engine_def)
  then obtain E s' where E: "ai_build ?B ?s = (Inr E, s')" "ai_execution E = plain_engine demo_dispatcher (rt_str rt)" by blast
  obtain r w' where run: "execute (plain_engine demo_dispatcher (rt_str rt)) (tool_request ''echo'')
      demo_exec_context [] 0 = (Inr r, w')" "er_success r"
    by (simp add: execute_def plain_engine_def engine_publish_def engine_observe_def engine_decide_def
        dispatch_def tool_request_def dispatch_to_tool_def demo_dispatcher_def tool_lookup_def
        pipeline_run_def echo_tool_def missing_permissions_def reading_def counting_env_def tool_success_def
        check_tool_result_ok tool_result_ok_def exec_result_of_tool_def exec_result_ok_def engine_finish_def
        engine_remember_def bnd_def andthen_def attempt_def)
  have "ai_execute E (tool_request ''echo'') demo_exec_context [] 0 = (Inr r, w')" using run(1) by (simp add: ai_execute_def E)
  from built_engine_guarded[OF E(1) _ _ this run(2), of "[(''echo'', echo_tool)]"]
  have "\<exists>t. tool_lookup ''echo'' [(''echo'', echo_tool :: nat tool)] = Inr t \<and> perm_value ` set (tool_permissions t) \<subseteq> {}"
    by (simp add: new_ai_builder_def demo_dispatcher_def tool_request_def)
  with E(1) show "\<exists>E s'. ai_build ?B ?s = (Inr E, s')
    \<and> (\<exists>t. tool_lookup ''echo'' [(''echo'', echo_tool :: nat tool)] = Inr t \<and> tool_permissions t = [])" by auto
qed

end
