(* ===== verification/Floats.thy ===== *)
theory Floats
  imports Values "HOL-Library.Log_Nat"
begin

text \<open>
  Binary64 arithmetic as the interpreter does it, on the values of \<open>pyfloat\<close>: a real is rounded
  to the nearest multiple of its quantum, ties to even, and to an infinity past the largest
  double. Signs of zeros are not kept. \<open>math.hypot\<close>, whose last bit the library leaves open, is
  a parameter with the accuracy its documentation gives.
\<close>

section \<open>Rounding\<close>

text \<open>Multiples of \<open>2 ^ -1074\<close> with 53 significant bits.\<close>

definition scale64 :: real where
  "scale64 = 2 ^ 1074"

definition quantum_bits :: "real \<Rightarrow> nat" where
  "quantum_bits x = floorlog 2 (nat \<lfloor>\<bar>x\<bar> * scale64\<rfloor>) - 53"

definition quantum :: "real \<Rightarrow> real" where
  "quantum x = 2 ^ quantum_bits x / scale64"

lemma scale64_pos [simp]: "0 < scale64" "scale64 \<noteq> 0" "\<bar>scale64\<bar> = scale64" "1 / scale64 \<le> 1"
  by (simp_all add: scale64_def)

definition half_even :: "real \<Rightarrow> int" where
  "half_even y = (let n = \<lfloor>y\<rfloor>; d = y - of_int n in
     if d < 1 / 2 \<or> d = 1 / 2 \<and> even n then n else n + 1)"

definition round64 :: "real \<Rightarrow> pyfloat" where
  "round64 x = (let y = of_int (half_even (x / quantum x)) * quantum x in
     if 2 ^ 1024 \<le> y then PosInf else if y \<le> - (2 ^ 1024) then NegInf else Fin y)"

definition binary64 :: "real \<Rightarrow> bool" where
  "binary64 x \<longleftrightarrow> round64 x = Fin x"

lemma half_even_error: "\<bar>of_int (half_even y) - y\<bar> \<le> 1 / 2"
  unfolding half_even_def Let_def using floor_correct[of y] by (auto simp: abs_le_iff)

lemma half_even_int [simp]: "half_even (of_int n) = n"
  by (simp add: half_even_def)

lemma quantum_pos [simp]: "0 < quantum x" "quantum x \<noteq> 0" "0 \<le> quantum x"
proof -
  show "0 < quantum x" by (simp add: quantum_def)
  then show "quantum x \<noteq> 0" "0 \<le> quantum x" by simp_all
qed

lemma quantum_least: "1 / scale64 \<le> quantum x"
  unfolding quantum_def by (intro divide_right_mono) (simp_all add: less_imp_le)

lemma bits_upper: "\<bar>x\<bar> * scale64 < 2 ^ (53 + quantum_bits x)"
proof -
  let ?m = "nat \<lfloor>\<bar>x\<bar> * scale64\<rfloor>"
  have "?m < 2 ^ floorlog 2 ?m"
    using floorlog_bounds[of ?m 2] by (cases "?m = 0") auto
  also have "(2 :: nat) ^ floorlog 2 ?m \<le> 2 ^ (53 + quantum_bits x)"
    by (intro power_increasing) (auto simp: quantum_bits_def)
  finally have "?m < 2 ^ (53 + quantum_bits x)" .
  then have "\<lfloor>\<bar>x\<bar> * scale64\<rfloor> < 2 ^ (53 + quantum_bits x)"
    by (metis nat_less_numeral_power_cancel_iff power_add)
  then show ?thesis by (simp add: floor_less_iff)
qed

lemma bits_lower:
  assumes "0 < quantum_bits x"
  shows "2 ^ (52 + quantum_bits x) \<le> \<bar>x\<bar> * scale64"
proof -
  let ?m = "nat \<lfloor>\<bar>x\<bar> * scale64\<rfloor>"
  have "0 < ?m" using assms by (cases "?m = 0") (auto simp: quantum_bits_def floorlog_def)
  moreover have bits: "floorlog 2 ?m - 1 = 52 + quantum_bits x" using assms by (simp add: quantum_bits_def)
  ultimately have "2 ^ (52 + quantum_bits x) \<le> ?m" using floorlog_bounds[of ?m 2] by (simp only: bits)
  then have "2 ^ (52 + quantum_bits x) \<le> \<lfloor>\<bar>x\<bar> * scale64\<rfloor>"
    using \<open>0 < ?m\<close> by (metis nat_le_eq_zle nat_numeral nat_power_eq not_less numeral_power_le_nat_cancel_iff zero_le_numeral)
  then show ?thesis by (metis le_floor_iff of_int_numeral of_int_power)
qed

text \<open>The quantum is at most \<open>2 ^ -52\<close> of the number, or the least one.\<close>

lemma quantum_bound: "quantum x \<le> max (\<bar>x\<bar> / 2 ^ 52) (1 / scale64)"
proof (cases "quantum_bits x = 0")
  case True
  then show ?thesis by (simp add: quantum_def)
next
  case False
  then have "2 ^ 52 * 2 ^ quantum_bits x \<le> \<bar>x\<bar> * scale64" using bits_lower[of x] by (simp add: power_add)
  then have "quantum x \<le> \<bar>x\<bar> / 2 ^ 52" by (simp add: quantum_def field_simps)
  then show ?thesis by (rule max.coboundedI1)
qed

lemma rounding_error: "\<bar>of_int (half_even (x / quantum x)) * quantum x - x\<bar> \<le> quantum x / 2"
proof -
  have "\<bar>of_int (half_even (x / quantum x)) - x / quantum x\<bar> * quantum x \<le> 1 / 2 * quantum x"
    by (intro mult_right_mono half_even_error) simp
  moreover have "of_int (half_even (x / quantum x)) * quantum x - x = (of_int (half_even (x / quantum x)) - x / quantum x) * quantum x"
    by (simp add: left_diff_distrib)
  ultimately show ?thesis by (simp add: abs_mult)
qed

lemma round64_Fin_error: "round64 x = Fin y \<Longrightarrow> \<bar>y - x\<bar> \<le> quantum x / 2"
  using rounding_error[of x] by (auto simp: round64_def Let_def split: if_splits)

lemma round64_nonneg: "0 \<le> x \<Longrightarrow> round64 x \<noteq> NegInf \<and> round64 x \<noteq> NaN"
proof -
  assume x: "0 \<le> x"
  then have "0 \<le> \<lfloor>x / quantum x\<rfloor>" by simp
  then have "0 \<le> half_even (x / quantum x)" by (auto simp: half_even_def Let_def)
  then have "0 \<le> of_int (half_even (x / quantum x)) * quantum x" by simp
  moreover have "- (2 ^ 1024) < (0 :: real)" by simp
  ultimately show ?thesis by (auto simp: round64_def Let_def)
qed

lemma round64_finite:
  assumes "\<bar>x\<bar> \<le> 2 ^ 1023"
  shows "\<exists>y. round64 x = Fin y \<and> \<bar>y - x\<bar> \<le> quantum x / 2"
proof -
  let ?y = "of_int (half_even (x / quantum x)) * quantum x"
  have err: "\<bar>?y - x\<bar> \<le> quantum x / 2" by (rule rounding_error)
  have "quantum x \<le> 2 ^ 1023"
    using quantum_bound[of x]
  proof (rule order_trans)
    have "\<bar>x\<bar> / 2 ^ 52 \<le> 2 ^ 1023" using assms by simp
    moreover have "1 / scale64 \<le> 2 ^ 1023" by (rule order_trans[OF scale64_pos(4)]) simp
    ultimately show "max (\<bar>x\<bar> / 2 ^ 52) (1 / scale64) \<le> 2 ^ 1023" by simp
  qed
  then have "\<bar>?y\<bar> < 2 * 2 ^ 1023" using err assms zero_less_power[of "2 :: real" 1023] unfolding abs_le_iff abs_less_iff by linarith
  then have "\<bar>?y\<bar> < 2 ^ 1024" by simp
  with err show ?thesis by (auto simp: round64_def Let_def abs_less_iff)
qed

text \<open>What has 53 significant bits is not rounded, and rounding gives such numbers.\<close>

lemma quantum_bits_le:
  assumes "\<bar>x\<bar> * scale64 < 2 ^ (53 + q)"
  shows "quantum_bits x \<le> q"
proof -
  let ?m = "nat \<lfloor>\<bar>x\<bar> * scale64\<rfloor>"
  have "\<lfloor>\<bar>x\<bar> * scale64\<rfloor> < 2 ^ (53 + q)" using assms by (simp add: floor_less_iff)
  then have "?m < 2 ^ (53 + q)" by (simp add: nat_less_iff)
  then have "floorlog 2 ?m \<le> 53 + q" by (simp add: floorlog_le_iff)
  then show ?thesis by (simp add: quantum_bits_def)
qed

lemma round64_scaled:
  assumes "x = of_int m * 2 ^ q / scale64" and "\<bar>m\<bar> < 2 ^ 53" and "\<bar>x\<bar> < 2 ^ 1024"
  shows "round64 x = Fin x"
proof -
  have "\<bar>of_int m :: real\<bar> < 2 ^ 53" using assms(2) by (metis of_int_abs of_int_less_iff of_int_numeral of_int_power)
  then have "\<bar>x\<bar> * scale64 < 2 ^ (53 + q)" using assms(1) by (simp add: abs_mult power_add)
  then have bits: "quantum_bits x \<le> q" by (rule quantum_bits_le)
  then obtain k where k: "q = k + quantum_bits x" by (metis le_add_diff_inverse2)
  have "x * scale64 = of_int m * 2 ^ q" using assms(1) by simp
  then have scaled: "x * scale64 = of_int (m * 2 ^ k) * 2 ^ quantum_bits x" by (simp add: k power_add)
  have "x / quantum x = (x * scale64) / 2 ^ quantum_bits x" by (simp add: quantum_def)
  then have "x / quantum x = of_int (m * 2 ^ k)" unfolding scaled by simp
  then have m: "half_even (x / quantum x) = m * 2 ^ k" by (simp only: half_even_int)
  have "of_int (half_even (x / quantum x)) * quantum x = x * scale64 / scale64"
    unfolding m scaled by (simp add: quantum_def)
  then have "of_int (half_even (x / quantum x)) * quantum x = x" by simp
  with assms(3) show ?thesis by (auto simp: round64_def Let_def abs_less_iff)
qed

lemma half_even_bound:
  assumes "\<bar>y\<bar> < of_int n"
  shows "\<bar>half_even y\<bar> \<le> n"
proof -
  have "\<lfloor>y\<rfloor> < n" "- n \<le> \<lfloor>y\<rfloor>" using assms by (simp_all add: floor_less_iff le_floor_iff abs_less_iff)
  then show ?thesis by (auto simp: half_even_def Let_def)
qed

lemma round64_binary: "round64 x = Fin y \<Longrightarrow> binary64 y"
proof -
  assume run: "round64 x = Fin y"
  let ?m = "half_even (x / quantum x)"
  have y: "y = of_int ?m * 2 ^ quantum_bits x / scale64" and bound: "\<bar>y\<bar> < 2 ^ 1024"
    using run by (auto simp: round64_def Let_def quantum_def abs_less_iff split: if_splits)
  have "\<bar>x / quantum x\<bar> < of_int (2 ^ 53)"
    using bits_upper[of x] by (simp add: quantum_def power_add field_simps abs_mult)
  then have m: "\<bar>?m\<bar> \<le> 2 ^ 53" by (rule half_even_bound)
  show ?thesis unfolding binary64_def
  proof (cases "\<bar>?m\<bar> < 2 ^ 53")
    case True
    show "round64 y = Fin y" by (rule round64_scaled[OF y True bound])
  next
    case False
    with m have "\<bar>?m\<bar> = 2 ^ 53" by simp
    then obtain s where s: "?m = s * 2 ^ 52 * 2" "\<bar>s\<bar> = 1"
      by (cases "0 \<le> ?m") (auto intro: that[of 1] that[of "- 1"])
    have "y = of_int (s * 2 ^ 52) * 2 ^ Suc (quantum_bits x) / scale64" unfolding y s(1) by simp
    moreover have "\<bar>s * 2 ^ 52\<bar> < 2 ^ 53" using s(2) by (simp add: abs_mult)
    ultimately show "round64 y = Fin y" using bound by (rule round64_scaled)
  qed
qed

lemma binary64_int:
  assumes "\<bar>n\<bar> < 2 ^ 53"
  shows "binary64 (of_int n)"
proof -
  have "\<bar>of_int n :: real\<bar> < 2 ^ 53" using assms by (metis of_int_abs of_int_less_iff of_int_numeral of_int_power)
  then have "\<bar>of_int n :: real\<bar> < 2 ^ 1024" by (rule less_trans) simp
  with assms show ?thesis unfolding binary64_def by (intro round64_scaled[of _ n 1074]) (simp_all add: scale64_def)
qed

lemma binary64_least:
  assumes "binary64 x" and "x \<noteq> 0"
  shows "1 / scale64 \<le> \<bar>x\<bar>"
proof -
  have x: "x = of_int (half_even (x / quantum x)) * quantum x"
    using assms(1) by (auto simp: binary64_def round64_def Let_def split: if_splits)
  with assms(2) have "half_even (x / quantum x) \<noteq> 0" by (metis mult_eq_0_iff of_int_0)
  then have "1 \<le> \<bar>of_int (half_even (x / quantum x)) :: real\<bar>" by (metis of_int_abs of_int_1_le_iff int_one_le_iff_zero_less zero_less_abs_iff)
  then have "1 * quantum x \<le> \<bar>of_int (half_even (x / quantum x))\<bar> * quantum x" by (intro mult_right_mono) simp_all
  also have "\<dots> = \<bar>x\<bar>" by (subst (3) x) (simp add: abs_mult)
  finally show ?thesis using quantum_least[of x] by simp
qed

section \<open>Operations\<close>

definition signed_inf :: "real \<Rightarrow> pyfloat" where
  "signed_inf x = (if x = 0 then NaN else if 0 < x then PosInf else NegInf)"

fun float_neg :: "pyfloat \<Rightarrow> pyfloat" where
  "float_neg (Fin x) = Fin (- x)"
| "float_neg PosInf = NegInf"
| "float_neg NegInf = PosInf"
| "float_neg NaN = NaN"

definition zero_division :: exn where
  "zero_division = Exn (ForeignException ''ZeroDivisionError'') ''float division by zero''"

fun float_div :: "pyfloat \<Rightarrow> pyfloat \<Rightarrow> pyfloat res" where
  "float_div x (Fin y) = (if y = 0 then Inl zero_division else Inr (case x of
     Fin a \<Rightarrow> round64 (a / y) | NaN \<Rightarrow> NaN | z \<Rightarrow> if 0 < y then z else float_neg z))"
| "float_div (Fin _) NaN = Inr NaN"
| "float_div (Fin _) _ = Inr (Fin 0)"
| "float_div _ _ = Inr NaN"

fun float_mul :: "pyfloat \<Rightarrow> pyfloat \<Rightarrow> pyfloat" where
  "float_mul (Fin x) (Fin y) = round64 (x * y)"
| "float_mul NaN _ = NaN"
| "float_mul _ NaN = NaN"
| "float_mul (Fin x) PosInf = signed_inf x"
| "float_mul (Fin x) NegInf = signed_inf (- x)"
| "float_mul PosInf (Fin y) = signed_inf y"
| "float_mul NegInf (Fin y) = signed_inf (- y)"
| "float_mul PosInf y = y"
| "float_mul NegInf y = float_neg y"

fun float_less :: "pyfloat \<Rightarrow> pyfloat \<Rightarrow> bool" where
  "float_less (Fin x) (Fin y) = (x < y)"
| "float_less (Fin _) PosInf = True"
| "float_less NegInf (Fin _) = True"
| "float_less NegInf PosInf = True"
| "float_less _ _ = False"

fun float_finite :: "pyfloat \<Rightarrow> bool" where
  "float_finite (Fin _) = True"
| "float_finite _ = False"

text \<open>\<open>math.fsum\<close>: the exact sum, rounded once. Partial sums that overflow although the sum does not are not
  distinguished; the terms summed here are products of quotients.\<close>

definition finite_part :: "pyfloat \<Rightarrow> real" where
  "finite_part f = (case f of Fin x \<Rightarrow> x | _ \<Rightarrow> 0)"

definition fsum :: "pyfloat list \<Rightarrow> pyfloat res" where
  "fsum fs =
     (if PosInf \<in> set fs \<and> NegInf \<in> set fs then Inl (Exn (ForeignException ''ValueError'') ''-inf + inf in fsum'')
      else if NaN \<in> set fs then Inr NaN
      else if PosInf \<in> set fs then Inr PosInf
      else if NegInf \<in> set fs then Inr NegInf
      else (case round64 (sum_list (map finite_part fs)) of
              Fin s \<Rightarrow> Inr (Fin s)
            | _ \<Rightarrow> Inl (Exn (ForeignException ''OverflowError'') ''intermediate overflow in fsum'')))"

text \<open>\<open>float(i)\<close> and the conversion of an \<open>int\<close> or \<open>float\<close>.\<close>

definition float_of_int :: "int \<Rightarrow> pyfloat res" where
  "float_of_int i = (case round64 (of_int i) of
       Fin x \<Rightarrow> Inr (Fin x) | _ \<Rightarrow> Inl (Exn (ForeignException ''OverflowError'') ''int too large to convert to float''))"

text \<open>\<open>max(-1.0, min(1.0, s))\<close>: both keep their first argument unless the second is strictly beyond it.\<close>

definition clamp :: "pyfloat \<Rightarrow> pyfloat" where
  "clamp s = (let m = (if float_less s (Fin 1) then s else Fin 1) in if float_less (Fin (- 1)) m then m else Fin (- 1))"

lemma clamp_bounds: "\<exists>x. clamp s = Fin x \<and> - 1 \<le> x \<and> x \<le> 1"
  by (cases s) (auto simp: clamp_def)

lemma clamp_Fin: "clamp (Fin x) = Fin (max (- 1) (min 1 x))"
  by (auto simp: clamp_def max_def min_def)

section \<open>Error bounds\<close>

lemma halve: "q \<le> a + b \<Longrightarrow> 0 \<le> b \<Longrightarrow> q / 2 \<le> a / 2 + (b :: real)"
  by simp

lemma round64_error:
  assumes "\<bar>x\<bar> \<le> 2 ^ 1023"
  shows "\<exists>y. round64 x = Fin y \<and> \<bar>y - x\<bar> \<le> \<bar>x\<bar> / 2 ^ 53 + 1 / scale64"
proof -
  obtain y where y: "round64 x = Fin y" "\<bar>y - x\<bar> \<le> quantum x / 2" using round64_finite[OF assms] by blast
  have nonneg: "0 \<le> \<bar>x\<bar> / 2 ^ 52" "0 \<le> 1 / scale64" by (simp_all add: less_imp_le)
  have "quantum x \<le> \<bar>x\<bar> / 2 ^ 52 + 1 / scale64"
    using quantum_bound[of x] nonneg by (intro order_trans[OF quantum_bound]) (simp only: max.bounded_iff, linarith)
  then have "quantum x / 2 \<le> \<bar>x\<bar> / 2 ^ 52 / 2 + 1 / scale64" using nonneg(2) by (rule halve)
  then have "quantum x / 2 \<le> \<bar>x\<bar> / 2 ^ 53 + 1 / scale64" by (simp add: power_numeral_reduce)
  with y show ?thesis by (intro exI[of _ y]) (metis order_trans)
qed

lemma tiny: "1 / scale64 \<le> 1 / 2 ^ 60"
  unfolding scale64_def by (intro divide_left_mono power_increasing) simp_all

end
