(* ===== verification/Cosine.thy ===== *)
theory Cosine
  imports Floats
begin

text \<open>
  The cosine similarity of the vector store (\<open>_cosine_similarity\<close> in \<open>memory/_vector/in_memory.py\<close>)
  over binary64 numbers, the real cosine, and how far they are apart.
\<close>

record math_lib =
  ml_hypot :: "real list \<Rightarrow> pyfloat"

fun cosine_terms :: "pyfloat \<Rightarrow> pyfloat \<Rightarrow> real list \<Rightarrow> real list \<Rightarrow> pyfloat list res" where
  "cosine_terms m n [] [] = Inr []"
| "cosine_terms m n (x # xs) (y # ys) =
     rbind (float_div (Fin x) m) (\<lambda>a. rbind (float_div (Fin y) n) (\<lambda>b.
       rbind (cosine_terms m n xs ys) (\<lambda>ts. Inr (float_mul a b # ts))))"
| "cosine_terms m n [] (y # ys) = Inl (Exn (ForeignException ''ValueError'') ''zip() argument 2 is longer than argument 1'')"
| "cosine_terms m n (x # xs) [] = Inl (Exn (ForeignException ''ValueError'') ''zip() argument 2 is shorter than argument 1'')"

definition cosine_similarity :: "math_lib \<Rightarrow> real list \<Rightarrow> real list \<Rightarrow> pyfloat res" where
  "cosine_similarity M left right =
     rbind (cosine_terms (ml_hypot M left) (ml_hypot M right) left right) (\<lambda>ts.
       rbind (fsum ts) (\<lambda>score. Inr (clamp score)))"

section \<open>The real cosine\<close>

definition norm2 :: "real list \<Rightarrow> real" where
  "norm2 v = sqrt (sum_list (map (\<lambda>x. x * x) v))"

definition cosine :: "real list \<Rightarrow> real list \<Rightarrow> real" where
  "cosine l r = sum_list (map2 (\<lambda>x y. x / norm2 l * (y / norm2 r)) l r)"

text \<open>\<open>math.hypot\<close> is documented to be wrong by less than one unit in the last place.\<close>

definition hypot_accurate :: "math_lib \<Rightarrow> real list \<Rightarrow> bool" where
  "hypot_accurate M v \<longleftrightarrow>
     (\<exists>h. ml_hypot M v = Fin h \<and> binary64 h \<and> \<bar>h - norm2 v\<bar> < quantum (norm2 v))
     \<or> ml_hypot M v = PosInf \<and> 2 ^ 1023 < norm2 v"

lemma sum_squares_nonneg: "0 \<le> sum_list (map (\<lambda>x. x * x) (v :: real list))"
  by (induction v) auto

lemma norm2_nonneg [simp]: "0 \<le> norm2 v"
  by (simp add: norm2_def sum_squares_nonneg)

lemma norm2_square: "norm2 v * norm2 v = sum_list (map (\<lambda>x. x * x) v)"
  by (simp add: norm2_def sum_squares_nonneg)

lemma component_le_norm2: "x \<in> set v \<Longrightarrow> \<bar>x\<bar> \<le> norm2 v"
proof -
  assume x: "x \<in> set v"
  have "x * x \<in> set (map (\<lambda>x. x * x) v)" using x by simp
  then have "x * x \<le> sum_list (map (\<lambda>x. x * x) v)" by (rule member_le_sum_list) auto
  then have "sqrt (x * x) \<le> norm2 v" unfolding norm2_def by (rule real_sqrt_le_mono)
  then show ?thesis by simp
qed

lemma sum_list_map2_bound:
  fixes f :: "real \<Rightarrow> real \<Rightarrow> real"
  assumes "length l = length r" and "\<And>x y. \<bar>f x y\<bar> \<le> (g x + h y) / 2"
  shows "\<bar>sum_list (map2 f l r)\<bar> \<le> (sum_list (map g l) + sum_list (map h r)) / 2"
  using assms(1)
proof (induction l r rule: list_induct2)
  case (Cons x xs y ys)
  have "sum_list (map2 f (x # xs) (y # ys)) = f x y + sum_list (map2 f xs ys)" by simp
  moreover have "\<bar>f x y + sum_list (map2 f xs ys)\<bar> \<le> \<bar>f x y\<bar> + \<bar>sum_list (map2 f xs ys)\<bar>" by (rule abs_triangle_ineq)
  ultimately show ?case using assms(2)[of x y] Cons.IH by simp
qed simp

lemma scaled_squares:
  assumes "0 < norm2 v"
  shows "sum_list (map (\<lambda>x. (x / norm2 v) * (x / norm2 v)) v) = 1"
proof -
  have "sum_list (map (\<lambda>x. (x / norm2 v) * (x / norm2 v)) v) = sum_list (map (\<lambda>x. x * x / (norm2 v * norm2 v)) v)"
    by simp
  also have "\<dots> = sum_list (map (\<lambda>x. x * x) v) / (norm2 v * norm2 v)"
    unfolding divide_inverse by (rule sum_list_mult_const)
  also have "\<dots> = 1" using assms by (simp add: norm2_square[symmetric])
  finally show ?thesis .
qed

text \<open>The Cauchy-Schwarz inequality, for vectors scaled to length one.\<close>

lemma cosine_bounds:
  assumes "length l = length r" and "0 < norm2 l" and "0 < norm2 r"
  shows "\<bar>cosine l r\<bar> \<le> 1"
proof -
  have half: "\<bar>a * b\<bar> \<le> (a * a + b * b) / 2" for a b :: real
    using zero_le_square[of "a - b"] zero_le_square[of "a + b"] by (simp add: abs_le_iff algebra_simps)
  have "\<bar>cosine l r\<bar> \<le> (sum_list (map (\<lambda>x. (x / norm2 l) * (x / norm2 l)) l) + sum_list (map (\<lambda>y. (y / norm2 r) * (y / norm2 r)) r)) / 2"
    unfolding cosine_def by (rule sum_list_map2_bound[OF assms(1)]) (rule half)
  then show ?thesis by (simp only: scaled_squares[OF assms(2)] scaled_squares[OF assms(3)]) simp
qed

section \<open>Rounding errors\<close>

lemma round64_small:
  assumes "\<bar>x\<bar> \<le> 4"
  shows "\<exists>y. round64 x = Fin y \<and> \<bar>y - x\<bar> \<le> 1 / 2 ^ 50"
proof -
  have "\<bar>x\<bar> \<le> 2 ^ 1023" by (rule order_trans[OF assms]) simp
  then obtain y where y: "round64 x = Fin y" "\<bar>y - x\<bar> \<le> \<bar>x\<bar> / 2 ^ 53 + 1 / scale64" using round64_error by blast
  have "\<bar>x\<bar> / 2 ^ 53 + 1 / scale64 \<le> 4 / 2 ^ 53 + 1 / 2 ^ 60" using assms tiny by (intro add_mono divide_right_mono) simp_all
  also have "\<dots> \<le> 1 / 2 ^ 50" by simp
  finally show ?thesis using y by (intro exI[of _ y]) simp
qed

text \<open>Dividing by a norm that is almost right.\<close>

lemma quotient_error:
  fixes x :: real
  assumes "0 < n" and "\<bar>x\<bar> \<le> n" and "\<bar>h - n\<bar> \<le> n / 2 ^ 52"
  shows "\<exists>q. float_div (Fin x) (Fin h) = Inr (Fin q) \<and> \<bar>q - x / n\<bar> \<le> 1 / 2 ^ 49 \<and> \<bar>x / n\<bar> \<le> 1"
proof -
  have "n / 2 ^ 52 \<le> n / 2" using assms(1) by simp
  then have h: "n / 2 \<le> h" using assms(3) by linarith
  then have pos: "0 < h" using assms(1) by linarith
  have xn: "\<bar>x / n\<bar> \<le> 1" using assms(1,2) by simp
  have "x / h - x / n = x / n * ((n - h) / h)" using assms(1) pos by (simp add: field_simps)
  then have "\<bar>x / h - x / n\<bar> = \<bar>x / n\<bar> * (\<bar>h - n\<bar> / h)" using pos by (simp only: abs_mult abs_divide) (simp add: abs_minus_commute)
  also have "\<dots> \<le> 1 * ((n / 2 ^ 52) / (n / 2))"
    using xn assms h pos by (intro mult_mono frac_le) simp_all
  also have "\<dots> = 1 / 2 ^ 51" using assms(1) by simp
  finally have err: "\<bar>x / h - x / n\<bar> \<le> 1 / 2 ^ 51" .
  moreover have "(1 :: real) / 2 ^ 51 \<le> 1" by simp
  ultimately have "\<bar>x / h\<bar> \<le> 4" using xn by linarith
  then obtain q where q: "round64 (x / h) = Fin q" "\<bar>q - x / h\<bar> \<le> 1 / 2 ^ 50" using round64_small by blast
  have "\<bar>q - x / n\<bar> \<le> 1 / 2 ^ 50 + 1 / 2 ^ 51" using q(2) err by linarith
  also have "\<dots> \<le> 1 / 2 ^ 49" by simp
  finally show ?thesis using q(1) pos xn by simp
qed

lemma product_error:
  assumes "\<bar>q - a\<bar> \<le> 1 / 2 ^ 49" and "\<bar>a\<bar> \<le> 1" and "\<bar>s - b\<bar> \<le> 1 / 2 ^ 49" and "\<bar>b\<bar> \<le> 1"
  shows "\<exists>p. float_mul (Fin q) (Fin s) = Fin p \<and> \<bar>p - a * b\<bar> \<le> 1 / 2 ^ 47"
proof -
  have small: "(1 :: real) / 2 ^ 49 \<le> 1 / 2" by simp
  have s: "\<bar>s\<bar> \<le> 3 / 2" and q: "\<bar>q\<bar> \<le> 3 / 2" using assms small by linarith+
  have "q * s - a * b = (q - a) * s + a * (s - b)" by (simp add: algebra_simps)
  then have "\<bar>q * s - a * b\<bar> \<le> \<bar>q - a\<bar> * \<bar>s\<bar> + \<bar>a\<bar> * \<bar>s - b\<bar>" by (metis abs_triangle_ineq abs_mult)
  also have "\<dots> \<le> 1 / 2 ^ 49 * (3 / 2) + 1 * (1 / 2 ^ 49)" using assms s by (intro add_mono mult_mono) simp_all
  finally have err: "\<bar>q * s - a * b\<bar> \<le> 1 / 2 ^ 49 * (3 / 2) + 1 * (1 / 2 ^ 49)" .
  have "\<bar>q * s\<bar> \<le> 3 / 2 * (3 / 2)" unfolding abs_mult using q s by (intro mult_mono) simp_all
  then have "\<bar>q * s\<bar> \<le> 4" by simp
  then obtain p where p: "round64 (q * s) = Fin p" "\<bar>p - q * s\<bar> \<le> 1 / 2 ^ 50" using round64_small by blast
  have "\<bar>p - a * b\<bar> \<le> 1 / 2 ^ 50 + (1 / 2 ^ 49 * (3 / 2) + 1 * (1 / 2 ^ 49))" using p(2) err by linarith
  also have "\<dots> \<le> 1 / 2 ^ 47" by simp
  finally show ?thesis using p(1) by simp
qed

lemma terms_error:
  assumes "length l = length r" and "0 < m" and "0 < n" and "\<bar>g - m\<bar> \<le> m / 2 ^ 52" and "\<bar>h - n\<bar> \<le> n / 2 ^ 52"
    and "\<forall>x \<in> set l. \<bar>x\<bar> \<le> m" and "\<forall>y \<in> set r. \<bar>y\<bar> \<le> n"
  shows "\<exists>ps. cosine_terms (Fin g) (Fin h) l r = Inr (map Fin ps) \<and> length ps = length l
    \<and> \<bar>sum_list ps - sum_list (map2 (\<lambda>x y. x / m * (y / n)) l r)\<bar> \<le> length l * (1 / 2 ^ 47)"
  using assms(1,6,7)
proof (induction l r rule: list_induct2)
  case (Cons x xs y ys)
  obtain q where q: "float_div (Fin x) (Fin g) = Inr (Fin q)" "\<bar>q - x / m\<bar> \<le> 1 / 2 ^ 49" "\<bar>x / m\<bar> \<le> 1"
    using quotient_error[OF assms(2) _ assms(4), of x] Cons.prems by auto
  obtain s where s: "float_div (Fin y) (Fin h) = Inr (Fin s)" "\<bar>s - y / n\<bar> \<le> 1 / 2 ^ 49" "\<bar>y / n\<bar> \<le> 1"
    using quotient_error[OF assms(3) _ assms(5), of y] Cons.prems by auto
  obtain p where p: "float_mul (Fin q) (Fin s) = Fin p" "\<bar>p - x / m * (y / n)\<bar> \<le> 1 / 2 ^ 47"
    using product_error[OF q(2,3) s(2,3)] by blast
  obtain ps where ps: "cosine_terms (Fin g) (Fin h) xs ys = Inr (map Fin ps)" "length ps = length xs"
    "\<bar>sum_list ps - sum_list (map2 (\<lambda>x y. x / m * (y / n)) xs ys)\<bar> \<le> length xs * (1 / 2 ^ 47)"
    using Cons.IH Cons.prems by auto
  have "cosine_terms (Fin g) (Fin h) (x # xs) (y # ys) = Inr (map Fin (p # ps))"
    using q(1) s(1) p(1) ps(1) by (simp del: float_div.simps float_mul.simps)
  moreover have "\<bar>sum_list (p # ps) - sum_list (map2 (\<lambda>x y. x / m * (y / n)) (x # xs) (y # ys))\<bar> \<le> length (x # xs) * (1 / 2 ^ 47)"
    using p(2) ps(3) by (simp only: sum_list.Cons list.map zip_Cons_Cons case_prod_conv length_Cons of_nat_Suc distrib_right mult_1_left)
  ultimately show ?case using ps(2) by (intro exI[of _ "p # ps"]) simp
qed (intro exI[of _ "[]"], simp)

lemma fsum_Fin:
  "fsum (map Fin ps) = (case round64 (sum_list ps) of Fin s \<Rightarrow> Inr (Fin s)
     | _ \<Rightarrow> Inl (Exn (ForeignException ''OverflowError'') ''intermediate overflow in fsum''))"
proof -
  have "map finite_part (map Fin ps) = ps" by (induction ps) (simp_all add: finite_part_def)
  then show ?thesis by (auto simp: fsum_def)
qed

lemma accurate_norm:
  assumes "hypot_accurate M v" and "1 / 2 ^ 1022 \<le> norm2 v" and "norm2 v \<le> 2 ^ 1023"
  shows "0 < norm2 v \<and> (\<exists>h. ml_hypot M v = Fin h \<and> \<bar>h - norm2 v\<bar> \<le> norm2 v / 2 ^ 52)"
proof -
  have "(0 :: real) < 1 / 2 ^ 1022" by simp
  then have pos: "0 < norm2 v" using assms(2) by (rule less_le_trans)
  obtain h where h: "ml_hypot M v = Fin h" "\<bar>h - norm2 v\<bar> < quantum (norm2 v)"
    using assms(1,3) by (auto simp: hypot_accurate_def)
  have "1 / scale64 = 1 / 2 ^ 1022 / 2 ^ 52" by (simp add: scale64_def)
  also have "\<dots> \<le> norm2 v / 2 ^ 52" using assms(2) by (rule divide_right_mono) simp
  finally have "max (\<bar>norm2 v\<bar> / 2 ^ 52) (1 / scale64) \<le> norm2 v / 2 ^ 52" by simp
  then have "quantum (norm2 v) \<le> norm2 v / 2 ^ 52" using quantum_bound by (rule order_trans[rotated])
  then have "\<bar>h - norm2 v\<bar> \<le> norm2 v / 2 ^ 52" using h(2) by linarith
  with pos h(1) show ?thesis by blast
qed

lemma rounded_sum:
  assumes "\<bar>a - c\<bar> \<le> k * (1 / 2 ^ 47)" and "\<bar>c\<bar> \<le> 1" and "1 \<le> k" and "k \<le> 2 ^ 1000"
  shows "\<exists>s. round64 a = Fin s \<and> \<bar>s - c\<bar> \<le> k / 2 ^ 46"
proof -
  have "k * (1 / 2 ^ 47) \<le> k * 1" using assms(3) by (intro mult_left_mono) simp_all
  then have a: "\<bar>a\<bar> \<le> 2 * k" using assms by linarith
  also have "\<dots> \<le> 2 * 2 ^ 1000" using assms(4) by linarith
  also have "\<dots> \<le> 2 ^ 1023" by simp
  finally obtain s where s: "round64 a = Fin s" "\<bar>s - a\<bar> \<le> \<bar>a\<bar> / 2 ^ 53 + 1 / scale64" using round64_error by blast
  have "\<bar>a\<bar> / 2 ^ 53 + 1 / scale64 \<le> 2 * k / 2 ^ 53 + k / 2 ^ 60"
    using a assms(3) by (intro add_mono divide_right_mono order_trans[OF tiny]) simp_all
  then have "\<bar>s - c\<bar> \<le> k * (1 / 2 ^ 47) + (2 * k / 2 ^ 53 + k / 2 ^ 60)" using s(2) assms(1) by linarith
  also have "\<dots> \<le> k / 2 ^ 46" using assms(3) by simp
  finally show ?thesis using s(1) by blast
qed

text \<open>
  In the normal range the computed similarity is within \<open>n / 2 ^ 46\<close> of the cosine, for vectors
  of \<open>n\<close> components.
\<close>

lemma cosine_similarity_accurate:
  assumes "length l = length r" and "real (length l) \<le> 2 ^ 1000"
    and l: "hypot_accurate M l" "1 / 2 ^ 1022 \<le> norm2 l" "norm2 l \<le> 2 ^ 1023"
    and r: "hypot_accurate M r" "1 / 2 ^ 1022 \<le> norm2 r" "norm2 r \<le> 2 ^ 1023"
  shows "\<exists>s. cosine_similarity M l r = Inr (Fin s) \<and> \<bar>s\<bar> \<le> 1 \<and> \<bar>s - cosine l r\<bar> \<le> length l / 2 ^ 46"
proof -
  obtain g where g: "0 < norm2 l" "ml_hypot M l = Fin g" "\<bar>g - norm2 l\<bar> \<le> norm2 l / 2 ^ 52" using accurate_norm[OF l] by blast
  obtain h where h: "0 < norm2 r" "ml_hypot M r = Fin h" "\<bar>h - norm2 r\<bar> \<le> norm2 r / 2 ^ 52" using accurate_norm[OF r] by blast
  have "l \<noteq> []" using g(1) by (auto simp: norm2_def)
  then have len: "1 \<le> real (length l)" by (cases l) auto
  obtain ps where ps: "cosine_terms (Fin g) (Fin h) l r = Inr (map Fin ps)"
    "\<bar>sum_list ps - cosine l r\<bar> \<le> real (length l) * (1 / 2 ^ 47)"
    using terms_error[OF assms(1) g(1) h(1) g(3) h(3)] component_le_norm2[of _ l] component_le_norm2[of _ r]
    unfolding cosine_def by blast
  have c: "\<bar>cosine l r\<bar> \<le> 1" by (rule cosine_bounds[OF assms(1) g(1) h(1)])
  obtain s where s: "round64 (sum_list ps) = Fin s" "\<bar>s - cosine l r\<bar> \<le> length l / 2 ^ 46"
    using rounded_sum[OF ps(2) c len assms(2)] by blast
  have "cosine_similarity M l r = Inr (Fin (max (- 1) (min 1 s)))"
    using ps(1) s(1) by (simp add: cosine_similarity_def g(2) h(2) fsum_Fin clamp_Fin)
  moreover have "\<bar>max (- 1) (min 1 s) - cosine l r\<bar> \<le> \<bar>s - cosine l r\<bar>" using c by (auto simp: max_def min_def)
  moreover have "\<bar>max (- 1) (min 1 s)\<bar> \<le> 1" by (auto simp: max_def min_def)
  ultimately show ?thesis using order_trans[OF _ s(2)] by blast
qed

end
