(* ===== verification/Vector_Store.thy ===== *)
theory Vector_Store
  imports Cosine Regex Text Registries "HOL-Library.Product_Lexorder"
begin

text \<open>
  The vector store (\<open>memory/_vector/\<close>): records and matches with their checks, and the exact
  in-memory store with upsert, query, fetch and delete. Every argument is an object of any type, with
  the tests the code makes; the records of an upsert are a tuple of records and other objects,
  or an object that is no such tuple.
\<close>

section \<open>Vectors and metadata\<close>

definition vector_error :: "string \<Rightarrow> exn" where
  "vector_error m = Exn VectorStoreError m"

definition convert_component :: "string \<Rightarrow> pyval \<Rightarrow> real res" where
  "convert_component field v =
     rbind (case v of PInt i \<Rightarrow> float_of_int i | PFloat f \<Rightarrow> Inr f
              | _ \<Rightarrow> Inl (vector_error (field @ '' must contain only real numbers.'')))
       (\<lambda>f. case f of Fin x \<Rightarrow> Inr x | _ \<Rightarrow> Inl (vector_error (field @ '' must contain only finite values.'')))"

definition normalize_vector :: "math_lib \<Rightarrow> pyval \<Rightarrow> int option \<Rightarrow> string \<Rightarrow> real list res" where
  "normalize_vector M vector dimensions field =
     (case sequence_items vector of
        Some (x # xs) \<Rightarrow> rbind (rmap (convert_component field) (x # xs)) (\<lambda>v.
          if dimensions \<noteq> None \<and> int (length v) \<noteq> the dimensions
          then Inl (vector_error (field @ '' has the wrong dimensions.''))
          else if ml_hypot M v = Fin 0 then Inl (vector_error (field @ '' must have non-zero magnitude.''))
          else Inr v)
      | _ \<Rightarrow> Inl (vector_error (field @ '' must be a non-empty numeric sequence.'')))"

fun scalar :: "pyval \<Rightarrow> bool" where
  "scalar PNone = True"
| "scalar (PStr _) = True"
| "scalar (PBool _) = True"
| "scalar (PInt _) = True"
| "scalar (PFloat f) = float_finite f"
| "scalar _ = False"

definition snapshot_metadata :: "pyval \<Rightarrow> payload res" where
  "snapshot_metadata m =
     (case m of
        PDict d \<Rightarrow> rmap (\<lambda>(k, v). if blank k then Inl (vector_error ''Vector metadata keys must be non-blank strings.'')
            else if scalar v then Inr (k, v)
            else Inl (vector_error ''Vector metadata values must be finite JSON scalars.'')) d
      | _ \<Rightarrow> Inl (vector_error ''Vector metadata must be a mapping.''))"

section \<open>Records and matches\<close>

record vector_record =
  vr_id :: string
  vr_vector :: "real list"
  vr_metadata :: payload

definition mk_vector_record :: "math_lib \<Rightarrow> pyval \<Rightarrow> pyval \<Rightarrow> pyval \<Rightarrow> vector_record res" where
  "mk_vector_record M i vector metadata =
     (if \<not> nonblank_str i then Inl (vector_error ''VectorRecord.id must be a non-blank string.'')
      else rbind (normalize_vector M vector None ''Record vector'') (\<lambda>v.
        rbind (snapshot_metadata metadata) (\<lambda>m. Inr \<lparr>vr_id = the_str i, vr_vector = v, vr_metadata = m\<rparr>)))"

record vector_match =
  vm_id :: string
  vm_score :: real
  vm_metadata :: payload

definition mk_vector_match :: "pyval \<Rightarrow> pyval \<Rightarrow> pyval \<Rightarrow> vector_match res" where
  "mk_vector_match i score metadata =
     (if \<not> nonblank_str i then Inl (vector_error ''VectorMatch.id must be a non-blank string.'')
      else rbind (case score of PInt n \<Rightarrow> float_of_int n | PFloat f \<Rightarrow> Inr f
          | _ \<Rightarrow> Inl (vector_error ''VectorMatch.score must be a real number.'')) (\<lambda>f.
        case f of
          Fin x \<Rightarrow> if - 1 \<le> x \<and> x \<le> 1
            then rbind (snapshot_metadata metadata) (\<lambda>m. Inr \<lparr>vm_id = the_str i, vm_score = x, vm_metadata = m\<rparr>)
            else Inl (vector_error ''VectorMatch.score must be finite and between -1 and 1.'')
        | _ \<Rightarrow> Inl (vector_error ''VectorMatch.score must be finite and between -1 and 1.'')))"

section \<open>The store\<close>

record vector_store =
  vs_dimensions :: int
  vs_namespaces :: "(string, (string, vector_record) dict) dict"

definition new_vector_store :: "pyval \<Rightarrow> vector_store res" where
  "new_vector_store dimensions =
     (if positive_int dimensions then Inr \<lparr>vs_dimensions = the_int dimensions, vs_namespaces = []\<rparr>
      else Inl (vector_error ''Vector store dimensions must be a positive integer.''))"

text \<open>\<open>[A-Za-z0-9][A-Za-z0-9._-]{0,127}\<close>, matched in full.\<close>

definition alnum :: "char \<Rightarrow> bool" where
  "alnum c = (CHR ''A'' \<le> c \<and> c \<le> CHR ''Z'' \<or> CHR ''a'' \<le> c \<and> c \<le> CHR ''z'' \<or> CHR ''0'' \<le> c \<and> c \<le> CHR ''9'')"

definition namespace_char :: "char \<Rightarrow> bool" where
  "namespace_char c = (alnum c \<or> c = CHR ''.'' \<or> c = CHR ''_'' \<or> c = CHR ''-'')"

definition namespace_pattern :: regex where
  "namespace_pattern = Seq (Chars alnum) (Upto 127 (Chars namespace_char))"

definition validate_namespace :: "pyval \<Rightarrow> string res" where
  "validate_namespace n =
     (case n of
        PStr s \<Rightarrow> if full_match namespace_pattern s then Inr s else Inl (vector_error ''Vector namespace has an invalid format.'')
      | _ \<Rightarrow> Inl (vector_error ''Vector namespace has an invalid format.''))"

fun check_ids :: "string list \<Rightarrow> pyval list \<Rightarrow> string list res" where
  "check_ids seen [] = Inr []"
| "check_ids seen (i # xs) =
     (if \<not> nonblank_str i then Inl (vector_error ''Vector record IDs must be non-blank strings.'')
      else if the_str i \<in> set seen then Inl (vector_error ''Vector record IDs must not contain duplicates.'')
      else rbind (check_ids (the_str i # seen) xs) (\<lambda>ids. Inr (the_str i # ids)))"

definition validate_record_ids :: "pyval \<Rightarrow> string list res" where
  "validate_record_ids ids =
     (case ids of PTuple xs \<Rightarrow> check_ids [] xs | _ \<Rightarrow> Inl (vector_error ''Vector record IDs must be a tuple.''))"

text \<open>
  What \<open>upsert\<close> may be given as \<open>records\<close>: a tuple, each of whose items is a \<open>VectorRecord\<close>
  or another object, or an object of the plain values, which may be a tuple as well.
  \<open>upsert_items\<close> is \<open>isinstance(records, tuple)\<close> with the items.
\<close>

datatype upsert_item = VRecord vector_record | VOther pyval

datatype upsert_records = VTuple "upsert_item list" | VObject pyval

fun upsert_items :: "upsert_records \<Rightarrow> upsert_item list option" where
  "upsert_items (VTuple items) = Some items"
| "upsert_items (VObject (PTuple xs)) = Some (map VOther xs)"
| "upsert_items (VObject v) = None"

fun check_batch :: "int \<Rightarrow> string list \<Rightarrow> upsert_item list \<Rightarrow> vector_record list res" where
  "check_batch n seen [] = Inr []"
| "check_batch n seen (VOther v # items) = Inl (vector_error ''Vector upsert accepts only VectorRecord values.'')"
| "check_batch n seen (VRecord r # items) =
     (if vr_id r \<in> set seen then Inl (vector_error ''Vector upsert batch contains a duplicate record ID.'')
      else if int (length (vr_vector r)) \<noteq> n then Inl (vector_error ''Vector record has the wrong dimensions for this store.'')
      else rbind (check_batch n (vr_id r # seen) items) (\<lambda>validated. Inr (r # validated)))"

definition namespace_records :: "vector_store \<Rightarrow> string \<Rightarrow> (string, vector_record) dict" where
  "namespace_records S ns = (case map_of (vs_namespaces S) ns of Some t \<Rightarrow> t | None \<Rightarrow> [])"

definition vector_upsert :: "upsert_records \<Rightarrow> pyval \<Rightarrow> (vector_store, unit) py" where
  "vector_upsert records namespace = (\<lambda>S.
     case rbind (validate_namespace namespace) (\<lambda>ns.
       case upsert_items records of
         None \<Rightarrow> Inl (vector_error ''Vector upsert requires a non-empty record tuple.'')
       | Some items \<Rightarrow>
           if items = [] then Inl (vector_error ''Vector upsert requires a non-empty record tuple.'')
           else rbind (check_batch (vs_dimensions S) [] items) (\<lambda>validated. Inr (ns, validated))) of
       Inl e \<Rightarrow> (Inl e, S)
     | Inr (ns, validated) \<Rightarrow> (Inr (), S\<lparr>vs_namespaces := AList.update ns
         (dict_update (namespace_records S ns) (map (\<lambda>r. (vr_id r, r)) validated)) (vs_namespaces S)\<rparr>))"

text \<open>Sorted by descending score, then by id.\<close>

definition match_key :: "vector_match \<Rightarrow> real \<times> string" where
  "match_key m = (- vm_score m, vm_id m)"

definition score_record :: "math_lib \<Rightarrow> real list \<Rightarrow> vector_record \<Rightarrow> vector_match res" where
  "score_record M q r = rbind (cosine_similarity M q (vr_vector r)) (\<lambda>s.
     mk_vector_match (PStr (vr_id r)) (PFloat s) (PDict (vr_metadata r)))"

definition vector_query :: "math_lib \<Rightarrow> vector_store \<Rightarrow> pyval \<Rightarrow> pyval \<Rightarrow> pyval \<Rightarrow> vector_match list res" where
  "vector_query M S vector namespace limit =
     rbind (validate_namespace namespace) (\<lambda>ns.
       if \<not> positive_int limit then Inl (vector_error ''Vector query limit must be a positive integer.'')
       else rbind (normalize_vector M vector (Some (vs_dimensions S)) ''Query vector'') (\<lambda>q.
         rbind (rmap (score_record M q) (map snd (namespace_records S ns))) (\<lambda>matches.
           Inr (take (nat (the_int limit)) (sort_key match_key matches)))))"

definition vector_fetch :: "vector_store \<Rightarrow> pyval \<Rightarrow> pyval \<Rightarrow> vector_record list res" where
  "vector_fetch S ids namespace =
     rbind (validate_namespace namespace) (\<lambda>ns. rbind (validate_record_ids ids) (\<lambda>is.
       Inr (List.map_filter (map_of (namespace_records S ns)) is)))"

definition vector_delete :: "pyval \<Rightarrow> pyval \<Rightarrow> (vector_store, unit) py" where
  "vector_delete ids namespace = (\<lambda>S.
     case rbind (validate_namespace namespace) (\<lambda>ns. rbind (validate_record_ids ids) (\<lambda>is. Inr (ns, is))) of
       Inl e \<Rightarrow> (Inl e, S)
     | Inr (ns, is) \<Rightarrow> (Inr (),
         if has_key ns (vs_namespaces S)
         then let records = fold AList.delete is (namespace_records S ns) in
           S\<lparr>vs_namespaces := (if records = [] then AList.delete ns (vs_namespaces S)
                               else AList.update ns records (vs_namespaces S))\<rparr>
         else S))"

section \<open>What the constructors give\<close>

text \<open>A \<open>float\<close> of the interpreter is a double.\<close>

definition doubles :: "pyval \<Rightarrow> bool" where
  "doubles v \<longleftrightarrow> (\<forall>xs. sequence_items v = Some xs \<longrightarrow> (\<forall>x. PFloat (Fin x) \<in> set xs \<longrightarrow> binary64 x))"

definition record_made :: "math_lib \<Rightarrow> vector_record \<Rightarrow> bool" where
  "record_made M r \<longleftrightarrow> (\<exists>i v m. doubles v \<and> mk_vector_record M i v m = Inr r)"

lemma convert_component_binary:
  assumes "convert_component field v = Inr x" and "\<And>y. v = PFloat (Fin y) \<Longrightarrow> binary64 y"
  shows "binary64 x"
  using assms by (cases v) (auto simp: convert_component_def float_of_int_def rbind_Inr_iff
      split: pyfloat.splits sum.splits intro: round64_binary)

lemma normalize_vector_InrD:
  assumes "normalize_vector M vector n field = Inr v" and "doubles vector"
  shows "v \<noteq> [] \<and> list_all binary64 v \<and> ml_hypot M v \<noteq> Fin 0 \<and> (\<forall>k. n = Some k \<longrightarrow> int (length v) = k)"
proof -
  obtain x xs where xs: "sequence_items vector = Some (x # xs)" "list_all2 (\<lambda>x y. convert_component field x = Inr y) (x # xs) v"
      and rest: "ml_hypot M v \<noteq> Fin 0" "\<forall>k. n = Some k \<longrightarrow> int (length v) = k"
    using assms(1) by (auto simp: normalize_vector_def rbind_Inr_iff rmap_Inr_iff
        simp del: rmap.simps split: option.splits list.splits if_splits)
  have "\<forall>y. PFloat (Fin y) \<in> set (x # xs) \<longrightarrow> binary64 y" using assms(2) xs(1) by (auto simp: doubles_def)
  with xs(2) have "list_all binary64 v"
    by (elim list_all2_right) (auto intro: convert_component_binary)
  moreover have "v \<noteq> []" using xs(2) by auto
  ultimately show ?thesis using rest by blast
qed

lemma snapshot_metadata_InrD: "snapshot_metadata m = Inr d \<Longrightarrow> snapshot_metadata (PDict d) = Inr d"
proof -
  assume run: "snapshot_metadata m = Inr d"
  then obtain e where m: "m = PDict e" by (cases m) (auto simp: snapshot_metadata_def)
  let ?f = "\<lambda>(k, v). if blank k then Inl (vector_error ''Vector metadata keys must be non-blank strings.'')
            else if scalar v then Inr (k, v) else Inl (vector_error ''Vector metadata values must be finite JSON scalars.'')"
  have "list_all2 (\<lambda>x y. ?f x = Inr y) e d" using run by (simp add: m snapshot_metadata_def rmap_Inr_iff)
  then have "list_all2 (=) e d" by (rule list_all2_mono) (auto split: prod.splits if_splits)
  then have "e = d" by (simp add: list.rel_eq)
  with run m show ?thesis by simp
qed

lemma record_made_facts:
  assumes "record_made M r"
  shows "\<not> blank (vr_id r)" "vr_vector r \<noteq> []" "list_all binary64 (vr_vector r)" "ml_hypot M (vr_vector r) \<noteq> Fin 0"
    "snapshot_metadata (PDict (vr_metadata r)) = Inr (vr_metadata r)"
proof -
  obtain i v m where d: "doubles v" and r: "mk_vector_record M i v m = Inr r" using assms by (auto simp: record_made_def)
  from r obtain w k where w: "nonblank_str i" "normalize_vector M v None ''Record vector'' = Inr w"
      "snapshot_metadata m = Inr k" "r = \<lparr>vr_id = the_str i, vr_vector = w, vr_metadata = k\<rparr>"
    by (auto simp: mk_vector_record_def rbind_Inr_iff split: if_splits)
  show "\<not> blank (vr_id r)" using w(1,4) by (cases i) simp_all
  show "vr_vector r \<noteq> []" "list_all binary64 (vr_vector r)" "ml_hypot M (vr_vector r) \<noteq> Fin 0"
    using normalize_vector_InrD[OF w(2) d] w(4) by simp_all
  show "snapshot_metadata (PDict (vr_metadata r)) = Inr (vr_metadata r)" using snapshot_metadata_InrD[OF w(3)] w(4) by simp
qed

section \<open>The similarity is always defined\<close>

lemma round64_16:
  assumes "\<bar>x\<bar> \<le> 16"
  shows "\<exists>y. round64 x = Fin y \<and> \<bar>y\<bar> \<le> 18 \<and> \<bar>y - x\<bar> \<le> 1"
proof -
  have "\<bar>x\<bar> \<le> 2 ^ 1023" by (rule order_trans[OF assms]) simp
  then obtain y where y: "round64 x = Fin y" "\<bar>y - x\<bar> \<le> \<bar>x\<bar> / 2 ^ 53 + 1 / scale64" using round64_error by blast
  have "\<bar>x\<bar> / 2 ^ 53 + 1 / scale64 \<le> 16 / 2 ^ 53 + 1 / 2 ^ 60" using assms tiny by (intro add_mono divide_right_mono) simp_all
  also have "\<dots> \<le> 1" by simp
  finally show ?thesis using y assms by (intro exI[of _ y]) linarith
qed

text \<open>Dividing a component by the norm of its vector gives at most 3.\<close>

lemma divided_component:
  assumes "hypot_accurate M v" and "ml_hypot M v \<noteq> Fin 0" and "list_all binary64 v" and "x \<in> set v"
  shows "\<exists>q. float_div (Fin x) (ml_hypot M v) = Inr (Fin q) \<and> \<bar>q\<bar> \<le> 3"
proof (cases "ml_hypot M v")
  case (Fin h)
  let ?n = "norm2 v"
  have h: "binary64 h" "\<bar>h - ?n\<bar> < quantum ?n" "h \<noteq> 0" using assms(1,2) Fin by (auto simp: hypot_accurate_def)
  have least: "1 / scale64 \<le> \<bar>h\<bar>" by (rule binary64_least[OF h(1,3)])
  have q: "quantum ?n \<le> ?n / 2 ^ 52 \<or> quantum ?n \<le> 1 / scale64" using quantum_bound[of ?n] by (auto simp: max_def split: if_splits)
  have n2: "?n / 2 ^ 52 \<le> ?n / 2" by (rule divide_left_mono) simp_all
  have pos: "0 < h"
  proof (rule ccontr)
    assume "\<not> 0 < h"
    then have "\<bar>h - ?n\<bar> = \<bar>h\<bar> + ?n" using norm2_nonneg[of v] by linarith
    with h(2) least q n2 norm2_nonneg[of v] show False by linarith
  qed
  have "?n \<le> 2 * h" using h(2) q n2 least pos by linarith
  then have "\<bar>x\<bar> \<le> 2 * h" using component_le_norm2[OF assms(4)] by linarith
  then have "\<bar>x / h\<bar> \<le> 2" using pos by (simp add: abs_divide divide_le_eq)
  then obtain q where q: "round64 (x / h) = Fin q" "\<bar>q - x / h\<bar> \<le> 1" using round64_16[of "x / h"] by auto
  then have "\<bar>q\<bar> \<le> 3" using \<open>\<bar>x / h\<bar> \<le> 2\<close> by linarith
  then show ?thesis using Fin h(3) q(1) by simp
next
  case PosInf
  then show ?thesis by simp
qed (use assms(1) in \<open>auto simp: hypot_accurate_def\<close>)

lemma terms_total:
  assumes "length l = length r"
    and "\<forall>x \<in> set l. \<exists>q. float_div (Fin x) g = Inr (Fin q) \<and> \<bar>q\<bar> \<le> 3"
    and "\<forall>y \<in> set r. \<exists>q. float_div (Fin y) h = Inr (Fin q) \<and> \<bar>q\<bar> \<le> 3"
  shows "\<exists>ps. cosine_terms g h l r = Inr (map Fin ps) \<and> \<bar>sum_list ps\<bar> \<le> 18 * real (length l)"
  using assms
proof (induction l r rule: list_induct2)
  case (Cons x xs y ys)
  obtain a where a: "float_div (Fin x) g = Inr (Fin a)" "\<bar>a\<bar> \<le> 3" using Cons.prems(1) by auto
  obtain b where b: "float_div (Fin y) h = Inr (Fin b)" "\<bar>b\<bar> \<le> 3" using Cons.prems(2) by auto
  have "\<bar>a * b\<bar> \<le> 3 * 3" unfolding abs_mult using a(2) b(2) by (intro mult_mono) simp_all
  then obtain p where p: "round64 (a * b) = Fin p" "\<bar>p\<bar> \<le> 18" using round64_16[of "a * b"] by auto
  obtain ps where ps: "cosine_terms g h xs ys = Inr (map Fin ps)" "\<bar>sum_list ps\<bar> \<le> 18 * real (length xs)"
    using Cons.IH Cons.prems by auto
  have "cosine_terms g h (x # xs) (y # ys) = Inr (map Fin (p # ps))" using a(1) b(1) p(1) ps(1) by (simp del: float_div.simps)
  moreover have "\<bar>sum_list (p # ps)\<bar> \<le> 18 * real (length (x # xs))"
    using p(2) ps(2) abs_triangle_ineq[of p "sum_list ps"] by simp
  ultimately show ?case by blast
qed (intro exI[of _ "[]"], simp)

lemma similarity_total:
  assumes "length l = length r" and "real (length l) \<le> 2 ^ 1000"
    and "hypot_accurate M l" "ml_hypot M l \<noteq> Fin 0" "list_all binary64 l"
    and "hypot_accurate M r" "ml_hypot M r \<noteq> Fin 0" "list_all binary64 r"
  shows "\<exists>s. cosine_similarity M l r = Inr (Fin s) \<and> - 1 \<le> s \<and> s \<le> 1"
proof -
  obtain ps where ps: "cosine_terms (ml_hypot M l) (ml_hypot M r) l r = Inr (map Fin ps)"
      "\<bar>sum_list ps\<bar> \<le> 18 * real (length l)"
    using terms_total[OF assms(1)] divided_component[OF assms(3-5)] divided_component[OF assms(6-8)] by blast
  have "\<bar>sum_list ps\<bar> \<le> 18 * 2 ^ 1000" using ps(2) assms(2) by linarith
  also have "\<dots> \<le> 2 ^ 1023" by simp
  finally obtain a where a: "round64 (sum_list ps) = Fin a" using round64_finite by blast
  obtain s where "clamp (Fin a) = Fin s" "- 1 \<le> s" "s \<le> 1" using clamp_bounds by blast
  then show ?thesis by (simp add: cosine_similarity_def ps(1) fsum_Fin a)
qed

section \<open>Every sequence of calls\<close>

definition records_ok :: "math_lib \<Rightarrow> int \<Rightarrow> (string, vector_record) dict \<Rightarrow> bool" where
  "records_ok M n t \<longleftrightarrow> t \<noteq> [] \<and> keyed_by vr_id t
     \<and> (\<forall>(i, r) \<in> set t. record_made M r \<and> int (length (vr_vector r)) = n)"

definition store_ok :: "math_lib \<Rightarrow> vector_store \<Rightarrow> bool" where
  "store_ok M S \<longleftrightarrow> 0 < vs_dimensions S \<and> dict_ok (vs_namespaces S)
     \<and> (\<forall>(ns, t) \<in> set (vs_namespaces S). full_match namespace_pattern ns \<and> records_ok M (vs_dimensions S) t)"

datatype vector_call = Upsert upsert_records pyval | Delete pyval pyval

fun make_call :: "vector_call \<Rightarrow> (vector_store, unit) py" where
  "make_call (Upsert records ns) = vector_upsert records ns"
| "make_call (Delete ids ns) = vector_delete ids ns"

fun vector_calls :: "vector_call list \<Rightarrow> vector_store \<Rightarrow> unit res list \<times> vector_store" where
  "vector_calls [] S = ([], S)"
| "vector_calls (c # cs) S = (case make_call c S of (x, S1) \<Rightarrow> case vector_calls cs S1 of (xs, S2) \<Rightarrow> (x # xs, S2))"

text \<open>The specification: a map from namespaces and ids to records, and the calls that are accepted.\<close>

type_synonym contents = "string \<Rightarrow> string \<rightharpoonup> vector_record"

definition content :: "vector_store \<Rightarrow> contents" where
  "content S ns = map_of (namespace_records S ns)"

definition namespace_ok :: "pyval \<Rightarrow> bool" where
  "namespace_ok n \<longleftrightarrow> (case n of PStr s \<Rightarrow> full_match namespace_pattern s | _ \<Rightarrow> False)"

definition ids_ok :: "pyval \<Rightarrow> string list \<Rightarrow> bool" where
  "ids_ok v ids \<longleftrightarrow> v = PTuple (map PStr ids) \<and> distinct ids \<and> (\<forall>i \<in> set ids. \<not> blank i)"

definition ids_in :: "pyval \<Rightarrow> string list" where
  "ids_in v = (case v of PTuple xs \<Rightarrow> map the_str xs | _ \<Rightarrow> [])"

text \<open>The records of an argument that is a tuple of nothing but records.\<close>

fun all_records :: "upsert_item list \<Rightarrow> vector_record list option" where
  "all_records [] = Some []"
| "all_records (VRecord r # items) = map_option (Cons r) (all_records items)"
| "all_records (VOther v # items) = None"

fun records_in :: "upsert_records \<Rightarrow> vector_record list option" where
  "records_in (VTuple items) = all_records items"
| "records_in (VObject v) = None"

fun spec_accepts :: "int \<Rightarrow> vector_call \<Rightarrow> bool" where
  "spec_accepts n (Upsert records ns) \<longleftrightarrow> namespace_ok ns \<and> (case records_in records of
       None \<Rightarrow> False
     | Some rs \<Rightarrow> rs \<noteq> [] \<and> distinct (map vr_id rs) \<and> (\<forall>r \<in> set rs. int (length (vr_vector r)) = n))"
| "spec_accepts n (Delete ids ns) \<longleftrightarrow> namespace_ok ns \<and> ids_ok ids (ids_in ids)"

fun spec_effect :: "vector_call \<Rightarrow> contents \<Rightarrow> contents" where
  "spec_effect (Upsert records ns) C = (case records_in records of
       None \<Rightarrow> C
     | Some rs \<Rightarrow> C(the_str ns := C (the_str ns) ++ map_of (map (\<lambda>r. (vr_id r, r)) rs)))"
| "spec_effect (Delete ids ns) C = C(the_str ns := C (the_str ns) |` (- set (ids_in ids)))"

fun spec_calls :: "int \<Rightarrow> vector_call list \<Rightarrow> contents \<Rightarrow> bool list \<times> contents" where
  "spec_calls n [] C = ([], C)"
| "spec_calls n (c # cs) C =
     (case spec_calls n cs (if spec_accepts n c then spec_effect c C else C) of (oks, C') \<Rightarrow> (spec_accepts n c # oks, C'))"

definition refusal :: "'a res \<Rightarrow> bool" where
  "refusal r \<longleftrightarrow> (\<exists>e. r = Inl e \<and> exn_isa VectorStoreError e)"

lemma refusal_simps [simp]: "refusal (Inl e) \<longleftrightarrow> exn_isa VectorStoreError e" "\<not> refusal (Inr x)"
  by (simp_all add: refusal_def)

lemma vector_error_class [simp]: "exn_isa VectorStoreError (vector_error m)"
  by (simp add: vector_error_def)

lemma refusal_rbind [simp]: "refusal r \<Longrightarrow> refusal (rbind r f)"
  by (auto simp: refusal_def)

lemma validate_namespace_cases:
  "if namespace_ok v then validate_namespace v = Inr (the_str v)
   else refusal (validate_namespace v)"
  by (cases v) (simp_all add: namespace_ok_def validate_namespace_def)

lemma check_ids_cases:
  "if xs = map PStr (map the_str xs) \<and> distinct (map the_str xs) \<and> set (map the_str xs) \<inter> set seen = {}
      \<and> (\<forall>i \<in> set (map the_str xs). \<not> blank i)
   then check_ids seen xs = Inr (map the_str xs) else refusal (check_ids seen xs)"
proof (induction seen xs rule: check_ids.induct)
  case (2 seen i xs)
  show ?case
  proof (cases "nonblank_str i \<and> the_str i \<notin> set seen")
    case True
    then obtain s where i: "i = PStr s" "\<not> blank s" "s \<notin> set seen" by (cases i) auto
    from 2 True have IH: "if xs = map PStr (map the_str xs) \<and> distinct (map the_str xs)
        \<and> set (map the_str xs) \<inter> set (the_str i # seen) = {} \<and> (\<forall>i \<in> set (map the_str xs). \<not> blank i)
      then check_ids (the_str i # seen) xs = Inr (map the_str xs)
      else refusal (check_ids (the_str i # seen) xs)" by blast
    show ?thesis using IH i by (auto split: if_splits)
  next
    case False
    then show ?thesis by (cases i) auto
  qed
qed simp

lemma validate_ids_cases:
  "if ids_ok v (ids_in v) then validate_record_ids v = Inr (ids_in v)
   else refusal (validate_record_ids v)"
  using check_ids_cases[where seen = "[]"]
  by (cases v) (auto simp: ids_ok_def ids_in_def validate_record_ids_def)

lemma check_batch_records:
  "if distinct (map vr_id rs) \<and> set (map vr_id rs) \<inter> set seen = {} \<and> (\<forall>r \<in> set rs. int (length (vr_vector r)) = n)
   then check_batch n seen (map VRecord rs) = Inr rs else refusal (check_batch n seen (map VRecord rs))"
  by (induction rs arbitrary: seen) (auto split: if_splits)

lemma all_records_Some: "all_records items = Some rs \<longleftrightarrow> items = map VRecord rs"
proof (induction items arbitrary: rs rule: all_records.induct)
  case (2 r items)
  then show ?case by (cases rs) auto
qed auto

lemma check_batch_other: "all_records items = None \<Longrightarrow> refusal (check_batch n seen items)"
  by (induction n seen items rule: check_batch.induct) auto

lemma upsert_refused:
  "records_in records = None \<or> records_in records = Some [] \<Longrightarrow>
    refusal (fst (vector_upsert records v S)) \<and> snd (vector_upsert records v S) = S"
proof (cases "upsert_items records")
  case None
  then show ?thesis
    using validate_namespace_cases[of v] by (auto simp: vector_upsert_def refusal_def split: if_splits)
next
  case (Some items)
  assume refused: "records_in records = None \<or> records_in records = Some []"
  have "items = [] \<or> all_records items = None"
  proof (cases records)
    case (VTuple xs)
    with Some refused show ?thesis by (auto simp: all_records_Some)
  next
    case (VObject u)
    with Some obtain xs where "items = map VOther xs" by (cases u) auto
    then show ?thesis by (cases xs) simp_all
  qed
  then have "items = [] \<or> refusal (check_batch (vs_dimensions S) [] items)" using check_batch_other by blast
  then show ?thesis
    using validate_namespace_cases[of v] Some by (auto simp: vector_upsert_def refusal_def split: if_splits)
qed

lemma upsert_cases:
  "if spec_accepts (vs_dimensions S) (Upsert records v)
   then vector_upsert records v S = (Inr (), S\<lparr>vs_namespaces := AList.update (the_str v)
     (dict_update (namespace_records S (the_str v)) (map (\<lambda>r. (vr_id r, r)) (the (records_in records)))) (vs_namespaces S)\<rparr>)
   else refusal (fst (vector_upsert records v S)) \<and> snd (vector_upsert records v S) = S"
proof (cases "records_in records")
  case None
  then show ?thesis using upsert_refused[of records v S] by simp
next
  case (Some rs)
  show ?thesis
  proof (cases "rs = []")
    case True
    then show ?thesis using upsert_refused[of records v S] Some by simp
  next
    case False
    have "records = VTuple (map VRecord rs)" using Some by (cases records) (simp_all add: all_records_Some)
    then show ?thesis
      using validate_namespace_cases[of v] check_batch_records[of rs "[]" "vs_dimensions S"] Some False
      by (auto simp: vector_upsert_def refusal_def split: if_splits)
  qed
qed

lemma delete_cases:
  "if spec_accepts (vs_dimensions S) (Delete ids v)
   then vector_delete ids v S = (Inr (),
     if has_key (the_str v) (vs_namespaces S)
     then let records = fold AList.delete (ids_in ids) (namespace_records S (the_str v)) in
       S\<lparr>vs_namespaces := (if records = [] then AList.delete (the_str v) (vs_namespaces S)
                           else AList.update (the_str v) records (vs_namespaces S))\<rparr>
     else S)
   else refusal (fst (vector_delete ids v S)) \<and> snd (vector_delete ids v S) = S"
  using validate_namespace_cases[of v] validate_ids_cases[of ids]
  by (auto simp: vector_delete_def refusal_def split: if_splits)

lemma content_put [simp]:
  "content (S\<lparr>vs_namespaces := AList.update ns t (vs_namespaces S)\<rparr>) = (content S)(ns := map_of t)"
  by (rule ext) (simp add: content_def namespace_records_def)

lemma content_drop [simp]:
  "content (S\<lparr>vs_namespaces := AList.delete ns (vs_namespaces S)\<rparr>) = (content S)(ns := Map.empty)"
  by (rule ext) (simp add: content_def namespace_records_def)

lemma map_of_fold_delete: "map_of (fold AList.delete ids d) = map_of d |` (- set ids)"
  by (induction ids arbitrary: d) (auto simp: restrict_map_def fun_eq_iff)

lemma set_fold_delete: "set (fold AList.delete ids d) \<subseteq> set d"
  by (induction ids arbitrary: d) (simp, force)

lemma keyed_fold_delete: "keyed_by key_of d \<Longrightarrow> keyed_by key_of (fold AList.delete ids d)"
  by (induction ids arbitrary: d) (auto intro: keyed_by_delete)

lemma set_dict_update: "set (dict_update d e) \<subseteq> set d \<union> set e"
  by (induction d e rule: dict_update.induct) (auto dest: set_update_cases)

lemma dict_update_nonempty: "e \<noteq> [] \<Longrightarrow> dict_update d e \<noteq> []"
proof (induction d e rule: dict_update.induct)
  case (2 d k v e)
  have "AList.update k v d \<noteq> []" by (cases d) auto
  with 2 show ?case by (cases "e = []") auto
qed simp

lemma store_ok_records:
  assumes "store_ok M S"
  shows "keyed_by vr_id (namespace_records S ns)"
    and "(i, r) \<in> set (namespace_records S ns) \<Longrightarrow> record_made M r \<and> int (length (vr_vector r)) = vs_dimensions S"
proof -
  have known: "records_ok M (vs_dimensions S) t" if "map_of (vs_namespaces S) ns = Some t" for t
    using assms map_of_SomeD[OF that] by (auto simp: store_ok_def)
  have empty: "keyed_by vr_id []" by (simp add: keyed_by_def)
  show "keyed_by vr_id (namespace_records S ns)"
    using known empty by (cases "map_of (vs_namespaces S) ns") (simp_all add: namespace_records_def records_ok_def)
  show "(i, r) \<in> set (namespace_records S ns) \<Longrightarrow> record_made M r \<and> int (length (vr_vector r)) = vs_dimensions S"
    using known by (cases "map_of (vs_namespaces S) ns") (auto simp: namespace_records_def records_ok_def)
qed

lemma records_ok_upsert:
  assumes "keyed_by vr_id d" and "\<And>i r. (i, r) \<in> set d \<Longrightarrow> record_made M r \<and> int (length (vr_vector r)) = n"
    and "rs \<noteq> []" and "\<forall>r \<in> set rs. record_made M r \<and> int (length (vr_vector r)) = n"
  shows "records_ok M n (dict_update d (map (\<lambda>r. (vr_id r, r)) rs))"
proof -
  let ?e = "map (\<lambda>r. (vr_id r, r)) rs"
  have all: "i = vr_id r \<and> record_made M r \<and> int (length (vr_vector r)) = n" if "(i, r) \<in> set (dict_update d ?e)" for i r
    using set_dict_update[of d ?e] that assms(1,2,4) by (auto simp: keyed_by_def)
  have "dict_ok (dict_update d ?e)" using assms(1) by (auto simp: keyed_by_def)
  then show ?thesis using all assms(3) by (auto simp: records_ok_def keyed_by_def dict_update_nonempty)
qed

lemma store_ok_put:
  assumes "store_ok M S" and "full_match namespace_pattern ns" and "records_ok M (vs_dimensions S) t"
  shows "store_ok M (S\<lparr>vs_namespaces := AList.update ns t (vs_namespaces S)\<rparr>)"
  using assms by (auto simp: store_ok_def dest!: set_update_cases)

lemma store_ok_drop: "store_ok M S \<Longrightarrow> store_ok M (S\<lparr>vs_namespaces := AList.delete ns (vs_namespaces S)\<rparr>)"
  by (auto simp: store_ok_def)

lemma namespace_ok_match: "namespace_ok v \<Longrightarrow> full_match namespace_pattern (the_str v)"
  by (cases v) (simp_all add: namespace_ok_def)

text \<open>Every \<open>VectorRecord\<close> a call is given was made by its constructor.\<close>

definition call_made :: "math_lib \<Rightarrow> vector_call \<Rightarrow> bool" where
  "call_made M c \<longleftrightarrow> (\<forall>items ns r. c = Upsert (VTuple items) ns \<longrightarrow> VRecord r \<in> set items \<longrightarrow> record_made M r)"

lemma call_refines:
  assumes "store_ok M S" and "call_made M c" and "make_call c S = (x, S')"
  shows "store_ok M S' \<and> vs_dimensions S' = vs_dimensions S \<and> (x = Inr () \<longleftrightarrow> spec_accepts (vs_dimensions S) c)
    \<and> (x = Inr () \<or> refusal x \<and> S' = S)
    \<and> content S' = (if spec_accepts (vs_dimensions S) c then spec_effect c (content S) else content S)"
proof (cases c)
  case (Upsert records v)
  show ?thesis
  proof (cases "spec_accepts (vs_dimensions S) c")
    case True
    then obtain rs where rs: "records_in records = Some rs" using Upsert by (auto split: option.splits)
    then have items: "records = VTuple (map VRecord rs)" by (cases records) (simp_all add: all_records_Some)
    let ?t = "dict_update (namespace_records S (the_str v)) (map (\<lambda>r. (vr_id r, r)) rs)"
    have S': "x = Inr ()" "S' = S\<lparr>vs_namespaces := AList.update (the_str v) ?t (vs_namespaces S)\<rparr>"
      using assms(3) upsert_cases[of S records v] True Upsert rs by auto
    have acc: "namespace_ok v" "rs \<noteq> []" "distinct (map vr_id rs)" "\<forall>r \<in> set rs. int (length (vr_vector r)) = vs_dimensions S"
      using True Upsert rs by auto
    have "records_ok M (vs_dimensions S) ?t"
      using store_ok_records[OF assms(1)] acc(2,4) assms(2) Upsert items by (intro records_ok_upsert) (auto simp: call_made_def)
    then have "store_ok M S'" unfolding S'(2) by (intro store_ok_put[OF assms(1) namespace_ok_match[OF acc(1)]])
    moreover have "map_of ?t = map_of (namespace_records S (the_str v)) ++ map_of (map (\<lambda>r. (vr_id r, r)) rs)"
      using acc(3) by (intro ext) (simp add: map_of_dict_update map_add_def dict_ok_def comp_def)
    ultimately show ?thesis using True Upsert S' rs by (simp add: content_def[of S])
  next
    case False
    then have "refusal x" "S' = S"
      using upsert_cases[of S records v] assms(3) unfolding Upsert by (simp_all del: spec_accepts.simps)
    then show ?thesis using False assms(1) by (auto simp: refusal_def)
  qed
next
  case (Delete ids v)
  let ?ns = "the_str v" and ?d = "namespace_records S (the_str v)"
  let ?t = "fold AList.delete (ids_in ids) ?d"
  show ?thesis
  proof (cases "spec_accepts (vs_dimensions S) c")
    case True
    have S': "x = Inr ()" "S' = (if has_key ?ns (vs_namespaces S)
       then S\<lparr>vs_namespaces := (if ?t = [] then AList.delete ?ns (vs_namespaces S) else AList.update ?ns ?t (vs_namespaces S))\<rparr>
       else S)" using assms(3) delete_cases[of S ids v] True Delete by (auto simp: Let_def)
    have ns: "full_match namespace_pattern ?ns" using True Delete by (auto intro: namespace_ok_match)
    have t: "map_of ?t = content S ?ns |` (- set (ids_in ids))" by (simp add: map_of_fold_delete content_def)
    have "records_ok M (vs_dimensions S) ?t" if "?t \<noteq> []"
      using that store_ok_records[OF assms(1)] set_fold_delete[of "ids_in ids" ?d] keyed_fold_delete[of vr_id ?d]
      by (auto simp: records_ok_def)
    then have ok: "store_ok M S'" unfolding S'(2)
      using assms(1) store_ok_put[OF assms(1) ns] store_ok_drop[OF assms(1)] by auto
    have "content S' = (content S)(?ns := content S ?ns |` (- set (ids_in ids)))"
    proof (cases "has_key ?ns (vs_namespaces S)")
      case True
      with t show ?thesis by (cases "?t = []") (auto simp: S'(2))
    next
      case False
      then have "map_of (vs_namespaces S) ?ns = None" by (simp add: has_key_iff map_of_eq_None_iff)
      then have "?d = []" by (simp add: namespace_records_def)
      then have "content S ?ns = Map.empty" by (simp add: content_def)
      then show ?thesis using False by (simp add: S'(2) restrict_map_def fun_eq_iff)
    qed
    moreover have "vs_dimensions S' = vs_dimensions S" by (simp add: S'(2))
    ultimately show ?thesis using True Delete ok S'(1) by simp
  next
    case False
    then have "refusal x" "S' = S"
      using delete_cases[of S ids v] assms(3) unfolding Delete by (simp_all del: spec_accepts.simps)
    then show ?thesis using False assms(1) by (auto simp: refusal_def)
  qed
qed

lemma calls_refine:
  assumes "store_ok M S" and "\<forall>c \<in> set cs. call_made M c" and "vector_calls cs S = (xs, S')"
  shows "store_ok M S' \<and> vs_dimensions S' = vs_dimensions S
    \<and> spec_calls (vs_dimensions S) cs (content S) = (map (\<lambda>x. x = Inr ()) xs, content S')
    \<and> (\<forall>x \<in> set xs. x = Inr () \<or> refusal x)"
  using assms
proof (induction cs arbitrary: S xs)
  case (Cons c cs)
  obtain x S1 where x: "make_call c S = (x, S1)" by (cases "make_call c S")
  obtain ys where ys: "vector_calls cs S1 = (ys, S')" "xs = x # ys"
    using Cons.prems(3) x by (auto split: prod.splits)
  have made: "call_made M c" "\<forall>c \<in> set cs. call_made M c" using Cons.prems(2) by auto
  note step = call_refines[OF Cons.prems(1) made(1) x]
  from step have ok: "store_ok M S1" and dims: "vs_dimensions S1 = vs_dimensions S"
    and acc: "x = Inr () \<longleftrightarrow> spec_accepts (vs_dimensions S) c" and fine: "x = Inr () \<or> refusal x"
    and after: "content S1 = (if spec_accepts (vs_dimensions S) c then spec_effect c (content S) else content S)" by blast+
  note IH = Cons.IH[OF ok made(2) ys(1)]
  have "spec_accepts (vs_dimensions S) c \<or> refusal x" using fine acc by blast
  with IH acc show ?case by (simp add: ys(2) dims flip: after)
qed simp

text \<open>C40 In every sequence of upserts and deletes on a new store, whatever objects they are given,
  the store accepts exactly the calls the specification accepts (an upsert only of a non-empty
  tuple of nothing but records), refuses the others with \<open>VectorStoreError\<close> and without any
  effect, a fetch gives what the specification's map holds under the requested ids in their
  order and refuses other arguments, and every stored record has the store's dimensions.\<close>

theorem vector_store_refines_map:
  assumes "new_vector_store dims = Inr S" and "\<forall>c \<in> set cs. call_made M c" and "vector_calls cs S = (xs, S')"
  shows "\<exists>C. spec_calls (vs_dimensions S) cs (\<lambda>_. Map.empty) = (map (\<lambda>x. x = Inr ()) xs, C)
    \<and> (\<forall>x \<in> set xs. x = Inr () \<or> (\<exists>e. x = Inl e \<and> exn_isa VectorStoreError e))
    \<and> (\<forall>ns r i. C ns i = Some r \<longrightarrow> vr_id r = i \<and> int (length (vr_vector r)) = the_int dims)
    \<and> (\<forall>ns ids. full_match namespace_pattern ns \<and> distinct ids \<and> (\<forall>i \<in> set ids. \<not> blank i)
         \<longrightarrow> vector_fetch S' (PTuple (map PStr ids)) (PStr ns) = Inr (List.map_filter (C ns) ids))
    \<and> (\<forall>ns ids. \<not> (namespace_ok ns \<and> ids_ok ids (ids_in ids)) \<longrightarrow>
         (\<exists>e. vector_fetch S' ids ns = Inl e \<and> exn_isa VectorStoreError e))"
proof -
  have S: "store_ok M S" "content S = (\<lambda>_. Map.empty)" "vs_dimensions S = the_int dims"
    using assms(1) by (auto simp: new_vector_store_def store_ok_def content_def namespace_records_def positive_int_def
        split: if_splits pyval.splits)
  note run = calls_refine[OF S(1) assms(2,3), unfolded S(2)]
  then have ok: "store_ok M S'" and dims: "vs_dimensions S' = the_int dims" using S(3) by simp_all
  have stored: "vr_id r = i \<and> int (length (vr_vector r)) = the_int dims" if "content S' ns i = Some r" for ns i r
    using map_of_SomeD[OF that[unfolded content_def]] store_ok_records[OF ok, where ns = ns] dims by (auto simp: keyed_by_def)
  have fetched: "vector_fetch S' (PTuple (map PStr ids)) (PStr ns) = Inr (List.map_filter (content S' ns) ids)"
    if "full_match namespace_pattern ns \<and> distinct ids \<and> (\<forall>i \<in> set ids. \<not> blank i)" for ns ids
  proof -
    have ids: "ids_in (PTuple (map PStr ids)) = ids" by (simp add: ids_in_def comp_def)
    then have "validate_record_ids (PTuple (map PStr ids)) = Inr ids"
      using validate_ids_cases[of "PTuple (map PStr ids)"] that by (simp add: ids_ok_def)
    then show ?thesis using that by (simp add: vector_fetch_def validate_namespace_def content_def)
  qed
  have refused: "\<exists>e. vector_fetch S' ids ns = Inl e \<and> exn_isa VectorStoreError e"
    if "\<not> (namespace_ok ns \<and> ids_ok ids (ids_in ids))" for ns ids
    using that validate_namespace_cases[of ns] validate_ids_cases[of ids]
    by (auto simp: vector_fetch_def refusal_def split: if_splits)
  from run stored fetched refused show ?thesis by (auto simp: refusal_def)
qed

section \<open>Queries\<close>

lemma score_record_total:
  assumes "record_made M r" and "length (vr_vector r) = length q" and "real (length q) \<le> 2 ^ 1000"
    and "list_all binary64 q" and "ml_hypot M q \<noteq> Fin 0" and "hypot_accurate M q" and "hypot_accurate M (vr_vector r)"
  shows "\<exists>s. cosine_similarity M q (vr_vector r) = Inr (Fin s) \<and> - 1 \<le> s \<and> s \<le> 1
    \<and> score_record M q r = Inr \<lparr>vm_id = vr_id r, vm_score = s, vm_metadata = vr_metadata r\<rparr>"
proof -
  note r = record_made_facts[OF assms(1)]
  obtain s where s: "cosine_similarity M q (vr_vector r) = Inr (Fin s)" "- 1 \<le> s" "s \<le> 1"
    using similarity_total[OF assms(2)[symmetric] assms(3,6,5,4,7) r(4,3)] by blast
  then have "score_record M q r = Inr \<lparr>vm_id = vr_id r, vm_score = s, vm_metadata = vr_metadata r\<rparr>"
    using r(1,5) by (simp add: score_record_def mk_vector_match_def)
  with s show ?thesis by blast
qed

lemma take_sorted:
  assumes "distinct (map f xs)" and "sorted_wrt (\<le>) (map f (xs :: 'a list))"
  shows "sorted_wrt (\<lambda>x y. f x < (f y :: 'b :: linorder)) (take k xs)"
    and "x \<in> set (take k xs) \<Longrightarrow> y \<in> set (drop k xs) \<Longrightarrow> f x < f y"
proof -
  have strict: "sorted_wrt (\<lambda>x y. f x < f y) xs"
    using assms by (auto simp: sorted_wrt_iff_nth_less distinct_conv_nth order.strict_iff_order)
  then have "sorted_wrt (\<lambda>x y. f x < f y) (take k xs @ drop k xs)" by simp
  then show "sorted_wrt (\<lambda>x y. f x < f y) (take k xs)" "x \<in> set (take k xs) \<Longrightarrow> y \<in> set (drop k xs) \<Longrightarrow> f x < f y"
    by (simp_all only: sorted_wrt_append)
qed

lemma in_drop: "x \<in> set xs \<Longrightarrow> x \<notin> set (take k xs) \<Longrightarrow> x \<in> set (drop k xs)"
  by (metis Un_iff append_take_drop_id set_append)

lemma distinct_map_sort: "distinct (map f xs) \<Longrightarrow> distinct (map f (sort_key f xs))"
  by (simp add: distinct_map)

lemma distinct_match_keys: "distinct (map vm_id ms) \<Longrightarrow> distinct (map match_key ms)"
  by (induction ms) (auto simp: match_key_def)

text \<open>C38 Over a store that holds what its constructors made and an accurate \<open>hypot\<close>, a query with
  a valid vector, namespace and limit never raises: it returns the best \<open>limit\<close> records of the
  namespace and no others, each once with its metadata and its similarity, which lies between
  -1 and 1, in descending order of score and then by id, and every record left out comes after
  all of them.\<close>

theorem query_returns_the_best:
  assumes "store_ok M S" and "vs_dimensions S < 2 ^ 63" and "\<And>v. list_all binary64 v \<Longrightarrow> hypot_accurate M v"
    and "full_match namespace_pattern ns" and "0 < k" and "doubles vector"
    and "normalize_vector M vector (Some (vs_dimensions S)) ''Query vector'' = Inr q"
  shows "\<exists>ms. vector_query M S vector (PStr ns) (PInt k) = Inr ms
    \<and> length ms = min (nat k) (length (namespace_records S ns))
    \<and> sorted_wrt (\<lambda>m m'. match_key m < match_key m') ms
    \<and> (\<forall>m \<in> set ms. - 1 \<le> vm_score m \<and> vm_score m \<le> 1 \<and> (\<exists>r. content S ns (vm_id m) = Some r
         \<and> cosine_similarity M q (vr_vector r) = Inr (Fin (vm_score m)) \<and> vm_metadata m = vr_metadata r))
    \<and> (\<forall>i r. content S ns i = Some r \<and> i \<notin> vm_id ` set ms \<longrightarrow>
         (\<exists>s. cosine_similarity M q (vr_vector r) = Inr (Fin s) \<and> (\<forall>m \<in> set ms. match_key m < (- s, i))))"
proof -
  let ?rs = "map snd (namespace_records S ns)"
  let ?score = "\<lambda>r. case cosine_similarity M q (vr_vector r) of Inr (Fin s) \<Rightarrow> s | _ \<Rightarrow> 0"
  let ?match = "\<lambda>r. \<lparr>vm_id = vr_id r, vm_score = ?score r, vm_metadata = vr_metadata r\<rparr>"
  let ?ms = "sort_key match_key (map ?match ?rs)"
  note q = normalize_vector_InrD[OF assms(7,6)]
  have len: "int (length q) = vs_dimensions S" using q by simp
  then have "real (length q) < 2 ^ 63" using assms(2) by (metis of_int_less_numeral_power_cancel_iff of_int_of_nat_eq)
  then have short: "real (length q) \<le> 2 ^ 1000" by (rule order_trans[OF less_imp_le]) simp
  have scored: "cosine_similarity M q (vr_vector r) = Inr (Fin (?score r)) \<and> - 1 \<le> ?score r \<and> ?score r \<le> 1
      \<and> score_record M q r = Inr (?match r)" if r: "r \<in> set ?rs" for r
  proof -
    from r store_ok_records(2)[OF assms(1), of _ r ns] have made: "record_made M r" "int (length (vr_vector r)) = vs_dimensions S" by auto
    then have "length (vr_vector r) = length q" using len by simp
    from score_record_total[OF made(1) this short] q assms(3) record_made_facts(3)[OF made(1)] show ?thesis by auto
  qed
  have run: "vector_query M S vector (PStr ns) (PInt k) = Inr (take (nat k) ?ms)"
    using assms(4,5,7) rmap_map[of ?rs "score_record M q" ?match] scored
    by (simp add: vector_query_def validate_namespace_def positive_int_def)
  have keyed: "keyed_by vr_id (namespace_records S ns)" by (rule store_ok_records(1)[OF assms(1)])
  then have ids: "map vr_id ?rs = keys (namespace_records S ns)" by (auto simp: keyed_by_def)
  have "distinct (map vr_id ?rs)" unfolding ids using keyed by (simp add: keyed_by_def dict_ok_def)
  moreover have "map vm_id (map ?match ?rs) = map vr_id ?rs" by simp
  ultimately have "distinct (map vm_id (map ?match ?rs))" by (simp only:)
  then have "distinct (map match_key (map ?match ?rs))" by (rule distinct_match_keys)
  then have distinct: "distinct (map match_key ?ms)" by (rule distinct_map_sort)
  have sorted: "sorted_wrt (\<le>) (map match_key ?ms)" using sorted_sort_key[of match_key] by blast
  note ordered = take_sorted[OF distinct sorted, where k = "nat k"]
  have found: "content S ns i = Some r \<longleftrightarrow> r \<in> set ?rs \<and> vr_id r = i" for i r
    using keyed by (auto simp: content_def keyed_by_def dict_ok_def map_of_eq_Some_iff image_iff) force
  have in_set: "set ?ms = ?match ` set ?rs" by (simp only: set_sort set_map)
  have part: "m \<in> set ?ms" if "m \<in> set (take (nat k) ?ms)" for m using that by (rule in_set_takeD)
  have left_out: "\<exists>s. cosine_similarity M q (vr_vector r) = Inr (Fin s) \<and> (\<forall>m \<in> set (take (nat k) ?ms). match_key m < (- s, i))"
    if r: "content S ns i = Some r" "i \<notin> vm_id ` set (take (nat k) ?ms)" for i r
  proof -
    have rs: "r \<in> set ?rs" "vr_id r = i" using found r(1) by blast+
    then have "?match r \<in> set ?ms" using in_set by blast
    moreover have "?match r \<notin> set (take (nat k) ?ms)" using r(2) rs(2) by force
    ultimately have dropped: "?match r \<in> set (drop (nat k) ?ms)" by (rule in_drop)
    have key: "match_key (?match r) = (- ?score r, i)" by (simp add: match_key_def rs(2))
    have "\<forall>m \<in> set (take (nat k) ?ms). match_key m < (- ?score r, i)"
      by (intro ballI) (rule ordered(2)[OF _ dropped, unfolded key])
    with scored[OF rs(1)] show ?thesis by blast
  qed
  have chosen: "- 1 \<le> vm_score m \<and> vm_score m \<le> 1 \<and> (\<exists>r. content S ns (vm_id m) = Some r
         \<and> cosine_similarity M q (vr_vector r) = Inr (Fin (vm_score m)) \<and> vm_metadata m = vr_metadata r)"
    if m: "m \<in> set (take (nat k) ?ms)" for m
  proof -
    have "m \<in> ?match ` set ?rs" using part[OF m] unfolding in_set .
    then obtain r where r: "r \<in> set ?rs" "m = ?match r" by (rule imageE)
    with scored[OF r(1)] found[of "vr_id r" r] show ?thesis by auto
  qed
  show ?thesis using run ordered(1) chosen left_out by (intro exI[of _ "take (nat k) ?ms"]) auto
qed

text \<open>C39 The score of every match of a query is the cosine of the query and the record's vector up
  to \<open>n / 2 ^ 46\<close> for \<open>n\<close> dimensions, and lies between -1 and 1, when both norms are in the
  normal range of doubles and \<open>hypot\<close> is accurate on both vectors.\<close>

theorem scores_are_accurate:
  assumes "store_ok M S" and "vs_dimensions S < 2 ^ 63" and "doubles vector"
    and "normalize_vector M vector (Some (vs_dimensions S)) ''Query vector'' = Inr q"
    and "vector_query M S vector (PStr ns) limit = Inr ms" and "m \<in> set ms" and "content S ns (vm_id m) = Some r"
    and "hypot_accurate M q" "1 / 2 ^ 1022 \<le> norm2 q" "norm2 q \<le> 2 ^ 1023"
    and "hypot_accurate M (vr_vector r)" "1 / 2 ^ 1022 \<le> norm2 (vr_vector r)" "norm2 (vr_vector r) \<le> 2 ^ 1023"
  shows "\<bar>vm_score m\<bar> \<le> 1 \<and> \<bar>vm_score m - cosine q (vr_vector r)\<bar> \<le> real_of_int (vs_dimensions S) / 2 ^ 46"
proof -
  let ?rs = "map snd (namespace_records S ns)"
  have keyed: "keyed_by vr_id (namespace_records S ns)" by (rule store_ok_records(1)[OF assms(1)])
  obtain k matches where matches: "list_all2 (\<lambda>r m. score_record M q r = Inr m) ?rs matches"
      "ms = take k (sort_key match_key matches)"
    using assms(4,5) by (auto simp: vector_query_def rbind_Inr_iff rmap_Inr_iff validate_namespace_def split: if_splits)
  then have "m \<in> set matches" using assms(6) by (auto dest: in_set_takeD)
  then obtain r' where r': "r' \<in> set ?rs" "score_record M q r' = Inr m"
    using list_all2_source[OF matches(1)] by blast
  then have id: "vm_id m = vr_id r'" and score: "cosine_similarity M q (vr_vector r') = Inr (Fin (vm_score m))"
    by (auto simp: score_record_def mk_vector_match_def rbind_Inr_iff split: if_splits pyfloat.splits)
  have "content S ns (vr_id r') = Some r'"
    using r'(1) keyed by (auto simp: content_def keyed_by_def dict_ok_def)
  then have r: "r' = r" using assms(7) id by simp
  have "int (length (vr_vector r)) = vs_dimensions S" using r' r store_ok_records(2)[OF assms(1), of _ r ns] by auto
  moreover have len: "int (length q) = vs_dimensions S" using normalize_vector_InrD[OF assms(4,3)] by simp
  ultimately have same: "length q = length (vr_vector r)" by simp
  have dims: "real (length q) = real_of_int (vs_dimensions S)" using len by (metis of_int_of_nat_eq)
  have "real_of_int (vs_dimensions S) < 2 ^ 63" using assms(2) by (metis of_int_less_numeral_power_cancel_iff)
  then have short: "real (length q) \<le> 2 ^ 1000" unfolding dims by (rule order_trans[OF less_imp_le]) simp
  from cosine_similarity_accurate[OF same short assms(8-13)] score r dims show ?thesis by auto
qed

section \<open>A concrete store\<close>

definition demo_math :: math_lib where
  "demo_math = \<lparr>ml_hypot = (\<lambda>v. round64 (norm2 v))\<rparr>"

definition demo_record :: vector_record where
  "demo_record = \<lparr>vr_id = ''a'', vr_vector = [1, 0], vr_metadata = [(''k'', PInt 1)]\<rparr>"

definition demo_vectors :: vector_store where
  "demo_vectors = \<lparr>vs_dimensions = 2, vs_namespaces = [(''n'', [(''a'', demo_record)])]\<rparr>"

lemma demo_math_accurate: "hypot_accurate demo_math v"
proof (cases "norm2 v \<le> 2 ^ 1023")
  case True
  then obtain y where y: "round64 (norm2 v) = Fin y" "\<bar>y - norm2 v\<bar> \<le> quantum (norm2 v) / 2"
    using round64_finite[of "norm2 v"] by auto
  have "\<bar>y - norm2 v\<bar> < quantum (norm2 v)" using y(2) quantum_pos(1)[of "norm2 v"] by linarith
  with y(1) show ?thesis using round64_binary[OF y(1)] by (auto simp: hypot_accurate_def demo_math_def)
next
  case False
  show ?thesis
  proof (cases "round64 (norm2 v)")
    case (Fin y)
    have "\<bar>y - norm2 v\<bar> \<le> quantum (norm2 v) / 2" by (rule round64_Fin_error[OF Fin])
    also have "\<dots> < quantum (norm2 v)" by simp
    finally show ?thesis using Fin round64_binary[OF Fin] by (auto simp: hypot_accurate_def demo_math_def)
  qed (use False round64_nonneg[of "norm2 v"] in \<open>auto simp: hypot_accurate_def demo_math_def\<close>)
qed

lemma demo_values: "round64 1 = Fin 1" "round64 0 = Fin 0" "norm2 [1, 0] = 1" "float_of_int 1 = Inr (Fin 1)" "float_of_int 0 = Inr (Fin 0)"
  using binary64_int[of 1] binary64_int[of 0] by (simp_all add: binary64_def norm2_def float_of_int_def)

lemma demo_normalized:
  "normalize_vector demo_math (PList [PInt 1, PInt 0]) None field = Inr [1, 0]"
  "normalize_vector demo_math (PList [PInt 1, PInt 0]) (Some 2) field = Inr [1, 0]"
  by (simp_all add: normalize_vector_def convert_component_def demo_values demo_math_def)

lemma demo_record_made: "record_made demo_math demo_record"
  unfolding record_made_def
  by (intro exI[of _ "PStr ''a''"] exI[of _ "PList [PInt 1, PInt 0]"] exI[of _ "PDict [(''k'', PInt 1)]"])
    (simp add: doubles_def mk_vector_record_def demo_normalized snapshot_metadata_def demo_record_def py_isspace_def Let_def)

lemma demo_store_ok: "store_ok demo_math demo_vectors"
  using demo_record_made
  by (auto simp: store_ok_def demo_vectors_def records_ok_def keyed_by_def dict_ok_def demo_record_def namespace_pattern_def alnum_def
      numeral_eq_Suc)

theorem vector_store_refines_map_witness:
  "\<exists>S xs S'. new_vector_store (PInt 2) = Inr S
     \<and> vector_calls [Upsert (VTuple [VRecord demo_record]) (PStr ''n''), Delete (PTuple [PInt 1]) (PStr ''n''),
          Upsert (VTuple [VRecord demo_record, VOther (PInt 1)]) (PStr ''n''), Upsert (VObject (PList [])) (PStr ''n'')] S
        = (xs, S')
     \<and> map (\<lambda>x. x = Inr ()) xs = [True, False, False, False]
     \<and> vector_fetch S' (PTuple [PStr ''a'', PStr ''b'']) (PStr ''n'') = Inr [demo_record]"
proof -
  let ?cs = "[Upsert (VTuple [VRecord demo_record]) (PStr ''n''), Delete (PTuple [PInt 1]) (PStr ''n''),
          Upsert (VTuple [VRecord demo_record, VOther (PInt 1)]) (PStr ''n''), Upsert (VObject (PList [])) (PStr ''n'')]"
  let ?S = "\<lparr>vs_dimensions = 2, vs_namespaces = []\<rparr>"
  have S: "new_vector_store (PInt 2) = Inr ?S" by (simp add: new_vector_store_def positive_int_def)
  have made: "\<forall>c \<in> set ?cs. call_made demo_math c" using demo_record_made by (simp add: call_made_def)
  obtain xs S' where run: "vector_calls ?cs ?S = (xs, S')" by (cases "vector_calls ?cs ?S")
  have ns: "full_match namespace_pattern ''n''" by (simp add: namespace_pattern_def alnum_def numeral_eq_Suc)
  have ids: "distinct [''a'', ''b''] \<and> (\<forall>i \<in> set [''a'', ''b'']. \<not> blank i)" by (simp add: py_isspace_def Let_def)
  obtain C where C: "spec_calls (vs_dimensions ?S) ?cs (\<lambda>_. Map.empty) = (map (\<lambda>x. x = Inr ()) xs, C)"
    and fetch: "\<forall>ns ids. full_match namespace_pattern ns \<and> distinct ids \<and> (\<forall>i \<in> set ids. \<not> blank i)
         \<longrightarrow> vector_fetch S' (PTuple (map PStr ids)) (PStr ns) = Inr (List.map_filter (C ns) ids)"
    using vector_store_refines_map[OF S made run] by (elim exE conjE) (rule that)
  have fetched: "vector_fetch S' (PTuple (map PStr [''a'', ''b''])) (PStr ''n'') = Inr (List.map_filter (C ''n'') [''a'', ''b''])"
    using fetch ns ids by blast
  have "C ''n'' = [''a'' \<mapsto> demo_record]"
    using C ns by (auto simp: namespace_ok_def ids_ok_def ids_in_def demo_record_def split: prod.splits)
  then have "List.map_filter (C ''n'') [''a'', ''b''] = [demo_record]" by (simp add: List.map_filter_simps)
  with fetched have one: "vector_fetch S' (PTuple [PStr ''a'', PStr ''b'']) (PStr ''n'') = Inr [demo_record]" by simp
  have "fst (spec_calls (vs_dimensions ?S) ?cs (\<lambda>_. Map.empty)) = [True, False, False, False]"
    using ns by (simp add: namespace_ok_def ids_ok_def ids_in_def demo_record_def)
  then have "map (\<lambda>x. x = Inr ()) xs = [True, False, False, False]" by (simp only: C fst_conv)
  with S run one show ?thesis by (intro exI[of _ ?S] exI[of _ xs] exI[of _ S'] conjI)
qed

theorem query_returns_the_best_witness:
  "\<exists>ms. vector_query demo_math demo_vectors (PList [PInt 1, PInt 0]) (PStr ''n'') (PInt 5) = Inr ms \<and> length ms = 1"
  using query_returns_the_best[OF demo_store_ok, of "''n''" 5 "PList [PInt 1, PInt 0]" "[1, 0]"]
  by (auto simp: demo_math_accurate demo_vectors_def demo_normalized doubles_def namespace_records_def namespace_pattern_def
      alnum_def numeral_eq_Suc)

lemma demo_query:
  "\<exists>m. vector_query demo_math demo_vectors (PList [PInt 1, PInt 0]) (PStr ''n'') (PInt 5) = Inr [m] \<and> vm_id m = ''a''"
proof -
  have q: "list_all binary64 [1, 0]" "ml_hypot demo_math [1, 0] \<noteq> Fin 0"
    using binary64_int[of 1] binary64_int[of 0] by (simp_all add: demo_math_def demo_values)
  have len: "length (vr_vector demo_record) = length [1 :: real, 0]" "real (length [1 :: real, 0]) \<le> 2 ^ 1000"
    by (simp_all add: demo_record_def)
  obtain s where "score_record demo_math [1, 0] demo_record
      = Inr \<lparr>vm_id = vr_id demo_record, vm_score = s, vm_metadata = vr_metadata demo_record\<rparr>"
    using score_record_total[OF demo_record_made len q demo_math_accurate demo_math_accurate] by blast
  then show ?thesis
    by (simp add: vector_query_def demo_normalized demo_vectors_def namespace_records_def validate_namespace_def
        positive_int_def namespace_pattern_def alnum_def numeral_eq_Suc) (simp add: demo_record_def)
qed

theorem scores_are_accurate_witness:
  "\<exists>m. vector_query demo_math demo_vectors (PList [PInt 1, PInt 0]) (PStr ''n'') (PInt 5) = Inr [m]
     \<and> \<bar>vm_score m - cosine [1, 0] [1, 0]\<bar> \<le> 2 / 2 ^ 46"
proof -
  obtain m where m: "vector_query demo_math demo_vectors (PList [PInt 1, PInt 0]) (PStr ''n'') (PInt 5) = Inr [m]" "vm_id m = ''a''"
    using demo_query by blast
  have "content demo_vectors ''n'' (vm_id m) = Some demo_record" by (simp add: content_def demo_vectors_def namespace_records_def m(2))
  from scores_are_accurate[OF demo_store_ok _ _ _ m(1) _ this, of "[1, 0]"] m(1) show ?thesis
    by (simp add: demo_vectors_def doubles_def demo_normalized demo_math_accurate demo_record_def demo_values)
qed

end
