(* ===== verification/Chat_Completions.thy ===== *)
theory Chat_Completions
  imports Providers Json
begin

text \<open>
  The translation between the kernel's messages and the Chat Completions wire format
  (\<open>providers/_chat_completions.py\<close>). Dictionaries are the values of \<open>PDict\<close>, in the order the
  code builds them; \<open>error\<close> is the class the calling provider raises. What \<open>str\<close>, \<open>repr\<close> and the
  attributes of other objects give is a record of parameters.
\<close>

record chat_env =
  cv_json :: json_lib
  cv_str :: "pyval \<Rightarrow> string"
  cv_repr :: "pyval \<Rightarrow> string"
  cv_attr :: "pyval \<Rightarrow> string \<Rightarrow> pyval"

definition py_str :: "chat_env \<Rightarrow> pyval \<Rightarrow> string" where
  "py_str V v = (case v of PStr s \<Rightarrow> s | _ \<Rightarrow> cv_str V v)"

definition as_dict :: "pyval \<Rightarrow> payload" where
  "as_dict v = (case v of PDict d \<Rightarrow> d | _ \<Rightarrow> [])"

text \<open>A non-empty sequence that is no text, with its items.\<close>

definition nonempty_items :: "pyval \<Rightarrow> pyval list option" where
  "nonempty_items v = (case sequence_items v of Some (x # xs) \<Rightarrow> Some (x # xs) | _ \<Rightarrow> None)"

section \<open>Messages\<close>

definition allowed_roles :: "string list" where
  "allowed_roles = [''system'', ''user'', ''assistant'']"

definition system_message :: "string \<Rightarrow> pyval" where
  "system_message s = PDict [(''role'', PStr ''system''), (''content'', PStr s)]"

definition chat_tool_call :: "string \<Rightarrow> string \<Rightarrow> string \<Rightarrow> pyval" where
  "chat_tool_call i name arguments = PDict [(''id'', PStr i), (''type'', PStr ''function''),
     (''function'', PDict [(''name'', PStr name), (''arguments'', PStr arguments)])]"

text \<open>One block: the texts, tool calls and tool results it adds.\<close>

type_synonym chat_parts = "string list \<times> pyval list \<times> pyval list"

definition block_to_chat :: "chat_env \<Rightarrow> exn_class \<Rightarrow> pyval \<Rightarrow> chat_parts res" where
  "block_to_chat V error block =
     (case block of
        PDict d \<Rightarrow>
          let kind = get_or d ''type'' PNone in
          if kind = PStr ''text'' then Inr ([py_str V (get_or d ''text'' (PStr []))], [], [])
          else if kind = PStr ''tool_use'' then
            rbind (dumps (cv_json V) False (Some (cv_str V)) (PDict (as_dict (get_or d ''input'' (PDict []))))) (\<lambda>arguments.
              Inr ([], [chat_tool_call (py_str V (get_or d ''id'' (PStr []))) (py_str V (get_or d ''name'' (PStr []))) arguments], []))
          else if kind = PStr ''tool_result'' then
            let content = py_str V (get_or d ''content'' (PStr []));
                text = (if truthy (get_or d ''is_error'' PNone) then ''Error: '' @ content else content) in
            Inr ([], [], [PDict [(''role'', PStr ''tool''), (''tool_call_id'', PStr (py_str V (get_or d ''tool_call_id'' (PStr [])))),
               (''content'', PStr text)]])
          else Inl (Exn error (''Unsupported content block type: '' @ cv_repr V kind @ ''.''))
      | _ \<Rightarrow> Inl (Exn error ''Each content block must be a mapping.''))"

fun blocks_to_chat :: "chat_env \<Rightarrow> exn_class \<Rightarrow> pyval list \<Rightarrow> chat_parts res" where
  "blocks_to_chat V error [] = Inr ([], [], [])"
| "blocks_to_chat V error (b # bs) =
     rbind (block_to_chat V error b) (\<lambda>(t, c, r). rbind (blocks_to_chat V error bs) (\<lambda>(ts, cs, rs).
       Inr (t @ ts, c @ cs, r @ rs)))"

definition blocks_message :: "exn_class \<Rightarrow> string \<Rightarrow> chat_parts \<Rightarrow> pyval list res" where
  "blocks_message error role = (\<lambda>(texts, calls, results).
     if results \<noteq> [] then
       (if role \<noteq> ''user'' \<or> texts \<noteq> [] \<or> calls \<noteq> []
        then Inl (Exn error ''tool_result blocks must be alone in a user message.'') else Inr results)
     else if calls \<noteq> [] then
       (if role \<noteq> ''assistant'' then Inl (Exn error ''tool_use blocks are only valid in an assistant message.'')
        else Inr [PDict [(''role'', PStr role), (''content'', if concat texts = [] then PNone else PStr (concat texts)),
                         (''tool_calls'', PList calls)]])
     else Inr [PDict [(''role'', PStr role), (''content'', PStr (concat texts))]])"

definition message_to_chat :: "chat_env \<Rightarrow> exn_class \<Rightarrow> pyval \<Rightarrow> pyval list res" where
  "message_to_chat V error entry =
     (case entry of
        PDict d \<Rightarrow>
          (case get_or d ''role'' PNone of
             PStr role \<Rightarrow>
               if role \<notin> set allowed_roles
               then Inl (Exn error ''Each message role must be one of: system, user, assistant.'')
               else let content = get_or d ''content'' PNone in
                 (case content of
                    PStr s \<Rightarrow> Inr [PDict [(''role'', PStr role), (''content'', PStr s)]]
                  | _ \<Rightarrow> (case nonempty_items content of
                      None \<Rightarrow> Inl (Exn error ''Each message must have string content or a non-empty block list.'')
                    | Some blocks \<Rightarrow> rbind (blocks_to_chat V error blocks) (blocks_message error role)))
           | _ \<Rightarrow> Inl (Exn error ''Each message role must be one of: system, user, assistant.''))
      | _ \<Rightarrow> Inl (Exn error ''Each entry in request['messages'] must be a mapping.''))"

definition messages_to_chat :: "chat_env \<Rightarrow> exn_class \<Rightarrow> pyval \<Rightarrow> pyval \<Rightarrow> pyval list res" where
  "messages_to_chat V error messages system =
     (case nonempty_items messages of
        None \<Rightarrow> Inl (Exn error ''request['messages'] must be a non-empty sequence.'')
      | Some entries \<Rightarrow>
          rbind (case system of PNone \<Rightarrow> Inr [] | PStr s \<Rightarrow> Inr [system_message s]
                   | _ \<Rightarrow> Inl (Exn error ''request['system'] must be a string, if provided.'')) (\<lambda>out.
            rbind (rmap (message_to_chat V error) entries) (\<lambda>ms. Inr (out @ concat ms))))"

text \<open>\<open>request.get("max_tokens", 1024)\<close> and its test, the same in every adapter.\<close>

definition default_max_tokens :: int where
  "default_max_tokens = 1024"

definition max_tokens_of :: "exn_class \<Rightarrow> payload \<Rightarrow> int res" where
  "max_tokens_of error request =
     (let v = get_or request ''max_tokens'' (PInt default_max_tokens) in
      if positive_int v then Inr (the_int v)
      else Inl (Exn error ''request['max_tokens'] must be a positive integer, if provided.''))"

section \<open>Tools\<close>

definition tool_to_chat :: "exn_class \<Rightarrow> pyval \<Rightarrow> pyval res" where
  "tool_to_chat error spec =
     (case spec of
        PToolSpec name desc schema \<Rightarrow> Inr (PDict [(''type'', PStr ''function''), (''function'', PDict [(''name'', PStr name),
          (''description'', PStr desc), (''parameters'', PDict schema)])])
      | _ \<Rightarrow> Inl (Exn error ''request['tools'] entries must be ToolSpec instances.''))"

definition tools_to_chat :: "exn_class \<Rightarrow> pyval \<Rightarrow> pyval list option res" where
  "tools_to_chat error tools =
     (if tools = PNone then Inr None
      else case sequence_items tools of
        None \<Rightarrow> Inl (Exn error ''request['tools'] must be a sequence of ToolSpec.'')
      | Some specs \<Rightarrow> rbind (rmap (tool_to_chat error) specs) (\<lambda>out. Inr (if out = [] then None else Some out)))"

section \<open>Tool calls of a response\<close>

definition call_fields :: "chat_env \<Rightarrow> pyval \<Rightarrow> pyval \<times> pyval \<times> pyval" where
  "call_fields V raw =
     (case raw of
        PDict d \<Rightarrow> (get_or d ''id'' PNone,
          case get_or d ''function'' PNone of
            PDict f \<Rightarrow> (get_or f ''name'' PNone, get_or f ''arguments'' PNone) | _ \<Rightarrow> (PNone, PNone))
      | _ \<Rightarrow> let f = cv_attr V raw ''function'' in (cv_attr V raw ''id'', cv_attr V f ''name'', cv_attr V f ''arguments''))"

fun nonempty_str :: "pyval \<Rightarrow> bool" where
  "nonempty_str (PStr s) = (s \<noteq> [])"
| "nonempty_str _ = False"

definition check_call :: "exn_class \<Rightarrow> pyval \<Rightarrow> pyval \<Rightarrow> pyval \<Rightarrow> (string \<times> string \<times> string) res" where
  "check_call error i name arguments =
     (if \<not> nonempty_str i then Inl (Exn error ''Each tool call must carry a non-empty string 'id'.'')
      else if \<not> nonempty_str name
      then Inl (Exn error (''Tool call '' @ repr_str (the_str i) @ '' must carry a function name.''))
      else case arguments of
        PNone \<Rightarrow> Inr (the_str i, the_str name, [])
      | PStr a \<Rightarrow> Inr (the_str i, the_str name, a)
      | _ \<Rightarrow> Inl (Exn error (''Tool call '' @ repr_str (the_str i) @ '' arguments must be a JSON string.'')))"

definition read_call :: "chat_env \<Rightarrow> exn_class \<Rightarrow> pyval \<Rightarrow> (string \<times> string \<times> string) res" where
  "read_call V error raw = (case call_fields V raw of (i, name, arguments) \<Rightarrow> check_call error i name arguments)"

definition is_value_error :: "exn \<Rightarrow> bool" where
  "is_value_error e \<longleftrightarrow> exn_isa (ForeignException ''ValueError'') e \<or> exn_isa (ForeignException ''JSONDecodeError'') e"

definition finish_call :: "exn_class \<Rightarrow> string \<Rightarrow> string \<Rightarrow> pyval res \<Rightarrow> pyval res" where
  "finish_call error i name parsed =
     (case parsed of
       Inl e \<Rightarrow> Inl (if is_value_error e
         then Exn error (''Tool call '' @ repr_str i @ '' carried non-JSON arguments.'') else e)
     | Inr v \<Rightarrow> if is_mapping v then mk_tool_call i name v
         else Inl (Exn error (''Tool call '' @ repr_str i @ '' arguments must be a JSON object.'')))"

definition parse_call :: "chat_env \<Rightarrow> exn_class \<Rightarrow> pyval \<Rightarrow> pyval res" where
  "parse_call V error raw = rbind (read_call V error raw) (\<lambda>(i, name, arguments).
     finish_call error i name (if blank arguments then Inr (PDict []) else loads (cv_json V) arguments))"

definition tool_calls_from_chat :: "chat_env \<Rightarrow> exn_class \<Rightarrow> pyval \<Rightarrow> pyval list res" where
  "tool_calls_from_chat V error raw_calls =
     (if raw_calls = PNone then Inr []
      else case sequence_items raw_calls of
        None \<Rightarrow> Inl (Exn error ''Response field 'tool_calls' must be a list.'')
      | Some raws \<Rightarrow> rmap (parse_call V error) raws)"

section \<open>What is raised\<close>

lemma parsed_bind_error:
  "parsed_bind p f = Some (Inl e) \<Longrightarrow> p = Some (Inl e) \<or> (\<exists>x r. p = Some (Inr (x, r)) \<and> f x r = Some (Inl e))"
  by (auto simp: parsed_bind_def split: option.splits sum.splits prod.splits)

lemma int_of_digits_error: "int_of_digits s = Inl e \<Longrightarrow> is_value_error e"
  by (auto simp: int_of_digits_def is_value_error_def split: if_splits)

lemma read_number_error: "read_number J s = Some (Inl e) \<Longrightarrow> is_value_error e"
  by (auto simp: read_number_def Let_def rbind_def split: option.splits prod.splits if_splits sum.splits
      dest: int_of_digits_error)

lemma read_errors:
  "read_value J n s = Some (Inl e) \<Longrightarrow> is_value_error e"
  "read_items J n s = Some (Inl e) \<Longrightarrow> is_value_error e"
  "read_members J n s = Some (Inl e) \<Longrightarrow> is_value_error e"
proof (induction J n s and J n s and J n s rule: read_value_read_items_read_members.induct)
  case (2 J n s)
  from "2.prems" show ?case
    by (auto split: list.splits if_splits option.splits dest!: parsed_bind_error dest: read_number_error "2.IH")
next
  case (4 J n s)
  from "4.prems" show ?case
    by (auto split: list.splits if_splits dest!: parsed_bind_error dest: "4.IH")
next
  case (6 J n s)
  from "6.prems" show ?case
    by (auto split: list.splits if_splits option.splits prod.splits dest!: parsed_bind_error dest: "6.IH")
qed simp_all

lemma loads_error: "loads J s = Inl e \<Longrightarrow> is_value_error e"
  by (auto simp: loads_def decode_error_def is_value_error_def[of "Exn _ _"] split: option.splits sum.splits if_splits prod.splits
      dest: read_errors(1))

text \<open>Errors of the caller's class or \<open>ValueError\<close>s, with a text that says something.\<close>

definition told :: "exn_class \<Rightarrow> exn \<Rightarrow> bool" where
  "told error e \<longleftrightarrow> (exn_isa error e \<or> is_value_error e) \<and> \<not> blank (exn_text e)"

lemma told_own [simp]: "told error (Exn error m) \<longleftrightarrow> \<not> blank m"
  by (simp add: told_def)

lemma not_space: "\<not> py_isspace CHR ''E''" "\<not> py_isspace CHR ''U''" "\<not> py_isspace CHR ''t''" "\<not> py_isspace CHR ''r''"
  "\<not> py_isspace CHR ''T''" "\<not> py_isspace CHR ''R''" "\<not> py_isspace CHR ''L''" "\<not> py_isspace CHR ''O''" "\<not> py_isspace CHR ''C''"
  "\<not> py_isspace CHR ''A''" "\<not> py_isspace CHR ''G''" "\<not> py_isspace CHR ''l''" "\<not> py_isspace CHR ''m''" "\<not> py_isspace CHR ''e''"
  "\<not> py_isspace CHR ''u''"
  by (simp_all add: py_isspace_def Let_def)

lemma dumps_error:
  "dumps J a (Some str) v = Inl e \<Longrightarrow> told error e"
  "dumps_items J a (Some str) vs = Inl e \<Longrightarrow> told error e"
  "dumps_members J a (Some str) ms = Inl e \<Longrightarrow> told error e"
  by (induction J a "Some str" v and J a "Some str" vs and J a "Some str" ms rule: dumps_dumps_items_dumps_members.induct)
    (auto simp: rbind_def json_int_def is_value_error_def told_def not_space split: sum.splits if_splits)

lemma block_error: "block_to_chat V error b = Inl e \<Longrightarrow> told error e"
  by (auto simp: block_to_chat_def Let_def rbind_def not_space split: pyval.splits if_splits sum.splits dest: dumps_error(1,3))

lemma blocks_error: "blocks_to_chat V error bs = Inl e \<Longrightarrow> told error e"
  by (induction bs) (auto simp: rbind_def split: sum.splits prod.splits dest: block_error)

lemma blocks_message_error: "blocks_message error role p = Inl e \<Longrightarrow> told error e"
  by (auto simp: blocks_message_def not_space split: prod.splits if_splits)

lemma message_error: "message_to_chat V error m = Inl e \<Longrightarrow> told error e"
  by (auto simp: message_to_chat_def Let_def rbind_def not_space split: pyval.splits if_splits option.splits sum.splits
      dest: blocks_error blocks_message_error)

lemma messages_error: "messages_to_chat V error ms s = Inl e \<Longrightarrow> told error e"
  by (auto simp: messages_to_chat_def rbind_def not_space split: pyval.splits option.splits sum.splits
      dest!: rmap_error dest: message_error)

lemma tools_error: "tools_to_chat error ts = Inl e \<Longrightarrow> told error e"
  by (auto simp: tools_to_chat_def tool_to_chat_def rbind_def not_space split: if_splits option.splits sum.splits pyval.splits
      dest!: rmap_error)

lemma max_tokens_error: "max_tokens_of error request = Inl e \<Longrightarrow> told error e"
  by (auto simp: max_tokens_of_def Let_def not_space split: if_splits)

lemma read_call_error: "read_call V error raw = Inl e \<Longrightarrow> told error e"
  by (auto simp: read_call_def check_call_def not_space split: prod.splits pyval.splits if_splits)

text \<open>Reading a response may also raise what the constructor of a tool call raises.\<close>

definition answered :: "exn_class \<Rightarrow> exn \<Rightarrow> bool" where
  "answered error e \<longleftrightarrow> (exn_isa error e \<or> is_value_error e \<or> exn_isa ToolCallingError e) \<and> \<not> blank (exn_text e)"

lemma told_answered: "told error e \<Longrightarrow> answered error e"
  by (auto simp: told_def answered_def)

lemma answered_own [simp]: "answered error (Exn error m) \<longleftrightarrow> \<not> blank m"
  by (simp add: answered_def)

lemma tool_call_answered: "mk_tool_call i n a = Inl e \<Longrightarrow> answered error e"
  by (auto simp: mk_tool_call_def answered_def not_space split: if_splits pyval.splits)

lemma finish_call_error:
  assumes "finish_call error i name parsed = Inl e" and "\<And>e. parsed = Inl e \<Longrightarrow> is_value_error e"
  shows "answered error e"
  using assms by (cases parsed) (auto simp: finish_call_def not_space split: if_splits
      dest: tool_call_answered)

lemma parse_call_error:
  assumes "parse_call V error raw = Inl e"
  shows "answered error e"
proof (cases "read_call V error raw")
  case (Inl e')
  with assms show ?thesis by (auto simp: parse_call_def dest: read_call_error intro: told_answered)
next
  case (Inr c)
  obtain i n a where c: "c = (i, n, a)" by (rule prod_cases3)
  show ?thesis
  proof (rule finish_call_error)
    show "finish_call error i n (if blank a then Inr (PDict []) else loads (cv_json V) a) = Inl e"
      using assms Inr by (simp add: parse_call_def c)
    show "is_value_error e'" if "(if blank a then Inr (PDict []) else loads (cv_json V) a) = Inl e'" for e'
      using that loads_error by (auto split: if_splits)
  qed
qed

lemma tool_calls_error: "tool_calls_from_chat V error raws = Inl e \<Longrightarrow> answered error e"
  by (auto simp: tool_calls_from_chat_def not_space split: if_splits option.splits dest!: rmap_error dest: parse_call_error)

lemma finish_call_made: "finish_call error i n p = Inr v \<Longrightarrow> \<exists>d. v = PToolCall i n d \<and> \<not> blank i \<and> \<not> blank n"
  by (cases p) (auto simp: finish_call_def mk_tool_call_iff split: if_splits)

lemma parse_call_made:
  assumes "parse_call V error raw = Inr v"
  shows "\<exists>t. as_tool_call v = Some t \<and> tool_call_ok t"
proof (cases "read_call V error raw")
  case (Inl e)
  with assms show ?thesis by (simp add: parse_call_def)
next
  case (Inr c)
  obtain i n a where c: "c = (i, n, a)" by (rule prod_cases3)
  have "finish_call error i n (if blank a then Inr (PDict []) else loads (cv_json V) a) = Inr v"
    using assms unfolding parse_call_def Inr c rbind_simps prod.case .
  from finish_call_made[OF this] show ?thesis by (auto simp: tool_call_ok_def)
qed

lemma tool_calls_made:
  assumes "tool_calls_from_chat V error raws = Inr cs" and "c \<in> set cs"
  shows "\<exists>t. as_tool_call c = Some t \<and> tool_call_ok t"
proof (cases "sequence_items raws")
  case None
  with assms show ?thesis by (simp add: tool_calls_from_chat_def split: if_splits)
next
  case (Some xs)
  have "raws = PNone \<or> list_all2 (\<lambda>x y. parse_call V error x = Inr y) xs cs"
    using assms(1) Some by (simp add: tool_calls_from_chat_def rmap_Inr_iff split: if_splits)
  moreover have "raws \<noteq> PNone" using Some by auto
  ultimately show ?thesis using list_all2_source[OF _ assms(2)] parse_call_made by blast
qed

section \<open>Tool calls survive the translation\<close>

text \<open>What \<open>default=str\<close> makes of the objects JSON has no form for.\<close>

fun defaulted :: "(pyval \<Rightarrow> string) \<Rightarrow> pyval \<Rightarrow> pyval" where
  "defaulted str (PTuple xs) = PTuple (map (defaulted str) xs)"
| "defaulted str (PList xs) = PList (map (defaulted str) xs)"
| "defaulted str (PDict m) = PDict (map (\<lambda>(k, v). (k, defaulted str v)) m)"
| "defaulted str (PBytes s) = PStr (str (PBytes s))"
| "defaulted str (PToolCall i n d) = PStr (str (PToolCall i n d))"
| "defaulted str (PToolSpec n t d) = PStr (str (PToolSpec n t d))"
| "defaulted str (PObject n) = PStr (str (PObject n))"
| "defaulted str v = v"

lemma dumps_defaulted:
  "dumps J a (Some str) v = dumps J a None (defaulted str v)"
  "dumps_items J a (Some str) vs = dumps_items J a None (map (defaulted str) vs)"
  "dumps_members J a (Some str) ms = dumps_members J a None (map (\<lambda>(k, v). (k, defaulted str v)) ms)"
  by (induction J a "Some str" v and J a "Some str" vs and J a "Some str" ms rule: dumps_dumps_items_dumps_members.induct)
    simp_all

lemma dumps_dict_not_blank: "dumps J a d (PDict m) = Inr t \<Longrightarrow> \<not> blank t"
  by (auto simp: rbind_Inr_iff py_isspace_def Let_def)

text \<open>The arguments that come back: objects as their texts, tuples as lists.\<close>

definition carried :: "chat_env \<Rightarrow> payload \<Rightarrow> payload" where
  "carried V d = as_dict (json_norm (defaulted (cv_str V) (PDict d)))"

lemma carried_arguments:
  assumes "dumps (cv_json V) False (Some (cv_str V)) (PDict d) = Inr t"
    and "json_ok (cv_json V) (defaulted (cv_str V) (PDict d))"
  shows "loads (cv_json V) t = Inr (PDict (carried V d))"
proof -
  have "loads (cv_json V) t = Inr (json_norm (defaulted (cv_str V) (PDict d)))"
    using assms(1) by (intro loads_dumps[OF _ assms(2)]) (simp only: dumps_defaulted)
  then show ?thesis by (simp add: carried_def as_dict_def)
qed

lemma parse_chat_call:
  assumes "tool_call_ok c" and "dumps (cv_json V) False (Some (cv_str V)) (PDict (call_arguments c)) = Inr t"
    and "json_ok (cv_json V) (defaulted (cv_str V) (PDict (call_arguments c)))"
  shows "parse_call V error (chat_tool_call (call_id c) (call_name c) t)
    = Inr (PToolCall (call_id c) (call_name c) (carried V (call_arguments c)))"
proof -
  have "call_id c \<noteq> []" "call_name c \<noteq> []" using assms(1) by (auto simp: tool_call_ok_def)
  then have "read_call V error (chat_tool_call (call_id c) (call_name c) t) = Inr (call_id c, call_name c, t)"
    by (simp add: read_call_def chat_tool_call_def call_fields_def check_call_def get_or_def)
  then show ?thesis
    using carried_arguments[OF assms(2,3)] dumps_dict_not_blank[OF assms(2)] assms(1)
    by (simp add: parse_call_def finish_call_def mk_tool_call_def tool_call_ok_def)
qed

lemma call_blocks_to_chat:
  assumes "blocks_to_chat V error (map tool_use_block calls) = Inr p"
  shows "\<exists>ts. list_all2 (\<lambda>c t. dumps (cv_json V) False (Some (cv_str V)) (PDict (call_arguments c)) = Inr t) calls ts
    \<and> p = ([], map2 (\<lambda>c t. chat_tool_call (call_id c) (call_name c) t) calls ts, [])"
  using assms
proof (induction calls arbitrary: p)
  case (Cons c calls)
  from Cons.prems obtain x q where x: "block_to_chat V error (tool_use_block c) = Inr x"
      "blocks_to_chat V error (map tool_use_block calls) = Inr q"
      "p = (fst x @ fst q, fst (snd x) @ fst (snd q), snd (snd x) @ snd (snd q))"
    by (auto simp: rbind_Inr_iff)
  from x(1) obtain t where t: "dumps (cv_json V) False (Some (cv_str V)) (PDict (call_arguments c)) = Inr t"
      "x = ([], [chat_tool_call (call_id c) (call_name c) t], [])"
    by (auto simp: block_to_chat_def tool_use_block_def get_or_def py_str_def as_dict_def rbind_Inr_iff simp del: dumps.simps)
  from Cons.IH[OF x(2)] obtain ts where ts: "list_all2 (\<lambda>c t. dumps (cv_json V) False (Some (cv_str V)) (PDict (call_arguments c)) = Inr t) calls ts"
      "q = ([], map2 (\<lambda>c t. chat_tool_call (call_id c) (call_name c) t) calls ts, [])" by blast
  with t x(3) show ?case by (intro exI[of _ "t # ts"]) (simp del: dumps.simps)
qed simp

lemma assistant_blocks_to_chat:
  assumes "blocks_to_chat V error ((if text \<noteq> [] then [PDict [(''type'', PStr ''text''), (''text'', PStr text)]] else [])
      @ map tool_use_block calls) = Inr p"
  shows "\<exists>ts. list_all2 (\<lambda>c t. dumps (cv_json V) False (Some (cv_str V)) (PDict (call_arguments c)) = Inr t) calls ts
    \<and> p = (if text = [] then [] else [text], map2 (\<lambda>c t. chat_tool_call (call_id c) (call_name c) t) calls ts, [])"
proof (cases "text = []")
  case True
  with assms call_blocks_to_chat[of V error calls p] show ?thesis by simp
next
  case False
  with assms obtain q where "blocks_to_chat V error (map tool_use_block calls) = Inr q" "p = (text # fst q, snd q)"
    by (auto simp: rbind_Inr_iff block_to_chat_def get_or_def py_str_def)
  with call_blocks_to_chat[of V error calls q] False show ?thesis by auto
qed

lemma parsed_calls:
  assumes "list_all2 (\<lambda>c t. dumps (cv_json V) False (Some (cv_str V)) (PDict (call_arguments c)) = Inr t) calls ts"
    and "\<forall>c \<in> set calls. tool_call_ok c \<and> json_ok (cv_json V) (defaulted (cv_str V) (PDict (call_arguments c)))"
  shows "rmap (parse_call V error) (map2 (\<lambda>c t. chat_tool_call (call_id c) (call_name c) t) calls ts)
    = Inr (map (\<lambda>c. PToolCall (call_id c) (call_name c) (carried V (call_arguments c))) calls)"
  using assms by (induction rule: list_all2_induct) (simp_all add: parse_chat_call del: dumps.simps)

text \<open>C14 An assistant turn with tool calls that was translated for the wire is read back as the same
  calls: ids and names as they were, arguments as JSON carries them (tuples as lists, other
  objects as their text); the text of the turn is its content, \<open>None\<close> when it is empty.\<close>

theorem chat_tool_calls_roundtrip:
  assumes "calls \<noteq> []"
    and "\<forall>c \<in> set calls. tool_call_ok c \<and> json_ok (cv_json V) (defaulted (cv_str V) (PDict (call_arguments c)))"
    and "messages_to_chat V error (PList [PDict (assistant_message text calls)]) PNone = Inr ms"
  shows "\<exists>m. ms = [PDict m] \<and> map_of m ''role'' = Some (PStr ''assistant'')
    \<and> map_of m ''content'' = Some (if text = [] then PNone else PStr text)
    \<and> tool_calls_from_chat V error' (get_or m ''tool_calls'' PNone)
        = Inr (map (\<lambda>c. PToolCall (call_id c) (call_name c) (carried V (call_arguments c))) calls)"
proof -
  let ?blocks = "(if text \<noteq> [] then [PDict [(''type'', PStr ''text''), (''text'', PStr text)]] else []) @ map tool_use_block calls"
  have "?blocks \<noteq> []" using assms(1) by simp
  then have items: "nonempty_items (PTuple ?blocks) = Some ?blocks"
    unfolding nonempty_items_def sequence_items.simps option.case by (cases ?blocks) simp_all
  from assms(3) obtain out where out: "message_to_chat V error (PDict (assistant_message text calls)) = Inr out" "ms = out"
    by (auto simp: messages_to_chat_def nonempty_items_def rbind_Inr_iff)
  have "message_to_chat V error (PDict (assistant_message text calls))
      = rbind (blocks_to_chat V error ?blocks) (blocks_message error ''assistant'')"
    using items by (simp add: message_to_chat_def assistant_message_def get_or_def allowed_roles_def Let_def)
  with out(1) obtain p where p: "blocks_to_chat V error ?blocks = Inr p" "blocks_message error ''assistant'' p = Inr out"
    by (auto simp: rbind_Inr_iff)
  obtain ts where ts: "list_all2 (\<lambda>c t. dumps (cv_json V) False (Some (cv_str V)) (PDict (call_arguments c)) = Inr t) calls ts"
      "p = (if text = [] then [] else [text], map2 (\<lambda>c t. chat_tool_call (call_id c) (call_name c) t) calls ts, [])"
    using assistant_blocks_to_chat[OF p(1)] by blast
  let ?calls = "map2 (\<lambda>c t. chat_tool_call (call_id c) (call_name c) t) calls ts"
  have "?calls \<noteq> []" using assms(1) ts(1) by (cases ts) auto
  then have "out = [PDict [(''role'', PStr ''assistant''), (''content'', if text = [] then PNone else PStr text), (''tool_calls'', PList ?calls)]]"
    using p(2) ts(2) by (auto simp: blocks_message_def)
  then show ?thesis using out(2) parsed_calls[OF ts(1) assms(2)] by (simp add: get_or_def tool_calls_from_chat_def)
qed

definition demo_chat :: chat_env where
  "demo_chat = \<lparr>cv_json = demo_json, cv_str = (\<lambda>_. ''o''), cv_repr = (\<lambda>_. ''o''), cv_attr = (\<lambda>_ _. PNone)\<rparr>"

definition demo_call :: tool_call where
  "demo_call = \<lparr>call_id = ''c1'', call_name = ''echo'', call_arguments = [(''x'', PTuple [PInt 7])]\<rparr>"

theorem chat_tool_calls_roundtrip_witness:
  "\<exists>m. messages_to_chat demo_chat (AdapterError OpenAI AnyFailure) (PList [PDict (assistant_message [] [demo_call])]) PNone = Inr [PDict m]
    \<and> tool_calls_from_chat demo_chat (AdapterError OpenAI Response) (get_or m ''tool_calls'' PNone)
        = Inr [PToolCall ''c1'' ''echo'' [(''x'', PList [PInt 7])]]"
proof -
  let ?e = "AdapterError OpenAI AnyFailure"
  obtain ms where ms: "messages_to_chat demo_chat ?e (PList [PDict (assistant_message [] [demo_call])]) PNone = Inr ms"
    by (simp add: messages_to_chat_def nonempty_items_def message_to_chat_def assistant_message_def get_or_def allowed_roles_def
        block_to_chat_def tool_use_block_def demo_call_def as_dict_def json_int_def max_int_digits_def nat_str.simps blocks_message_def)
  have ok: "\<forall>c \<in> set [demo_call]. tool_call_ok c \<and> json_ok (cv_json demo_chat) (defaulted (cv_str demo_chat) (PDict (call_arguments c)))"
    by (simp add: demo_call_def tool_call_ok_def py_isspace_def Let_def dict_ok_def)
  have "carried demo_chat (call_arguments demo_call) = [(''x'', PList [PInt 7])]"
    by (simp add: carried_def as_dict_def demo_call_def)
  with chat_tool_calls_roundtrip[OF _ ok ms] ms show ?thesis by (auto simp: demo_call_def)
qed

end
