(* ===== verification/Sdk_Adapters.thy ===== *)
theory Sdk_Adapters
  imports Chat_Completions Floats
begin

text \<open>
  The provider adapters over vendor SDKs (\<open>providers/openai.py\<close>, \<open>claude.py\<close>, \<open>gemini.py\<close>). An SDK
  client is a parameter: what one call answers or raises, and what it does to the world. Its
  exceptions carry the class the adapters test for and their text.
\<close>

section \<open>What the SDK adapters share\<close>

text \<open>Subclasses before their base, as the \<open>except\<close> clauses are ordered.\<close>

datatype sdk_class = SdkAuthentication | SdkTimeout | SdkConnection | SdkOther
datatype sdk_raise = SdkError sdk_class string | OtherRaise exn

record chat_params =
  cq_model :: string
  cq_max_tokens :: int
  cq_messages :: "pyval list"
  cq_system :: "string option"
  cq_tools :: "pyval list option"

type_synonym ('w, 'r) sdk_client = "chat_params \<Rightarrow> 'w \<Rightarrow> (sdk_raise + 'r) \<times> 'w"

fun sdk_failure :: "adapter \<Rightarrow> string \<Rightarrow> sdk_raise \<Rightarrow> exn" where
  "sdk_failure A api (SdkError SdkAuthentication m) =
     Exn (AdapterError A Authentication) (api @ '' API rejected the configured credentials: '' @ m)"
| "sdk_failure A api (SdkError SdkTimeout m) = Exn (AdapterError A Timeout) (''Request to the '' @ api @ '' API timed out: '' @ m)"
| "sdk_failure A api (SdkError SdkConnection m) = Exn (AdapterError A Connection) (''Could not reach the '' @ api @ '' API: '' @ m)"
| "sdk_failure A api (SdkError SdkOther m) = Exn (AdapterError A AnyFailure) (api @ '' API request failed: '' @ m)"
| "sdk_failure A api (OtherRaise e) = e"

definition sdk_request :: "adapter \<Rightarrow> string \<Rightarrow> ('w, 'r) sdk_client \<Rightarrow> chat_params \<Rightarrow> ('w, 'r) py" where
  "sdk_request A api client q = (\<lambda>w. case client q w of
     (Inl r, w') \<Rightarrow> (Inl (sdk_failure A api r), w') | (Inr x, w') \<Rightarrow> (Inr x, w'))"

text \<open>A health check: SDK errors are reported, anything else goes on.\<close>

definition sdk_health :: "string \<Rightarrow> ('w, 'r) sdk_client \<Rightarrow> chat_params \<Rightarrow> ('w, provider_health_check) py" where
  "sdk_health name client q = (\<lambda>w. case client q w of
     (Inl (SdkError _ m), w') \<Rightarrow> (Inr \<lparr>ph_healthy = False, ph_name = name, ph_detail = m\<rparr>, w')
   | (Inl (OtherRaise e), w') \<Rightarrow> (Inl e, w')
   | (Inr x, w') \<Rightarrow> (Inr \<lparr>ph_healthy = True, ph_name = name, ph_detail = []\<rparr>, w'))"

definition ping_params :: "string \<Rightarrow> chat_params" where
  "ping_params model = \<lparr>cq_model = model, cq_max_tokens = 1,
     cq_messages = [PDict [(''role'', PStr ''user''), (''content'', PStr ''ping'')]], cq_system = None, cq_tools = None\<rparr>"

definition unset :: "string option \<Rightarrow> bool" where
  "unset s \<longleftrightarrow> s = None \<or> s = Some []"

text \<open>What the constructors of the three adapters check.\<close>

definition check_credentials :: "string \<Rightarrow> string \<Rightarrow> string \<Rightarrow> provider_configuration \<Rightarrow> string res" where
  "check_credentials cls variable example c =
     (if unset (pc_api_key c)
      then Inl (Exn ProviderConfigurationError (cls @ '' requires configuration.api_key. It does not fall back to the ''
        @ variable @ '', so credentials always flow through the kernel's own configuration system.''))
      else if unset (pc_model c)
      then Inl (Exn ProviderConfigurationError (cls @ '' requires configuration.default_model (e.g. '' @ repr_str example @ '').''))
      else Inr (the (pc_model c)))"

record ('w, 'r) sdk_provider =
  sp_configuration :: provider_configuration
  sp_model :: string
  sp_client :: "('w, 'r) sdk_client"

section \<open>OpenAI\<close>

abbreviation openai_error :: "adapter_failure \<Rightarrow> exn_class" where
  "openai_error \<equiv> AdapterError OpenAI"

record chat_choice =
  cc_content :: "string option"
  cc_tool_calls :: pyval
  cc_finish :: "string option"

record chat_completion =
  co_choices :: "chat_choice list"
  co_model :: string
  co_usage :: "(int \<times> int) option"

definition new_openai :: "(provider_configuration \<Rightarrow> ('w, chat_completion) sdk_client) \<Rightarrow> provider_configuration
    \<Rightarrow> ('w, chat_completion) sdk_client option \<Rightarrow> ('w, chat_completion) sdk_provider res" where
  "new_openai connect c client =
     rbind (check_credentials ''OpenAIProvider'' ''the OPENAI_API_KEY environment variable'' ''gpt-4o'' c) (\<lambda>model.
       Inr \<lparr>sp_configuration = c, sp_model = model, sp_client = (case client of Some f \<Rightarrow> f | None \<Rightarrow> connect c)\<rparr>)"

definition openai_response :: "chat_env \<Rightarrow> chat_completion \<Rightarrow> payload res" where
  "openai_response V completion =
     (case co_choices completion of
        [] \<Rightarrow> Inl (Exn (ForeignException ''IndexError'') ''list index out of range'')
      | choice # _ \<Rightarrow>
          let text = str_or (cc_content choice) [] in
          rbind (tool_calls_from_chat V (openai_error Response) (cc_tool_calls choice)) (\<lambda>calls.
            if text = [] \<and> calls = [] then Inl (Exn (openai_error Response) ''OpenAI response contained no text content.'')
            else Inr [(''text'', PStr text), (''tool_calls'', PTuple calls), (''model'', PStr (co_model completion)),
              (''finish_reason'', opt_str (cc_finish choice)),
              (''prompt_tokens'', PInt (case co_usage completion of Some (p, c) \<Rightarrow> p | None \<Rightarrow> 0)),
              (''completion_tokens'', PInt (case co_usage completion of Some (p, c) \<Rightarrow> c | None \<Rightarrow> 0))]))"

definition openai_request :: "chat_env \<Rightarrow> string \<Rightarrow> payload \<Rightarrow> chat_params res" where
  "openai_request V model request =
     rbind (messages_to_chat V (openai_error AnyFailure) (get_or request ''messages'' PNone) (get_or request ''system'' PNone)) (\<lambda>messages.
     rbind (max_tokens_of (openai_error AnyFailure) request) (\<lambda>max_tokens.
     rbind (tools_to_chat (openai_error AnyFailure) (get_or request ''tools'' PNone)) (\<lambda>tools.
       Inr \<lparr>cq_model = model, cq_max_tokens = max_tokens, cq_messages = messages, cq_system = None, cq_tools = tools\<rparr>)))"

definition openai_invoke :: "chat_env \<Rightarrow> ('w, chat_completion) sdk_provider \<Rightarrow> payload \<Rightarrow> ('w, payload) py" where
  "openai_invoke V P request =
     bnd (lift_res (openai_request V (sp_model P) request)) (\<lambda>q.
     bnd (sdk_request OpenAI ''OpenAI'' (sp_client P) q) (\<lambda>completion. lift_res (openai_response V completion)))"

definition openai_provider :: "chat_env \<Rightarrow> ('w, chat_completion) sdk_provider \<Rightarrow> 'w provider" where
  "openai_provider V P = \<lparr>prov_name = ''openai'', prov_configuration = sp_configuration P,
     prov_capabilities = \<lparr>cap_streaming = False, cap_tool_calls = True, cap_vision = False, cap_embeddings = False, cap_max_context = None\<rparr>,
     prov_check_health = sdk_health ''openai'' (sp_client P) (ping_params (sp_model P)),
     prov_invoke = openai_invoke V P\<rparr>"

section \<open>Claude\<close>

abbreviation claude_error :: "adapter_failure \<Rightarrow> exn_class" where
  "claude_error \<equiv> AdapterError Claude"

datatype claude_block = TextBlock string | ToolUseBlock string string pyval | OtherBlock

record claude_message =
  am_content :: "claude_block list"
  am_model :: string
  am_stop :: "string option"
  am_input_tokens :: int
  am_output_tokens :: int

definition new_claude :: "(provider_configuration \<Rightarrow> ('w, claude_message) sdk_client) \<Rightarrow> provider_configuration
    \<Rightarrow> ('w, claude_message) sdk_client option \<Rightarrow> ('w, claude_message) sdk_provider res" where
  "new_claude connect c client =
     rbind (check_credentials ''ClaudeProvider'' ''the ANTHROPIC_API_KEY environment variable'' ''claude-sonnet-5'' c) (\<lambda>model.
       Inr \<lparr>sp_configuration = c, sp_model = model, sp_client = (case client of Some f \<Rightarrow> f | None \<Rightarrow> connect c)\<rparr>)"

definition to_anthropic_block :: "chat_env \<Rightarrow> pyval \<Rightarrow> pyval res" where
  "to_anthropic_block V block =
     (case block of
        PDict d \<Rightarrow>
          let kind = get_or d ''type'' PNone in
          if kind = PStr ''text''
          then Inr (PDict [(''type'', PStr ''text''), (''text'', PStr (py_str V (get_or d ''text'' (PStr []))))])
          else if kind = PStr ''tool_use''
          then Inr (PDict [(''type'', PStr ''tool_use''), (''id'', PStr (py_str V (get_or d ''id'' (PStr [])))),
            (''name'', PStr (py_str V (get_or d ''name'' (PStr [])))), (''input'', PDict (as_dict (get_or d ''input'' (PDict []))))])
          else if kind = PStr ''tool_result''
          then Inr (PDict ([(''type'', PStr ''tool_result''), (''tool_use_id'', PStr (py_str V (get_or d ''tool_call_id'' (PStr [])))),
            (''content'', PStr (py_str V (get_or d ''content'' (PStr []))))]
            @ (if truthy (get_or d ''is_error'' PNone) then [(''is_error'', PBool True)] else [])))
          else Inl (Exn (claude_error AnyFailure) (''unsupported content block type: '' @ cv_repr V kind @ ''.''))
      | _ \<Rightarrow> Inl (Exn (claude_error AnyFailure) ''each content block must be a mapping.''))"

definition to_anthropic_message :: "chat_env \<Rightarrow> pyval \<Rightarrow> pyval res" where
  "to_anthropic_message V entry =
     (case entry of
        PDict d \<Rightarrow>
          let role = get_or d ''role'' PNone; content = get_or d ''content'' PNone in
          if role \<notin> {PStr ''user'', PStr ''assistant''}
          then Inl (Exn (claude_error AnyFailure) ''message['role'] must be 'user' or 'assistant'.'')
          else (case content of
            PStr s \<Rightarrow> if blank s then Inl (Exn (claude_error AnyFailure) ''message['content'] must not be blank.'')
              else Inr (PDict [(''role'', role), (''content'', content)])
          | _ \<Rightarrow> (case nonempty_items content of
              None \<Rightarrow> Inl (Exn (claude_error AnyFailure) ''message['content'] must be a string or a non-empty block list.'')
            | Some blocks \<Rightarrow> rbind (rmap (to_anthropic_block V) blocks) (\<lambda>bs.
                Inr (PDict [(''role'', role), (''content'', PList bs)]))))
      | _ \<Rightarrow> Inl (Exn (claude_error AnyFailure) ''each message must be a mapping with 'role' and 'content'.''))"

definition claude_messages_from :: "chat_env \<Rightarrow> payload \<Rightarrow> pyval list res" where
  "claude_messages_from V request =
     (let prompt = get_or request ''prompt'' PNone; messages = get_or request ''messages'' PNone in
      if prompt \<noteq> PNone \<and> messages \<noteq> PNone
      then Inl (Exn (claude_error AnyFailure) ''request must carry either 'prompt' or 'messages', not both.'')
      else if messages = PNone then
        (if \<not> nonblank_str prompt then Inl (Exn (claude_error AnyFailure) ''request['prompt'] must be a non-empty string.'')
         else Inr [PDict [(''role'', PStr ''user''), (''content'', prompt)]])
      else case nonempty_items messages of
        None \<Rightarrow> Inl (Exn (claude_error AnyFailure) ''request['messages'] must be a non-empty sequence.'')
      | Some entries \<Rightarrow> rmap (to_anthropic_message V) entries)"

definition claude_tool :: "pyval \<Rightarrow> pyval res" where
  "claude_tool spec =
     (case spec of
        PToolSpec name desc schema \<Rightarrow> Inr (PDict [(''name'', PStr name), (''description'', PStr desc), (''input_schema'', PDict schema)])
      | _ \<Rightarrow> Inl (Exn (claude_error AnyFailure) ''request['tools'] entries must be ToolSpec instances.''))"

definition claude_tools_from :: "payload \<Rightarrow> pyval list option res" where
  "claude_tools_from request =
     (let tools = get_or request ''tools'' PNone in
      if tools = PNone then Inr None
      else case sequence_items tools of
        None \<Rightarrow> Inl (Exn (claude_error AnyFailure) ''request['tools'] must be a sequence of ToolSpec.'')
      | Some specs \<Rightarrow> rbind (rmap claude_tool specs) (\<lambda>out. Inr (if out = [] then None else Some out)))"

definition claude_request :: "chat_env \<Rightarrow> string \<Rightarrow> payload \<Rightarrow> chat_params res" where
  "claude_request V model request =
     rbind (claude_messages_from V request) (\<lambda>messages.
     rbind (case get_or request ''system'' PNone of PNone \<Rightarrow> Inr None | PStr s \<Rightarrow> Inr (Some s)
       | _ \<Rightarrow> Inl (Exn (claude_error AnyFailure) ''request['system'] must be a string, if provided.'')) (\<lambda>system.
     rbind (max_tokens_of (claude_error AnyFailure) request) (\<lambda>max_tokens.
     rbind (claude_tools_from request) (\<lambda>tools.
       Inr \<lparr>cq_model = model, cq_max_tokens = max_tokens, cq_messages = messages, cq_system = system, cq_tools = tools\<rparr>))))"

fun block_text :: "claude_block \<Rightarrow> string" where
  "block_text (TextBlock t) = t"
| "block_text _ = []"

fun block_call :: "claude_block \<Rightarrow> pyval res option" where
  "block_call (ToolUseBlock i n input) = Some (mk_tool_call i n (PDict (as_dict input)))"
| "block_call _ = None"

definition claude_response :: "claude_message \<Rightarrow> payload res" where
  "claude_response message =
     (let text = concat (map block_text (am_content message)) in
      rbind (rmap id (List.map_filter block_call (am_content message))) (\<lambda>calls.
        if text = [] \<and> calls = [] then Inl (Exn (claude_error Response) ''Anthropic response contained no text content.'')
        else Inr [(''text'', PStr text), (''tool_calls'', PTuple calls), (''model'', PStr (am_model message)),
          (''stop_reason'', opt_str (am_stop message)), (''input_tokens'', PInt (am_input_tokens message)),
          (''output_tokens'', PInt (am_output_tokens message))]))"

definition claude_invoke :: "chat_env \<Rightarrow> ('w, claude_message) sdk_provider \<Rightarrow> payload \<Rightarrow> ('w, payload) py" where
  "claude_invoke V P request =
     bnd (lift_res (claude_request V (sp_model P) request)) (\<lambda>q.
     bnd (sdk_request Claude ''Anthropic'' (sp_client P) q) (\<lambda>message. lift_res (claude_response message)))"

definition claude_provider :: "chat_env \<Rightarrow> ('w, claude_message) sdk_provider \<Rightarrow> 'w provider" where
  "claude_provider V P = \<lparr>prov_name = ''claude'', prov_configuration = sp_configuration P,
     prov_capabilities = \<lparr>cap_streaming = False, cap_tool_calls = True, cap_vision = False, cap_embeddings = False, cap_max_context = None\<rparr>,
     prov_check_health = sdk_health ''claude'' (sp_client P) (ping_params (sp_model P)),
     prov_invoke = claude_invoke V P\<rparr>"

section \<open>Gemini\<close>

abbreviation gemini_error :: "adapter_failure \<Rightarrow> exn_class" where
  "gemini_error \<equiv> AdapterError Gemini"

text \<open>What the client raises: API errors with a status code, and the two transport classes the SDK
  does not wrap.\<close>

datatype gemini_raise = ApiError int string | HttpTimeout string | HttpTransport string | GeminiOther exn

record gemini_params =
  gq_model :: string
  gq_contents :: "(string \<times> string) list"
  gq_system :: "string option"
  gq_max_tokens :: int

record gemini_response =
  gr_text :: "string option"
  gr_candidates :: "string option list"
  gr_block_reason :: "string option"
  gr_usage :: "(int option \<times> int option) option"

type_synonym 'w gemini_client = "gemini_params \<Rightarrow> 'w \<Rightarrow> (gemini_raise + gemini_response) \<times> 'w"

record 'w gemini =
  gm_configuration :: provider_configuration
  gm_model :: string
  gm_client :: "'w gemini_client"

text \<open>\<open>int(timeout_seconds * 1000)\<close>, computed for the default client only.\<close>

definition milliseconds :: "pyfloat \<Rightarrow> int res" where
  "milliseconds t = (case float_mul t (Fin 1000) of
       Fin x \<Rightarrow> Inr (if 0 \<le> x then \<lfloor>x\<rfloor> else \<lceil>x\<rceil>)
     | NaN \<Rightarrow> Inl (Exn (ForeignException ''ValueError'') ''cannot convert float NaN to integer'')
     | _ \<Rightarrow> Inl (Exn (ForeignException ''OverflowError'') ''cannot convert float infinity to integer''))"

definition new_gemini :: "(provider_configuration \<Rightarrow> int \<Rightarrow> 'w gemini_client) \<Rightarrow> provider_configuration
    \<Rightarrow> 'w gemini_client option \<Rightarrow> 'w gemini res" where
  "new_gemini connect c client =
     rbind (check_credentials ''GeminiProvider'' ''the GOOGLE_API_KEY/GEMINI_API_KEY environment variables'' ''gemini-2.0-flash-001'' c) (\<lambda>model.
     rbind (case client of Some f \<Rightarrow> Inr f | None \<Rightarrow> rbind (milliseconds (pc_timeout c)) (\<lambda>ms. Inr (connect c ms))) (\<lambda>f.
       Inr \<lparr>gm_configuration = c, gm_model = model, gm_client = f\<rparr>))"

definition role_map :: "(string, string) dict" where
  "role_map = [(''user'', ''user''), (''assistant'', ''model'')]"

text \<open>The loop over the messages: system texts and contents, in order.\<close>

definition translate_entry :: "pyval \<Rightarrow> (string + string \<times> string) res" where
  "translate_entry entry =
     (case entry of
        PDict d \<Rightarrow>
          let role = get_or d ''role'' PNone; content = get_or d ''content'' PNone in
          if \<not> nonblank_str role
          then Inl (Exn (gemini_error AnyFailure) ''Each entry in request['messages'] must have a non-empty string 'role'.'')
          else if \<not> is_pystr content
          then Inl (Exn (gemini_error AnyFailure) ''Each entry in request['messages'] must have a string 'content'.'')
          else if role = PStr ''system'' then Inr (Inl (the_str content))
          else (case map_of role_map (the_str role) of
            None \<Rightarrow> Inl (Exn (gemini_error AnyFailure) (''request['messages'] role '' @ repr_str (the_str role)
              @ '' is not supported; expected 'system', 'user', or 'assistant'.''))
          | Some r \<Rightarrow> Inr (Inr (r, the_str content)))
      | _ \<Rightarrow> Inl (Exn (gemini_error AnyFailure) ''Each entry in request['messages'] must be a mapping.''))"

definition translate_messages :: "pyval \<Rightarrow> ((string \<times> string) list \<times> string option) res" where
  "translate_messages messages =
     (case messages of
        PList (m # ms) \<Rightarrow> rbind (rmap translate_entry (m # ms)) (\<lambda>entries.
          let system_parts = List.map_filter (\<lambda>e. case e of Inl s \<Rightarrow> Some s | Inr _ \<Rightarrow> None) entries;
              contents = List.map_filter (\<lambda>e. case e of Inl _ \<Rightarrow> None | Inr c \<Rightarrow> Some c) entries in
          if 1 < length system_parts
          then Inl (Exn (gemini_error AnyFailure) ''request['messages'] must include at most one message with role 'system'.'')
          else if contents = []
          then Inl (Exn (gemini_error AnyFailure) ''request['messages'] must include at least one non-system message.'')
          else Inr (contents, case system_parts of [] \<Rightarrow> None | s # _ \<Rightarrow> Some s))
      | _ \<Rightarrow> Inl (Exn (gemini_error AnyFailure) ''request['messages'] must be a non-empty list.''))"

fun gemini_failure :: "gemini_raise \<Rightarrow> exn" where
  "gemini_failure (ApiError code m) = (if code \<in> {401, 403}
     then Exn (gemini_error Authentication) (''Gemini API rejected the configured credentials: '' @ m)
     else Exn (gemini_error AnyFailure) (''Gemini API request failed: '' @ m))"
| "gemini_failure (HttpTimeout m) = Exn (gemini_error Timeout) (''Request to the Gemini API timed out: '' @ m)"
| "gemini_failure (HttpTransport m) = Exn (gemini_error Connection) (''Could not reach the Gemini API: '' @ m)"
| "gemini_failure (GeminiOther e) = e"

definition none_or :: "string option \<Rightarrow> string" where
  "none_or s = (case s of Some t \<Rightarrow> t | None \<Rightarrow> ''None'')"

text \<open>\<open>x if x else 0\<close> on an optional count.\<close>

definition count_or :: "int option \<Rightarrow> int" where
  "count_or n = (case n of Some k \<Rightarrow> k | None \<Rightarrow> 0)"

definition gemini_answer :: "string \<Rightarrow> gemini_response \<Rightarrow> payload res" where
  "gemini_answer model response =
     (if str_or (gr_text response) [] = [] then
        (case gr_candidates response of
           [] \<Rightarrow> Inl (Exn (gemini_error Response) (''Gemini blocked the prompt before generating a response (block_reason=''
             @ none_or (gr_block_reason response) @ '').''))
         | finish # _ \<Rightarrow> Inl (Exn (gemini_error Response) (''Gemini response contained no text content (finish_reason=''
             @ none_or finish @ '').'')))
      else case gr_candidates response of
        [] \<Rightarrow> Inl (Exn (gemini_error Response)
          ''Gemini response contained text but no candidates -- unexpected SDK response shape.'')
      | finish # _ \<Rightarrow> Inr [(''text'', PStr (str_or (gr_text response) [])), (''model'', PStr model), (''finish_reason'', opt_str finish),
          (''prompt_tokens'', PInt (case gr_usage response of Some (p, c) \<Rightarrow> count_or p | None \<Rightarrow> 0)),
          (''completion_tokens'', PInt (case gr_usage response of Some (p, c) \<Rightarrow> count_or c | None \<Rightarrow> 0))])"

definition gemini_request :: "string \<Rightarrow> payload \<Rightarrow> gemini_params res" where
  "gemini_request model request =
     rbind (translate_messages (get_or request ''messages'' PNone)) (\<lambda>(contents, system).
     rbind (max_tokens_of (gemini_error AnyFailure) request) (\<lambda>max_tokens.
       Inr \<lparr>gq_model = model, gq_contents = contents, gq_system = system, gq_max_tokens = max_tokens\<rparr>))"

definition gemini_invoke :: "'w gemini \<Rightarrow> payload \<Rightarrow> ('w, payload) py" where
  "gemini_invoke P request =
     bnd (lift_res (gemini_request (gm_model P) request)) (\<lambda>q w.
       case gm_client P q w of
         (Inl r, w') \<Rightarrow> (Inl (gemini_failure r), w')
       | (Inr response, w') \<Rightarrow> (gemini_answer (gm_model P) response, w'))"

fun gemini_unhealthy :: "gemini_raise \<Rightarrow> string option" where
  "gemini_unhealthy (ApiError _ m) = Some m"
| "gemini_unhealthy (HttpTimeout m) = Some m"
| "gemini_unhealthy (HttpTransport m) = Some m"
| "gemini_unhealthy (GeminiOther _) = None"

definition gemini_check_health :: "'w gemini \<Rightarrow> ('w, provider_health_check) py" where
  "gemini_check_health P = (\<lambda>w.
     case gm_client P \<lparr>gq_model = gm_model P, gq_contents = [(''user'', ''ping'')], gq_system = None, gq_max_tokens = 1\<rparr> w of
       (Inl r, w') \<Rightarrow> (case gemini_unhealthy r of
           Some m \<Rightarrow> (Inr \<lparr>ph_healthy = False, ph_name = ''gemini'', ph_detail = m\<rparr>, w')
         | None \<Rightarrow> (Inl (gemini_failure r), w'))
     | (Inr _, w') \<Rightarrow> (Inr \<lparr>ph_healthy = True, ph_name = ''gemini'', ph_detail = []\<rparr>, w'))"

definition gemini_provider :: "'w gemini \<Rightarrow> 'w provider" where
  "gemini_provider P = \<lparr>prov_name = ''gemini'', prov_configuration = gm_configuration P,
     prov_capabilities = \<lparr>cap_streaming = False, cap_tool_calls = False, cap_vision = False, cap_embeddings = False, cap_max_context = None\<rparr>,
     prov_check_health = gemini_check_health P,
     prov_invoke = gemini_invoke P\<rparr>"

end
