(* ===== verification/Http_Adapters.thy ===== *)
theory Http_Adapters
  imports Chat_Completions Floats
begin

text \<open>
  The local provider (\<open>providers/local.py\<close>), with what it shares with the embedding provider, the
  other adapter over raw HTTP: URL splitting, the endpoint check and the bounded retry loop. An HTTP
  client is a parameter: what one post answers or raises, and what it does to the world.
\<close>

section \<open>URLs\<close>

text \<open>
  \<open>urllib.parse.urlsplit\<close>. The checks of a bracketed host and of compatibility characters in the
  network location are parameters.
\<close>

record url_lib =
  ul_bracket_ok :: "string \<Rightarrow> bool"
  ul_netloc_ok :: "string \<Rightarrow> bool"

record split_url =
  su_scheme :: string
  su_netloc :: string
  su_query :: string
  su_fragment :: string

definition ascii_alpha :: "char \<Rightarrow> bool" where
  "ascii_alpha c = (CHR ''A'' \<le> c \<and> c \<le> CHR ''Z'' \<or> CHR ''a'' \<le> c \<and> c \<le> CHR ''z'')"

definition scheme_char :: "char \<Rightarrow> bool" where
  "scheme_char c = (ascii_alpha c \<or> CHR ''0'' \<le> c \<and> c \<le> CHR ''9'' \<or> c \<in> {CHR ''+'', CHR ''-'', CHR ''.''})"

definition lower_char :: "char \<Rightarrow> char" where
  "lower_char c = (if CHR ''A'' \<le> c \<and> c \<le> CHR ''Z'' then char_of (of_char c + 32 :: nat) else c)"

definition url_space :: "char \<Rightarrow> bool" where
  "url_space c = (of_char c \<le> (32 :: nat))"

definition rstrip_char :: "char \<Rightarrow> string \<Rightarrow> string" where
  "rstrip_char c s = rev (dropWhile (\<lambda>x. x = c) (rev s))"

text \<open>Leading control characters and blanks are dropped, tabs and line breaks removed anywhere.\<close>

definition clean_url :: "string \<Rightarrow> string" where
  "clean_url s = filter (\<lambda>c. c \<notin> {CHR 0x09, CHR 0x0A, CHR 0x0D}) (dropWhile url_space s)"

definition split_scheme :: "string \<Rightarrow> string \<times> string" where
  "split_scheme s = (case partition_at (CHR '':'') s of (before, found, after) \<Rightarrow>
     if found \<and> before \<noteq> [] \<and> ascii_alpha (hd before) \<and> list_all scheme_char before
     then (map lower_char before, after) else ([], s))"

definition urlsplit :: "url_lib \<Rightarrow> string \<Rightarrow> split_url res" where
  "urlsplit U s =
     (let (scheme, rest) = split_scheme (clean_url s);
          (netloc, path) = (if take 2 rest = ''//''
             then (takeWhile (\<lambda>c. c \<notin> {CHR ''/'', CHR ''?'', CHR ''#''}) (drop 2 rest),
                   dropWhile (\<lambda>c. c \<notin> {CHR ''/'', CHR ''?'', CHR ''#''}) (drop 2 rest))
             else ([], rest)) in
      if (CHR ''['' \<in> set netloc) \<noteq> (CHR '']'' \<in> set netloc) \<or> CHR ''['' \<in> set netloc \<and> \<not> ul_bracket_ok U netloc
      then Inl (Exn (ForeignException ''ValueError'') ''Invalid IPv6 URL'')
      else if \<not> ul_netloc_ok U netloc
      then Inl (Exn (ForeignException ''ValueError'') ''netloc contains invalid characters under NFKC normalization'')
      else case partition_at (CHR ''#'') path of (before, _, fragment) \<Rightarrow>
        (case partition_at (CHR ''?'') before of (_, _, query) \<Rightarrow>
           Inr \<lparr>su_scheme = scheme, su_netloc = netloc, su_query = query, su_fragment = fragment\<rparr>))"

text \<open>\<open>hostname\<close> and \<open>username\<close> of the result: what stands around the last \<open>@\<close>.\<close>

definition has_userinfo :: "split_url \<Rightarrow> bool" where
  "has_userinfo u = (CHR ''@'' \<in> set (su_netloc u))"

definition host_info :: "split_url \<Rightarrow> string" where
  "host_info u = rev (takeWhile (\<lambda>c. c \<noteq> CHR ''@'') (rev (su_netloc u)))"

definition host_name :: "split_url \<Rightarrow> string" where
  "host_name u = (case partition_at (CHR ''['') (host_info u) of (_, bracket, after) \<Rightarrow>
     if bracket then fst (partition_at (CHR '']'') after) else fst (partition_at (CHR '':'') (host_info u)))"

text \<open>The endpoint of an adapter: \<open>what\<close> opens its messages, \<open>path\<close> is appended.\<close>

definition http_endpoint :: "url_lib \<Rightarrow> string \<Rightarrow> string \<Rightarrow> string \<Rightarrow> string res" where
  "http_endpoint U what path base_url =
     rbind (urlsplit U base_url) (\<lambda>parsed.
       if su_scheme parsed \<notin> {''http'', ''https''} \<or> host_name parsed = []
       then Inl (Exn ProviderConfigurationError (what @ '' configuration.base_url must be an absolute HTTP(S) URL.''))
       else if has_userinfo parsed
       then Inl (Exn ProviderConfigurationError (what @ '' configuration.base_url must not contain user information.''))
       else if su_query parsed \<noteq> [] \<or> su_fragment parsed \<noteq> []
       then Inl (Exn ProviderConfigurationError (what @ '' configuration.base_url must not contain a query or fragment.''))
       else Inr (rstrip_char (CHR ''/'') base_url @ path))"

section \<open>Bounded retries\<close>

datatype http_raise = PostTimeout | PostTransport | PostOther exn

record http_response =
  hr_status :: int
  hr_json :: "pyval res"

definition is_success :: "http_response \<Rightarrow> bool" where
  "is_success r \<longleftrightarrow> 200 \<le> hr_status r \<and> hr_status r \<le> 299"

type_synonym 'w http_client =
  "string \<Rightarrow> pyval \<Rightarrow> (string, string) dict option \<Rightarrow> 'w \<Rightarrow> (http_raise + http_response) \<times> 'w"

text \<open>The loop over the attempts that are left; timeouts and transport errors are retried.\<close>

fun post_attempts :: "exn \<Rightarrow> exn \<Rightarrow> ('w \<Rightarrow> (http_raise + 'r) \<times> 'w) \<Rightarrow> nat \<Rightarrow> ('w, 'r) py" where
  "post_attempts timed_out unreachable send 0 =
     throw (Exn (ForeignException ''AssertionError'') ''bounded retry loop exhausted unexpectedly'')"
| "post_attempts timed_out unreachable send (Suc k) = (\<lambda>w.
     case send w of
       (Inr r, w') \<Rightarrow> (Inr r, w')
     | (Inl PostTimeout, w') \<Rightarrow> if k = 0 then (Inl timed_out, w') else post_attempts timed_out unreachable send k w'
     | (Inl PostTransport, w') \<Rightarrow> if k = 0 then (Inl unreachable, w') else post_attempts timed_out unreachable send k w'
     | (Inl (PostOther e), w') \<Rightarrow> (Inl e, w'))"

definition attempts_of :: "provider_configuration \<Rightarrow> nat" where
  "attempts_of c = nat (pc_retries c + 1)"

definition authentication_status :: "int list" where
  "authentication_status = [401, 403]"

record 'w http_provider =
  hp_configuration :: provider_configuration
  hp_endpoint :: string
  hp_model :: string
  hp_client :: "'w http_client"
  hp_headers :: "(string, string) dict option"

definition json_headers :: "provider_configuration \<Rightarrow> (string, string) dict" where
  "json_headers c = [(''Accept'', ''application/json''), (''Content-Type'', ''application/json'')]
     @ (case pc_api_key c of Some k \<Rightarrow> if k = [] then [] else [(''Authorization'', ''Bearer '' @ k)] | None \<Rightarrow> [])"

text \<open>Both constructors: the model, the base URL, the endpoint; headers go with a given client's
  posts and into the client that is made otherwise.\<close>

definition new_http_provider :: "url_lib \<Rightarrow> string \<Rightarrow> string \<Rightarrow> string \<Rightarrow> string
    \<Rightarrow> (provider_configuration \<Rightarrow> (string, string) dict \<Rightarrow> 'w http_client) \<Rightarrow> provider_configuration \<Rightarrow> 'w http_client option
    \<Rightarrow> 'w http_provider res" where
  "new_http_provider U cls base_message what path connect c client =
     (if (case pc_model c of None \<Rightarrow> True | Some m \<Rightarrow> blank m)
      then Inl (Exn ProviderConfigurationError (cls @ '' requires configuration.default_model.''))
      else if str_or (pc_base_url c) [] = []
      then Inl (Exn ProviderConfigurationError (cls @ base_message))
      else rbind (http_endpoint U what path (the (pc_base_url c))) (\<lambda>endpoint.
        Inr \<lparr>hp_configuration = c, hp_endpoint = endpoint, hp_model = the (pc_model c),
          hp_client = (case client of Some f \<Rightarrow> f | None \<Rightarrow> connect c (json_headers c)),
          hp_headers = (case client of Some f \<Rightarrow> Some (json_headers c) | None \<Rightarrow> None)\<rparr>))"

section \<open>The local provider\<close>

abbreviation local_error :: "adapter_failure \<Rightarrow> exn_class" where
  "local_error \<equiv> AdapterError Local"

definition chat_completions_endpoint :: "url_lib \<Rightarrow> string \<Rightarrow> string res" where
  "chat_completions_endpoint U = http_endpoint U ''LocalProvider'' ''/chat/completions''"

definition new_local :: "url_lib \<Rightarrow> (provider_configuration \<Rightarrow> (string, string) dict \<Rightarrow> 'w http_client) \<Rightarrow> provider_configuration
    \<Rightarrow> 'w http_client option \<Rightarrow> 'w http_provider res" where
  "new_local U = new_http_provider U ''LocalProvider''
     '' requires configuration.base_url for an already-running endpoint.'' ''LocalProvider'' ''/chat/completions''"

definition supported_fields :: "string list" where
  "supported_fields = [''messages'', ''max_tokens'', ''system'', ''tools'']"

definition local_post :: "'w http_provider \<Rightarrow> pyval \<Rightarrow> ('w, http_response) py" where
  "local_post P payload =
     (let attempts = attempts_of (hp_configuration P); shown = int_str (pc_retries (hp_configuration P) + 1) in
      post_attempts (Exn (local_error Timeout) (''Local inference endpoint timed out after '' @ shown @ '' attempt(s).''))
        (Exn (local_error Connection) (''Could not reach local inference endpoint after '' @ shown @ '' attempt(s).''))
        (hp_client P (hp_endpoint P) payload (hp_headers P)) attempts)"

definition token_count :: "pyval \<Rightarrow> string \<Rightarrow> int res" where
  "token_count v field = (case v of
       PInt i \<Rightarrow> if 0 \<le> i then Inr i
         else Inl (Exn (local_error Response) (''Local inference response usage field '' @ repr_str field @ '' must be a non-negative integer.''))
     | _ \<Rightarrow> Inl (Exn (local_error Response) (''Local inference response usage field '' @ repr_str field @ '' must be a non-negative integer.'')))"

definition local_request :: "string \<Rightarrow> chat_env \<Rightarrow> payload \<Rightarrow> pyval res" where
  "local_request model V request =
     (let unknown = sort (filter (\<lambda>k. k \<notin> set supported_fields) (keys request)) in
      if unknown \<noteq> [] then Inl (Exn (local_error AnyFailure) (''Unsupported local-provider request field(s): '' @ join '', '' unknown @ ''.''))
      else rbind (messages_to_chat V (local_error AnyFailure) (get_or request ''messages'' PNone) (get_or request ''system'' PNone)) (\<lambda>messages.
        rbind (max_tokens_of (local_error AnyFailure) request) (\<lambda>max_tokens.
        rbind (tools_to_chat (local_error AnyFailure) (get_or request ''tools'' PNone)) (\<lambda>tools.
          Inr (PDict ([(''model'', PStr model), (''messages'', PList messages), (''max_tokens'', PInt max_tokens), (''stream'', PBool False)]
            @ (case tools of Some ts \<Rightarrow> [(''tools'', PList ts)] | None \<Rightarrow> [])))))))"

text \<open>The reading of a response: its first choice, then model, finish reason and usage.\<close>

definition local_choice :: "chat_env \<Rightarrow> payload \<Rightarrow> (payload \<times> string \<times> pyval list) res" where
  "local_choice V payload =
     (case get_or payload ''choices'' PNone of
        PList (PDict choice # _) \<Rightarrow>
          (case get_or choice ''message'' PNone of
             PDict message \<Rightarrow>
               let raw = get_or message ''content'' PNone in
               if raw \<noteq> PNone \<and> \<not> is_pystr raw
               then Inl (Exn (local_error Response) ''Local inference response field 'content' must be a string.'')
               else rbind (tool_calls_from_chat V (local_error Response) (get_or message ''tool_calls'' PNone)) (\<lambda>calls.
                 if the_str raw = [] \<and> calls = []
                 then Inl (Exn (local_error Response) ''Local inference response contained no text content.'')
                 else Inr (choice, the_str raw, calls))
           | _ \<Rightarrow> Inl (Exn (local_error Response) ''Local inference response contained no text content.''))
      | _ \<Rightarrow> Inl (Exn (local_error Response) ''Local inference response contained no usable choice.''))"

definition normalize_response :: "chat_env \<Rightarrow> http_response \<Rightarrow> payload res" where
  "normalize_response V response =
     (case hr_json response of
        Inl e \<Rightarrow> Inl (if is_value_error e then Exn (local_error Response) ''Local inference endpoint returned invalid JSON.'' else e)
      | Inr (PDict payload) \<Rightarrow>
          rbind (local_choice V payload) (\<lambda>(choice, text, calls).
            let model = get_or payload ''model'' (PStr []); finish = get_or choice ''finish_reason'' PNone;
                usage = get_or payload ''usage'' (PDict []) in
            if \<not> nonempty_str model
            then Inl (Exn (local_error Response) ''Local inference response field 'model' must be a non-empty string.'')
            else if finish \<noteq> PNone \<and> \<not> is_pystr finish
            then Inl (Exn (local_error Response) ''Local inference response field 'finish_reason' must be a string or null.'')
            else if usage \<noteq> PNone \<and> \<not> is_mapping usage
            then Inl (Exn (local_error Response) ''Local inference response field 'usage' must be an object.'')
            else rbind (token_count (get_or (as_dict usage) ''prompt_tokens'' (PInt 0)) ''prompt_tokens'') (\<lambda>prompt_tokens.
              rbind (token_count (get_or (as_dict usage) ''completion_tokens'' (PInt 0)) ''completion_tokens'') (\<lambda>completion_tokens.
                Inr [(''text'', PStr text), (''tool_calls'', PTuple calls), (''model'', model), (''finish_reason'', finish),
                  (''prompt_tokens'', PInt prompt_tokens), (''completion_tokens'', PInt completion_tokens)])))
      | Inr _ \<Rightarrow> Inl (Exn (local_error Response) ''Local inference endpoint returned a non-object response.''))"

definition local_answer :: "chat_env \<Rightarrow> http_response \<Rightarrow> payload res" where
  "local_answer V response =
     (if hr_status response \<in> set authentication_status
      then Inl (Exn (local_error Authentication) (''Local inference endpoint rejected the configured credential (HTTP ''
        @ int_str (hr_status response) @ '').''))
      else if \<not> is_success response
      then Inl (Exn (local_error AnyFailure) (''Local inference endpoint request failed with HTTP '' @ int_str (hr_status response) @ ''.''))
      else normalize_response V response)"

definition local_invoke :: "chat_env \<Rightarrow> 'w http_provider \<Rightarrow> payload \<Rightarrow> ('w, payload) py" where
  "local_invoke V P request =
     bnd (lift_res (local_request (hp_model P) V request)) (\<lambda>payload.
     bnd (local_post P payload) (\<lambda>response. lift_res (local_answer V response)))"

definition ping_request :: payload where
  "ping_request = [(''messages'', PList [PDict [(''role'', PStr ''user''), (''content'', PStr ''ping'')]]), (''max_tokens'', PInt 1)]"

definition local_check_health :: "chat_env \<Rightarrow> 'w http_provider \<Rightarrow> ('w, provider_health_check) py" where
  "local_check_health V P =
     attempt (local_invoke V P ping_request)
       (\<lambda>e. if exn_isa (local_error AnyFailure) e then ret \<lparr>ph_healthy = False, ph_name = ''local'', ph_detail = exn_text e\<rparr> else throw e)
       (\<lambda>_. ret \<lparr>ph_healthy = True, ph_name = ''local'', ph_detail = []\<rparr>)"

definition local_provider :: "chat_env \<Rightarrow> 'w http_provider \<Rightarrow> 'w provider" where
  "local_provider V P = \<lparr>prov_name = ''local'', prov_configuration = hp_configuration P,
     prov_capabilities = \<lparr>cap_streaming = False,
       cap_tool_calls = truthy (get_or (pc_extra (hp_configuration P)) ''supports_tool_calls'' (PBool False)),
       cap_vision = False, cap_embeddings = False, cap_max_context = None\<rparr>,
     prov_check_health = local_check_health V P, prov_invoke = local_invoke V P\<rparr>"

section \<open>The retry loop\<close>

text \<open>The world after a number of posts.\<close>

fun after_posts :: "('w \<Rightarrow> 'x \<times> 'w) \<Rightarrow> nat \<Rightarrow> 'w \<Rightarrow> 'w" where
  "after_posts send 0 w = w"
| "after_posts send (Suc k) w = after_posts send k (snd (send w))"

definition retried :: "('w \<Rightarrow> (http_raise + 'r) \<times> 'w) \<Rightarrow> nat \<Rightarrow> 'w \<Rightarrow> bool" where
  "retried send k w \<longleftrightarrow> (\<forall>j < k. fst (send (after_posts send j w)) \<in> {Inl PostTimeout, Inl PostTransport})"

lemma retried_Suc:
  assumes "retried send (Suc k) w"
  shows "fst (send w) \<in> {Inl PostTimeout, Inl PostTransport}" and "retried send k (snd (send w))"
proof -
  have all: "fst (send (after_posts send j w)) \<in> {Inl PostTimeout, Inl PostTransport}" if "j < Suc k" for j
    using assms that unfolding retried_def by blast
  from all[of 0] show "fst (send w) \<in> {Inl PostTimeout, Inl PostTransport}" by simp
  show "retried send k (snd (send w))" unfolding retried_def using all[of "Suc _"] by (metis Suc_less_eq after_posts.simps(2))
qed

lemma post_attempts_answered:
  assumes "k < n" and "retried send k w" and "fst (send (after_posts send k w)) = Inr r"
  shows "post_attempts timed_out unreachable send n w = (Inr r, after_posts send (Suc k) w)"
  using assms
proof (induction n arbitrary: k w)
  case (Suc n)
  obtain x v where x: "send w = (x, v)" by (cases "send w")
  show ?case
  proof (cases k)
    case 0
    then show ?thesis using Suc.prems(3) x by (simp add: x)
  next
    case (Suc j)
    note step = retried_Suc[OF Suc.prems(2)[unfolded Suc]]
    have "n \<noteq> 0" "j < n" using Suc.prems(1) Suc by simp_all
    moreover have "post_attempts timed_out unreachable send n v = (Inr r, after_posts send (Suc j) v)"
      using Suc.IH[OF \<open>j < n\<close>, of v] step(2) Suc.prems(3) Suc x by simp
    ultimately show ?thesis using step(1) x Suc by (elim insertE emptyE) simp_all
  qed
qed simp

lemma post_attempts_exhausted:
  assumes "retried send (Suc n) w"
  shows "\<exists>e \<in> {timed_out, unreachable}. post_attempts timed_out unreachable send (Suc n) w = (Inl e, after_posts send (Suc n) w)"
  using assms
proof (induction n arbitrary: w)
  case 0
  obtain x v where x: "send w = (x, v)" by (cases "send w")
  from retried_Suc(1)[OF 0] x show ?case by (elim insertE emptyE) simp_all
next
  case (Suc n)
  obtain x v where x: "send w = (x, v)" by (cases "send w")
  from Suc.IH[of v] retried_Suc(2)[OF Suc.prems] x
  obtain e where e: "e \<in> {timed_out, unreachable}" "post_attempts timed_out unreachable send (Suc n) v = (Inl e, after_posts send (Suc n) v)"
    by auto
  have "post_attempts timed_out unreachable send (Suc (Suc n)) w = post_attempts timed_out unreachable send (Suc n) v"
    using retried_Suc(1)[OF Suc.prems] x by (elim insertE emptyE) (simp_all del: post_attempts.simps add: post_attempts.simps(2)[of _ _ _ "Suc n"])
  with e x show ?case by (intro bexI[of _ e]) (simp_all del: post_attempts.simps)
qed

lemma post_attempts_cases:
  assumes "post_attempts timed_out unreachable send (Suc n) w = (x, w')"
  shows "case x of Inl e \<Rightarrow> e \<in> {timed_out, unreachable} \<or> (\<exists>v v'. send v = (Inl (PostOther e), v'))
    | Inr r \<Rightarrow> \<exists>v v'. send v = (Inr r, v')"
  using assms
proof (induction n arbitrary: w)
  case 0
  obtain y v where y: "send w = (y, v)" by (cases "send w")
  show ?case
  proof (cases y)
    case (Inl r)
    with 0 y show ?thesis by (cases r) auto
  next
    case (Inr r)
    with 0 y have "x = Inr r" by simp
    with y Inr show ?thesis by auto
  qed
next
  case (Suc n)
  obtain y v where y: "send w = (y, v)" by (cases "send w")
  show ?case
  proof (cases y)
    case (Inl r)
    show ?thesis
    proof (cases "\<exists>e. r = PostOther e")
      case True
      then obtain e where e: "r = PostOther e" by blast
      with Suc.prems y Inl have "x = Inl e" by (simp del: post_attempts.simps add: post_attempts.simps(2)[of _ _ _ "Suc n"])
      with y Inl e show ?thesis by auto
    next
      case False
      then have "r = PostTimeout \<or> r = PostTransport" by (cases r) auto
      then have "post_attempts timed_out unreachable send (Suc n) v = (x, w')"
        using Suc.prems y Inl by (auto simp del: post_attempts.simps simp: post_attempts.simps(2)[of _ _ _ "Suc n"])
      then show ?thesis by (rule Suc.IH)
    qed
  next
    case (Inr r)
    with Suc.prems y have "x = Inr r" by (simp del: post_attempts.simps add: post_attempts.simps(2)[of _ _ _ "Suc n"])
    with y Inr show ?thesis by auto
  qed
qed

lemma attempts_of_Suc: "0 \<le> pc_retries c \<Longrightarrow> attempts_of c = Suc (nat (pc_retries c))"
  by (simp add: attempts_of_def nat_add_distrib)

text \<open>What a client raises that the adapters pass on: neither a timeout nor a transport error, nor a
  \<open>ValueError\<close> from reading the body.\<close>

definition http_passes :: "'w http_client \<Rightarrow> exn \<Rightarrow> bool" where
  "http_passes c e \<longleftrightarrow> (\<exists>u p h w w'. c u p h w = (Inl (PostOther e), w')
     \<or> (\<exists>r. c u p h w = (Inr r, w') \<and> hr_json r = Inl e \<and> \<not> is_value_error e))"

lemma http_passesI:
  "c u p h w = (Inl (PostOther e), w') \<Longrightarrow> http_passes c e"
  "c u p h w = (Inr r, w') \<Longrightarrow> hr_json r = Inl e \<Longrightarrow> \<not> is_value_error e \<Longrightarrow> http_passes c e"
  unfolding http_passes_def by blast+

end
