(* ===== verification/Embeddings.thy ===== *)
theory Embeddings
  imports Http_Adapters
begin

text \<open>
  The embedding provider over an OpenAI-compatible endpoint (\<open>providers/_embeddings/\<close>): its request
  and result values, the reading of a response by item index, and what its callers are told.
\<close>

section \<open>Requests and results\<close>

definition embedding_error :: "string \<Rightarrow> exn" where
  "embedding_error m = Exn EmbeddingError m"

definition embedding_component :: "string \<Rightarrow> pyval \<Rightarrow> real res" where
  "embedding_component field v =
     rbind (case v of PInt i \<Rightarrow> float_of_int i | PFloat f \<Rightarrow> Inr f
              | _ \<Rightarrow> Inl (embedding_error (''Embedding '' @ field @ '' must contain only real numbers.'')))
       (\<lambda>f. case f of Fin x \<Rightarrow> Inr x | _ \<Rightarrow> Inl (embedding_error (''Embedding '' @ field @ '' must contain only finite values.'')))"

definition embedding_vector :: "pyval \<Rightarrow> int option \<Rightarrow> string \<Rightarrow> real list res" where
  "embedding_vector vector dimensions field =
     (case nonempty_items vector of
        None \<Rightarrow> Inl (embedding_error (''Embedding '' @ field @ '' must be a non-empty numeric sequence.''))
      | Some xs \<Rightarrow> rbind (rmap (embedding_component field) xs) (\<lambda>v.
          if dimensions \<noteq> None \<and> int (length v) \<noteq> the dimensions
          then Inl (embedding_error (''Embedding '' @ field @ '' must contain exactly '' @ int_str (the dimensions) @ '' dimensions.''))
          else Inr v))"

definition check_embedding_request :: "pyval \<Rightarrow> string list res" where
  "check_embedding_request texts =
     (case texts of
        PTuple (x # xs) \<Rightarrow>
          if list_ex (\<lambda>t. \<not> nonblank_str t) (x # xs) then Inl (embedding_error ''Every embedding input must be a non-blank string.'')
          else Inr (map the_str (x # xs))
      | _ \<Rightarrow> Inl (embedding_error ''EmbeddingRequest.texts must be a non-empty tuple.''))"

record embedding_result =
  em_vectors :: "real list list"
  em_model :: string
  em_dimensions :: int

definition check_embedding_result :: "pyval \<Rightarrow> pyval \<Rightarrow> pyval \<Rightarrow> embedding_result res" where
  "check_embedding_result vectors model dimensions =
     (if \<not> nonblank_str model then Inl (embedding_error ''EmbeddingResult.model must be a non-blank string.'')
      else if \<not> positive_int dimensions then Inl (embedding_error ''EmbeddingResult.dimensions must be a positive integer.'')
      else case vectors of
        PTuple (x # xs) \<Rightarrow> rbind (rmap (\<lambda>v. embedding_vector v (Some (the_int dimensions)) ''result vector'') (x # xs)) (\<lambda>vs.
          Inr \<lparr>em_vectors = vs, em_model = the_str model, em_dimensions = the_int dimensions\<rparr>)
      | _ \<Rightarrow> Inl (embedding_error ''EmbeddingResult.vectors must be a non-empty tuple.''))"

definition embeddings_endpoint :: "url_lib \<Rightarrow> string \<Rightarrow> string res" where
  "embeddings_endpoint U = http_endpoint U ''Embedding'' ''/embeddings''"

definition new_embedding_provider :: "url_lib \<Rightarrow> (provider_configuration \<Rightarrow> (string, string) dict \<Rightarrow> 'w http_client)
    \<Rightarrow> provider_configuration \<Rightarrow> 'w http_client option \<Rightarrow> 'w http_provider res" where
  "new_embedding_provider U = new_http_provider U ''OpenAICompatibleEmbeddingProvider'' '' requires configuration.base_url.''
     ''Embedding'' ''/embeddings''"

definition embedding_post :: "'w http_provider \<Rightarrow> pyval \<Rightarrow> ('w, http_response) py" where
  "embedding_post P payload =
     (let attempts = attempts_of (hp_configuration P); shown = int_str (pc_retries (hp_configuration P) + 1) in
      post_attempts (embedding_error (''Embedding endpoint timed out after '' @ shown @ '' attempt(s).''))
        (embedding_error (''Could not reach embedding endpoint after '' @ shown @ '' attempt(s).''))
        (hp_client P (hp_endpoint P) payload (hp_headers P)) attempts)"

text \<open>One item of the response, placed at its index; the first vector sets the dimensions.\<close>

definition place_item :: "pyval \<Rightarrow> real list option list \<times> int option \<Rightarrow> (real list option list \<times> int option) res" where
  "place_item item = (\<lambda>(ordered, dimensions).
     case item of
       PDict d \<Rightarrow>
         let index = (case get_or d ''index'' PNone of PInt i \<Rightarrow> i | _ \<Rightarrow> - 1) in
         if index < 0 \<or> int (length ordered) \<le> index
         then Inl (embedding_error ''Embedding response contained an invalid item index.'')
         else if ordered ! nat index \<noteq> None
         then Inl (embedding_error ''Embedding response contained a duplicate item index.'')
         else rbind (embedding_vector (get_or d ''embedding'' PNone) None ''response vector'') (\<lambda>v.
           if dimensions \<noteq> None \<and> int (length v) \<noteq> the dimensions
           then Inl (embedding_error ''Embedding response vectors had inconsistent dimensions.'')
           else Inr (ordered[nat index := Some v], Some (int (length v))))
     | _ \<Rightarrow> Inl (embedding_error ''Embedding response items must be objects.''))"

fun place_items :: "pyval list \<Rightarrow> real list option list \<times> int option \<Rightarrow> (real list option list \<times> int option) res" where
  "place_items [] acc = Inr acc"
| "place_items (x # xs) acc = rbind (place_item x acc) (place_items xs)"

definition vector_value :: "real list \<Rightarrow> pyval" where
  "vector_value v = PTuple (map (\<lambda>x. PFloat (Fin x)) v)"

definition embedding_vectors :: "nat \<Rightarrow> string \<Rightarrow> pyval list \<Rightarrow> embedding_result res" where
  "embedding_vectors n model items =
     rbind (place_items items (replicate n None, None)) (\<lambda>(ordered, dimensions).
       if None \<in> set ordered \<or> dimensions = None
       then Inl (embedding_error ''Embedding response omitted one or more input indices.'')
       else rbind (check_embedding_result (PTuple (map (vector_value \<circ> the) ordered)) (PStr model) (PInt (the dimensions))) (\<lambda>r.
         if length (em_vectors r) \<noteq> n then Inl (embedding_error ''Embedding response did not preserve the input batch size.'')
         else Inr r))"

definition normalize_embeddings :: "string list \<Rightarrow> string \<Rightarrow> http_response \<Rightarrow> embedding_result res" where
  "normalize_embeddings texts configured response =
     (case hr_json response of
        Inl e \<Rightarrow> Inl (if is_value_error e then embedding_error ''Embedding endpoint returned invalid JSON.'' else e)
      | Inr (PDict payload) \<Rightarrow>
          let model = get_or payload ''model'' PNone in
          if \<not> nonblank_str model then Inl (embedding_error ''Embedding response field 'model' must be a non-blank string.'')
          else if the_str model \<noteq> configured
          then Inl (embedding_error ''Embedding response model did not match the configured model.'')
          else (case get_or payload ''data'' PNone of
            PList items \<Rightarrow>
              if length items \<noteq> length texts then Inl (embedding_error ''Embedding response did not contain one item per input.'')
              else embedding_vectors (length texts) (the_str model) items
          | _ \<Rightarrow> Inl (embedding_error ''Embedding response did not contain one item per input.''))
      | Inr _ \<Rightarrow> Inl (embedding_error ''Embedding endpoint returned a non-object response.''))"

definition embed_answer :: "string list \<Rightarrow> string \<Rightarrow> http_response \<Rightarrow> embedding_result res" where
  "embed_answer texts model response =
     (if hr_status response \<in> set authentication_status
      then Inl (embedding_error (''Embedding endpoint rejected the configured credential (HTTP '' @ int_str (hr_status response) @ '').''))
      else if \<not> is_success response
      then Inl (embedding_error (''Embedding endpoint request failed with HTTP '' @ int_str (hr_status response) @ ''.''))
      else normalize_embeddings texts model response)"

definition embed :: "'w http_provider \<Rightarrow> string list \<Rightarrow> ('w, embedding_result) py" where
  "embed P texts =
     bnd (embedding_post P (PDict [(''model'', PStr (hp_model P)), (''input'', PList (map PStr texts))])) (\<lambda>response.
       lift_res (embed_answer texts (hp_model P) response))"

definition embedding_check_health :: "'w http_provider \<Rightarrow> ('w, provider_health_check) py" where
  "embedding_check_health P =
     attempt (embed P [''health''])
       (\<lambda>e. if exn_isa EmbeddingError e then ret \<lparr>ph_healthy = False, ph_name = ''openai-compatible-embedding'', ph_detail = exn_text e\<rparr>
             else throw e)
       (\<lambda>_. ret \<lparr>ph_healthy = True, ph_name = ''openai-compatible-embedding'', ph_detail = []\<rparr>)"

section \<open>Retries\<close>

text \<open>C17 Both HTTP adapters keep trying: an answer that comes within \<open>max_retries\<close> failed attempts is
  returned as soon as it comes, after exactly one more post than failed; when every one of the
  \<open>max_retries + 1\<close> attempts times out or cannot connect, exactly that many posts were made and
  the adapter's timeout or connection error is raised.\<close>

theorem posts_are_retried:
  assumes "0 \<le> pc_retries (hp_configuration P)" and "retried (hp_client P (hp_endpoint P) payload (hp_headers P)) k w"
  shows "let send = hp_client P (hp_endpoint P) payload (hp_headers P); last = nat (pc_retries (hp_configuration P)) in
    (\<forall>r. k \<le> last \<and> fst (send (after_posts send k w)) = Inr r \<longrightarrow>
       local_post P payload w = (Inr r, after_posts send (Suc k) w)
       \<and> embedding_post P payload w = (Inr r, after_posts send (Suc k) w))
    \<and> (k = Suc last \<longrightarrow>
       (\<exists>e. local_post P payload w = (Inl e, after_posts send k w)
          \<and> (exn_isa (local_error Timeout) e \<or> exn_isa (local_error Connection) e))
       \<and> (\<exists>e. embedding_post P payload w = (Inl e, after_posts send k w) \<and> exn_isa EmbeddingError e))"
proof -
  let ?send = "hp_client P (hp_endpoint P) payload (hp_headers P)" and ?last = "nat (pc_retries (hp_configuration P))"
  have attempts: "attempts_of (hp_configuration P) = Suc ?last" by (rule attempts_of_Suc[OF assms(1)])
  obtain te ue where l: "local_post P payload = post_attempts te ue ?send (Suc ?last)"
      "exn_isa (local_error Timeout) te" "exn_isa (local_error Connection) ue"
    unfolding local_post_def Let_def attempts using exn_isa_self by blast
  obtain te' ue' where m: "embedding_post P payload = post_attempts te' ue' ?send (Suc ?last)"
      "exn_isa EmbeddingError te'" "exn_isa EmbeddingError ue'"
    unfolding embedding_post_def Let_def attempts embedding_error_def using exn_isa_self by blast
  have answered: "post_attempts t u ?send (Suc ?last) w = (Inr r, after_posts ?send (Suc k) w)"
    if "k \<le> ?last" "fst (?send (after_posts ?send k w)) = Inr r" for t u r
    using post_attempts_answered[OF _ assms(2) that(2), of "Suc ?last" t u] that(1) by simp
  have exhausted: "\<exists>e \<in> {t, u}. post_attempts t u ?send (Suc ?last) w = (Inl e, after_posts ?send k w)" if "k = Suc ?last" for t u
    using post_attempts_exhausted[of ?send ?last w t u] assms(2) that by simp
  show ?thesis unfolding Let_def l(1) m(1)
  proof (intro conjI allI impI)
    fix r
    assume r: "k \<le> ?last \<and> fst (?send (after_posts ?send k w)) = Inr r"
    then show "post_attempts te ue ?send (Suc ?last) w = (Inr r, after_posts ?send (Suc k) w)"
      "post_attempts te' ue' ?send (Suc ?last) w = (Inr r, after_posts ?send (Suc k) w)" using answered by blast+
  next
    assume "k = Suc ?last"
    note exhausted = exhausted[OF this]
    show "\<exists>e. post_attempts te ue ?send (Suc ?last) w = (Inl e, after_posts ?send k w)
        \<and> (exn_isa (local_error Timeout) e \<or> exn_isa (local_error Connection) e)"
      using exhausted[of te ue] l(2,3) by blast
    show "\<exists>e. post_attempts te' ue' ?send (Suc ?last) w = (Inl e, after_posts ?send k w) \<and> exn_isa EmbeddingError e"
      using exhausted[of te' ue'] m(2,3) by blast
  qed
qed

section \<open>Embeddings come back in order\<close>

definition embedding_fails :: "exn \<Rightarrow> bool" where
  "embedding_fails e \<longleftrightarrow> exn_isa EmbeddingError e \<or> exn_isa (ForeignException ''OverflowError'') e"

lemma embedding_fails_own [simp]: "embedding_fails (embedding_error m)"
  by (simp add: embedding_fails_def embedding_error_def)

lemma embedding_component_fails: "embedding_component field v = Inl e \<Longrightarrow> embedding_fails e"
  by (auto simp: embedding_component_def rbind_def float_of_int_def embedding_fails_def[of "Exn _ _"]
      split: pyval.splits sum.splits pyfloat.splits)

lemma embedding_vector_fails: "embedding_vector v n field = Inl e \<Longrightarrow> embedding_fails e"
  by (auto simp: embedding_vector_def rbind_def split: option.splits sum.splits if_splits dest!: rmap_error dest: embedding_component_fails)

lemma embedding_vector_nonempty: "embedding_vector v n field = Inr x \<Longrightarrow> x \<noteq> []"
  by (auto simp: embedding_vector_def nonempty_items_def rbind_Inr_iff split: option.splits list.splits if_splits)

text \<open>What an item places: its vector, at its index.\<close>

definition item_vector :: "pyval \<Rightarrow> nat \<Rightarrow> real list \<Rightarrow> bool" where
  "item_vector item i v \<longleftrightarrow> (\<exists>d. item = PDict d \<and> get_or d ''index'' PNone = PInt (int i)
     \<and> embedding_vector (get_or d ''embedding'' PNone) None ''response vector'' = Inr v)"

lemma dims_kept:
  "(if dims \<noteq> None \<and> n \<noteq> the dims then Inl e else Inr (a, Some n)) = Inr (b, c)
    \<Longrightarrow> b = a \<and> c = Some n \<and> (dims = None \<or> dims = c)"
  by (cases dims) (auto split: if_splits)

lemma place_item_sound:
  assumes "place_item item (ordered, dims) = Inr (ordered', dims')"
  shows "\<exists>i v. item_vector item i v \<and> i < length ordered \<and> ordered ! i = None \<and> ordered' = ordered[i := Some v]
    \<and> dims' = Some (int (length v)) \<and> (dims = None \<or> dims = dims')"
proof -
  obtain d where d: "item = PDict d" using assms by (cases item) (simp_all add: place_item_def)
  obtain n where n: "get_or d ''index'' PNone = PInt n" "0 \<le> n" "n < int (length ordered)"
    using assms by (cases "get_or d ''index'' PNone") (auto simp: place_item_def d Let_def split: if_splits)
  then have i: "int (nat n) = n" "nat n < length ordered" by auto
  have step: "(if ordered ! nat n \<noteq> None
      then Inl (embedding_error ''Embedding response contained a duplicate item index.'')
      else rbind (embedding_vector (get_or d ''embedding'' PNone) None ''response vector'') (\<lambda>v.
        if dims \<noteq> None \<and> int (length v) \<noteq> the dims
        then Inl (embedding_error ''Embedding response vectors had inconsistent dimensions.'')
        else Inr (ordered[nat n := Some v], Some (int (length v))))) = Inr (ordered', dims')"
    using assms n by (simp add: place_item_def d Let_def split: if_splits)
  from step have free: "ordered ! nat n = None" by (cases "ordered ! nat n") simp_all
  have "rbind (embedding_vector (get_or d ''embedding'' PNone) None ''response vector'') (\<lambda>v.
        if dims \<noteq> None \<and> int (length v) \<noteq> the dims
        then Inl (embedding_error ''Embedding response vectors had inconsistent dimensions.'')
        else Inr (ordered[nat n := Some v], Some (int (length v)))) = Inr (ordered', dims')"
    using step free by (simp only: if_False not_True_eq_False simp_thms)
  then obtain v where v: "embedding_vector (get_or d ''embedding'' PNone) None ''response vector'' = Inr v"
      "(if dims \<noteq> None \<and> int (length v) \<noteq> the dims
        then Inl (embedding_error ''Embedding response vectors had inconsistent dimensions.'')
        else Inr (ordered[nat n := Some v], Some (int (length v)))) = Inr (ordered', dims')"
    by (rule rbind_InrE) (rule that)
  have "item_vector item (nat n) v" unfolding item_vector_def using v(1) n(1) i(1) d by simp
  with dims_kept[OF v(2)] free i(2) show ?thesis by blast
qed

definition placed :: "pyval set \<Rightarrow> real list option list \<Rightarrow> int option \<Rightarrow> bool" where
  "placed items ordered dims \<longleftrightarrow> (\<forall>i < length ordered. \<forall>v. ordered ! i = Some v \<longrightarrow>
     (\<exists>item \<in> items. item_vector item i v) \<and> dims = Some (int (length v)))"

lemma place_items_sound:
  assumes "place_items items (ordered, dims) = Inr (ordered', dims')" and "placed S ordered dims"
  shows "length ordered' = length ordered \<and> placed (S \<union> set items) ordered' dims'"
  using assms
proof (induction items arbitrary: ordered dims S)
  case (Cons item items)
  then obtain o1 d1 where o1: "place_item item (ordered, dims) = Inr (o1, d1)" "place_items items (o1, d1) = Inr (ordered', dims')"
    by (auto simp: rbind_Inr_iff)
  obtain i v where v: "item_vector item i v" "i < length ordered" "o1 = ordered[i := Some v]" "d1 = Some (int (length v))"
      "dims = None \<or> dims = d1" using place_item_sound[OF o1(1)] by blast
  have "placed (insert item S) o1 d1" unfolding placed_def
  proof (intro allI impI)
    fix j u
    assume j: "j < length o1" "o1 ! j = Some u"
    show "(\<exists>x \<in> insert item S. item_vector x j u) \<and> d1 = Some (int (length u))"
    proof (cases "j = i")
      case True
      with j v show ?thesis by auto
    next
      case False
      with j v(3) have "ordered ! j = Some u" "j < length ordered" by auto
      with Cons.prems(2) have "(\<exists>x \<in> S. item_vector x j u) \<and> dims = Some (int (length u))" by (simp add: placed_def)
      with v(5) show ?thesis by auto
    qed
  qed
  from Cons.IH[OF o1(2) this] v(3) show ?case by simp
qed simp

lemma place_items_fails: "place_items items acc = Inl e \<Longrightarrow> embedding_fails e"
proof (induction items arbitrary: acc)
  case (Cons item items)
  have "place_item item acc = Inl e \<Longrightarrow> embedding_fails e"
    by (auto simp: place_item_def Let_def rbind_def split: prod.splits pyval.splits if_splits sum.splits dest: embedding_vector_fails)
  with Cons show ?case by (auto simp: rbind_def split: sum.splits)
qed simp

lemma vector_value_read: "v \<noteq> [] \<Longrightarrow> int (length v) = n \<Longrightarrow> embedding_vector (vector_value v) (Some n) field = Inr v"
proof -
  assume v: "v \<noteq> []" "int (length v) = n"
  have "rmap (embedding_component field) (map (\<lambda>x. PFloat (Fin x)) v) = Inr (map id v)"
    by (induction v) (simp_all add: embedding_component_def)
  moreover have "nonempty_items (vector_value v) = Some (map (\<lambda>x. PFloat (Fin x)) v)"
    using v(1) by (cases v) (simp_all add: vector_value_def nonempty_items_def)
  ultimately show ?thesis using v(2) by (simp add: embedding_vector_def)
qed

lemma check_embedding_result_read:
  assumes "check_embedding_result (PTuple xs) (PStr m) (PInt d) = Inr r"
    and "rmap (\<lambda>v. embedding_vector v (Some d) ''result vector'') xs = Inr vs"
  shows "r = \<lparr>em_vectors = vs, em_model = m, em_dimensions = d\<rparr> \<and> 0 < d"
proof (cases xs)
  case Nil
  with assms(1) show ?thesis by (simp add: check_embedding_result_def split: if_splits)
next
  case (Cons y ys)
  with assms show ?thesis by (simp add: check_embedding_result_def positive_int_def del: rmap.simps split: if_splits)
qed

lemma embedding_vectors_sound:
  assumes "embedding_vectors n model items = Inr r"
  shows "length (em_vectors r) = n \<and> em_model r = model \<and> 0 < em_dimensions r
    \<and> (\<forall>v \<in> set (em_vectors r). int (length v) = em_dimensions r)
    \<and> (\<forall>i < n. \<exists>item \<in> set items. item_vector item i (em_vectors r ! i))"
proof -
  obtain ordered d where o: "place_items items (replicate n None, None) = Inr (ordered, Some d)" "None \<notin> set ordered"
      "check_embedding_result (PTuple (map (vector_value \<circ> the) ordered)) (PStr model) (PInt d) = Inr r" "length (em_vectors r) = n"
    using assms by (auto simp: embedding_vectors_def rbind_Inr_iff split: if_splits)
  have "placed {} (replicate n None) None" by (simp add: placed_def)
  from place_items_sound[OF o(1) this] have len: "length ordered = n" and placed: "placed (set items) ordered (Some d)" by simp_all
  have each: "\<exists>v. ordered ! i = Some v \<and> (\<exists>item \<in> set items. item_vector item i v) \<and> d = int (length v) \<and> v \<noteq> []" if i: "i < n" for i
  proof -
    have "ordered ! i \<in> set ordered" using i len by simp
    with o(2) obtain v where v: "ordered ! i = Some v" by (cases "ordered ! i") auto
    with placed i len have item: "\<exists>item \<in> set items. item_vector item i v" "d = int (length v)" by (auto simp: placed_def)
    then have "v \<noteq> []" by (auto simp: item_vector_def dest: embedding_vector_nonempty)
    with v item show ?thesis by blast
  qed
  have read: "embedding_vector (vector_value (the x)) (Some d) field = Inr (the x)" if x: "x \<in> set ordered" for x field
  proof -
    obtain i where i: "i < n" "x = ordered ! i" using x len by (auto simp: in_set_conv_nth)
    obtain v where "ordered ! i = Some v" "d = int (length v)" "v \<noteq> []" using each[OF i(1)] by blast
    with vector_value_read[of v d field] i(2) show ?thesis by simp
  qed
  have "rmap (\<lambda>v. embedding_vector v (Some d) ''result vector'') (map (vector_value \<circ> the) ordered) = Inr (map the ordered)"
    using read by (induction ordered) auto
  with check_embedding_result_read[OF o(3)]
  have r: "r = \<lparr>em_vectors = map the ordered, em_model = model, em_dimensions = d\<rparr>" "0 < d" by simp_all
  show ?thesis
  proof (intro conjI ballI allI impI)
    fix i assume i: "i < n"
    then show "\<exists>item \<in> set items. item_vector item i (em_vectors r ! i)" using each[OF i] len by (auto simp: r)
  next
    fix v assume "v \<in> set (em_vectors r)"
    then obtain i where i: "i < n" "v = the (ordered ! i)" using len by (auto simp: r in_set_conv_nth)
    from each[OF i(1)] i(2) show "int (length v) = em_dimensions r" by (auto simp: r)
  qed (use r o(4) in auto)
qed

lemma embed_answer_sound:
  assumes "embed_answer texts model r = Inr result"
  shows "is_success r \<and> em_model result = model \<and> length (em_vectors result) = length texts \<and> 0 < em_dimensions result
    \<and> (\<forall>v \<in> set (em_vectors result). int (length v) = em_dimensions result)
    \<and> (\<exists>d items. hr_json r = Inr (PDict d) \<and> get_or d ''data'' PNone = PList items \<and> length items = length texts
         \<and> (\<forall>i < length texts. \<exists>item \<in> set items. item_vector item i (em_vectors result ! i)))"
proof -
  from assms have r: "is_success r" "normalize_embeddings texts model r = Inr result"
    by (simp_all add: embed_answer_def split: if_splits)
  obtain d where d: "hr_json r = Inr (PDict d)"
    using r(2) by (cases "hr_json r"; cases "projr (hr_json r)") (simp_all add: normalize_embeddings_def)
  obtain items where items: "get_or d ''data'' PNone = PList items"
    using r(2) by (cases "get_or d ''data'' PNone") (simp_all add: normalize_embeddings_def d Let_def split: if_splits)
  have v: "the_str (get_or d ''model'' PNone) = model" "length items = length texts" "embedding_vectors (length texts) model items = Inr result"
    using r(2) by (auto simp: normalize_embeddings_def d items Let_def split: if_splits)
  show ?thesis using embedding_vectors_sound[OF v(3)] r(1) d items v(2) by auto
qed

lemma check_embedding_result_fails: "check_embedding_result vs m d = Inl e \<Longrightarrow> embedding_fails e"
  by (auto simp: check_embedding_result_def rbind_def simp del: rmap.simps split: if_splits pyval.splits list.splits sum.splits
      dest!: rmap_error dest: embedding_vector_fails)

lemma embedding_vectors_fails: "embedding_vectors n model items = Inl e \<Longrightarrow> embedding_fails e"
  by (auto simp: embedding_vectors_def rbind_def split: if_splits sum.splits prod.splits
      dest: place_items_fails check_embedding_result_fails)

lemma embed_answer_fails:
  assumes "embed_answer texts model r = Inl e"
  shows "embedding_fails e \<or> hr_json r = Inl e \<and> \<not> is_value_error e"
proof (cases "hr_json r")
  case (Inl f)
  with assms show ?thesis by (auto simp: embed_answer_def normalize_embeddings_def split: if_splits)
next
  case (Inr v)
  show ?thesis
  proof (cases "\<exists>d items. v = PDict d \<and> get_or d ''data'' PNone = PList items")
    case True
    then obtain d items where "v = PDict d" "get_or d ''data'' PNone = PList items" by blast
    with assms Inr show ?thesis
      by (auto simp: embed_answer_def normalize_embeddings_def Let_def split: if_splits dest: embedding_vectors_fails)
  next
    case False
    with assms Inr show ?thesis
      by (auto simp: embed_answer_def normalize_embeddings_def Let_def split: if_splits pyval.splits)
  qed
qed

text \<open>C16 What a caller of the embedding adapter may rely on, whatever the endpoint answers: a result
  carries the configured model and one vector for each text, all of the one dimension it states, and
  the vector at each position is the one the endpoint gave for that index, whatever order it sent its
  items in; it comes from a successful answer to one of the posts. A failure is an \<open>EmbeddingError\<close>,
  the \<open>OverflowError\<close> of a component too large for a float, or an exception the client raised that
  is neither a timeout nor a transport error nor the \<open>ValueError\<close> of a body that is no JSON.\<close>

theorem embed_told:
  assumes "0 \<le> pc_retries (hp_configuration P)" and "embed P texts w = (x, w')"
  shows "case x of Inl e \<Rightarrow> embedding_fails e \<or> http_passes (hp_client P) e
    | Inr result \<Rightarrow> em_model result = hp_model P \<and> length (em_vectors result) = length texts \<and> 0 < em_dimensions result
        \<and> (\<forall>v \<in> set (em_vectors result). int (length v) = em_dimensions result)
        \<and> (\<exists>v v' r d items.
             hp_client P (hp_endpoint P) (PDict [(''model'', PStr (hp_model P)), (''input'', PList (map PStr texts))]) (hp_headers P) v
               = (Inr r, v')
             \<and> is_success r \<and> hr_json r = Inr (PDict d) \<and> get_or d ''data'' PNone = PList items
             \<and> (\<forall>i < length texts. \<exists>item \<in> set items. item_vector item i (em_vectors result ! i)))"
proof -
  let ?send = "hp_client P (hp_endpoint P) (PDict [(''model'', PStr (hp_model P)), (''input'', PList (map PStr texts))]) (hp_headers P)"
  obtain t u n where post: "embedding_post P (PDict [(''model'', PStr (hp_model P)), (''input'', PList (map PStr texts))])
      = post_attempts (embedding_error t) (embedding_error u) ?send (Suc n)"
    unfolding embedding_post_def Let_def attempts_of_Suc[OF assms(1)] by blast
  obtain y v where y: "post_attempts (embedding_error t) (embedding_error u) ?send (Suc n) w = (y, v)" by fastforce
  note cases = post_attempts_cases[OF y]
  show ?thesis
  proof (cases y)
    case (Inl e)
    then have "x = Inl e" using assms(2) y by (simp add: embed_def post bnd_def)
    with cases Inl show ?thesis by (auto dest: http_passesI(1))
  next
    case (Inr r)
    then obtain u u' where sent: "?send u = (Inr r, u')" using cases by auto
    have x: "x = embed_answer texts (hp_model P) r" using assms(2) y Inr by (simp add: embed_def post bnd_def lift_res_def)
    show ?thesis
    proof (cases x)
      case (Inl e)
      with x embed_answer_fails[of texts "hp_model P" r e] sent http_passesI(2) have "embedding_fails e \<or> http_passes (hp_client P) e"
        by metis
      then show ?thesis unfolding Inl by simp
    next
      case (Inr result)
      with x have "embed_answer texts (hp_model P) r = Inr result" by simp
      from embed_answer_sound[OF this] sent show ?thesis unfolding Inr sum.case by blast
    qed
  qed
qed

text \<open>A client that times out once and then sends the items of two texts in the reverse order.\<close>

definition reversed_item :: "int \<Rightarrow> real \<Rightarrow> pyval" where
  "reversed_item i x = PDict [(''index'', PInt i), (''embedding'', PList [PFloat (Fin x)])]"

definition reversed_response :: http_response where
  "reversed_response = \<lparr>hr_status = 200, hr_json = Inr (PDict [(''model'', PStr ''m''),
     (''data'', PList [reversed_item 1 2, reversed_item 0 1])])\<rparr>"

definition sleepy_client :: "nat http_client" where
  "sleepy_client url payload headers w = (if w = 0 then Inl PostTimeout else Inr reversed_response, Suc w)"

definition sleepy_embedder :: "nat http_provider" where
  "sleepy_embedder = \<lparr>hp_configuration = \<lparr>pc_name = ''e'', pc_model = Some ''m'', pc_api_key = None, pc_base_url = None,
       pc_timeout = Fin 1, pc_retries = 1, pc_extra = []\<rparr>,
     hp_endpoint = ''u'', hp_model = ''m'', hp_client = sleepy_client, hp_headers = None\<rparr>"

lemma sleepy_model: "hp_model sleepy_embedder = ''m''" by (simp add: sleepy_embedder_def)

lemma sleepy_post: "embedding_post sleepy_embedder payload 0 = (Inr reversed_response, 2)"
  by (simp add: embedding_post_def attempts_of_def sleepy_embedder_def sleepy_client_def Let_def
      post_attempts.simps eval_nat_numeral)

lemma reversed_item_places:
  "length ordered = 2 \<Longrightarrow> i \<in> {0, 1} \<Longrightarrow> ordered ! nat i = None \<Longrightarrow> dims = None \<or> dims = Some 1 \<Longrightarrow>
    place_item (reversed_item i x) (ordered, dims) = Inr (ordered[nat i := Some [x]], Some 1)"
  by (auto simp: place_item_def reversed_item_def get_or_def embedding_vector_def nonempty_items_def
      embedding_component_def Let_def)

lemma reversed_answer:
  "embed_answer [''a'', ''b''] ''m'' reversed_response = Inr \<lparr>em_vectors = [[1], [2]], em_model = ''m'', em_dimensions = 1\<rparr>"
  by (simp add: embed_answer_def normalize_embeddings_def reversed_response_def authentication_status_def is_success_def
      py_isspace_def get_or_def embedding_vectors_def reversed_item_places numeral_2_eq_2
      check_embedding_result_def positive_int_def vector_value_def embedding_vector_def nonempty_items_def
      embedding_component_def Let_def)

lemma embed_told_witness:
  "fst (embed sleepy_embedder [''a'', ''b''] 0) = Inr \<lparr>em_vectors = [[1], [2]], em_model = ''m'', em_dimensions = 1\<rparr>
    \<and> (\<exists>result. fst (embed sleepy_embedder [''a'', ''b''] 0) = Inr result \<and> em_model result = ''m'' \<and> length (em_vectors result) = 2)"
proof -
  have e: "embed sleepy_embedder [''a'', ''b''] 0 = (Inr \<lparr>em_vectors = [[1], [2]], em_model = ''m'', em_dimensions = 1\<rparr>, 2)"
    by (simp add: embed_def bnd_def sleepy_post lift_res_def reversed_answer sleepy_model)
  from embed_told[OF _ e] e show ?thesis by (simp add: sleepy_embedder_def)
qed

lemma posts_are_retried_witness:
  "local_post sleepy_embedder PNone 0 = (Inr reversed_response, 2) \<and> embedding_post sleepy_embedder PNone 0 = (Inr reversed_response, 2)"
proof -
  let ?send = "hp_client sleepy_embedder (hp_endpoint sleepy_embedder) PNone (hp_headers sleepy_embedder)"
  have step: "?send w = (if w = 0 then Inl PostTimeout else Inr reversed_response, Suc w)" for w
    by (simp add: sleepy_embedder_def sleepy_client_def)
  have "0 \<le> pc_retries (hp_configuration sleepy_embedder)" by (simp add: sleepy_embedder_def)
  moreover have "retried ?send 1 0" by (simp add: retried_def step)
  moreover have "1 \<le> nat (pc_retries (hp_configuration sleepy_embedder)) \<and> fst (?send (after_posts ?send 1 0)) = Inr reversed_response"
    by (simp add: step) (simp add: sleepy_embedder_def)
  moreover have "after_posts ?send (Suc 1) 0 = 2" by (simp add: step)
  ultimately show ?thesis using posts_are_retried[of sleepy_embedder PNone 1 0] unfolding Let_def by metis
qed

end
