(* ===== verification/Adapters.thy ===== *)
theory Adapters
  imports Sdk_Adapters Embeddings Tool_Loop
begin

text \<open>
  The adapters behind the provider interface: what they raise, that the dispatcher contains it,
  and what their successful responses hold.
\<close>

section \<open>What the adapters raise\<close>

text \<open>What a client raises that its adapter passes on: neither an error of the SDK's own base class
  nor, for Gemini, an API error, a timeout or a transport error.\<close>

definition sdk_passes :: "('w, 'r) sdk_client \<Rightarrow> exn \<Rightarrow> bool" where
  "sdk_passes c e \<longleftrightarrow> (\<exists>q w w'. c q w = (Inl (OtherRaise e), w'))"

definition gemini_passes :: "'w gemini_client \<Rightarrow> exn \<Rightarrow> bool" where
  "gemini_passes c e \<longleftrightarrow> (\<exists>q w w'. c q w = (Inl (GeminiOther e), w'))"

text \<open>What the dispatcher turns into a result: an \<open>Exception\<close> with a text.\<close>

definition contained :: "exn \<Rightarrow> bool" where
  "contained e \<longleftrightarrow> exn_is_exception e \<and> \<not> blank (exn_text e)"

text \<open>An error of the adapter's family, or one of the classes that leave it undeclared.\<close>

definition adapter_raises :: "adapter \<Rightarrow> exn \<Rightarrow> bool" where
  "adapter_raises A e \<longleftrightarrow> answered (AdapterError A AnyFailure) e \<or> e = Exn (ForeignException ''IndexError'') ''list index out of range''"

lemma exn_isa_exception: "exn_isa c e \<Longrightarrow> (\<And>n. c \<noteq> ForeignBaseException n) \<Longrightarrow> exn_is_exception e"
proof (cases e)
  case (Exn d m)
  assume "exn_isa c e" and other: "\<And>n. c \<noteq> ForeignBaseException n"
  then have "c \<in> set (exn_mro d)" using Exn by simp
  then have "\<And>n. d \<noteq> ForeignBaseException n" using other by auto
  then show ?thesis using Exn by (cases d) auto
qed simp

lemma adapter_raises_contained: "adapter_raises A e \<Longrightarrow> contained e"
proof -
  assume "adapter_raises A e"
  then consider "answered (AdapterError A AnyFailure) e" | "e = Exn (ForeignException ''IndexError'') ''list index out of range''"
    by (auto simp: adapter_raises_def)
  then show ?thesis
  proof cases
    case 1
    then show ?thesis unfolding answered_def is_value_error_def contained_def by (blast intro: exn_isa_exception)
  qed (simp add: not_space contained_def)
qed

lemma adapter_raises_own:
  "answered (AdapterError A AnyFailure) e \<Longrightarrow> adapter_raises A e"
  "told (AdapterError A AnyFailure) e \<Longrightarrow> adapter_raises A e"
  "\<not> blank m \<Longrightarrow> adapter_raises A (Exn (AdapterError A f) m)"
  by (auto simp: adapter_raises_def told_def answered_def)

lemma index_raises: "adapter_raises A (Exn (ForeignException ''IndexError'') ''list index out of range'')"
  by (simp add: adapter_raises_def)

lemma answered_response: "answered (AdapterError A Response) e \<Longrightarrow> adapter_raises A e"
proof -
  assume "answered (AdapterError A Response) e"
  moreover have "exn_isa (AdapterError A Response) e \<Longrightarrow> exn_isa (AdapterError A AnyFailure) e"
  proof (cases e)
    case (Exn d m)
    assume "exn_isa (AdapterError A Response) e"
    then have "d = AdapterError A Response" using Exn by (cases d) (auto split: if_splits)
    with Exn show ?thesis by simp
  qed simp
  ultimately show ?thesis by (auto simp: adapter_raises_def answered_def)
qed

lemma sdk_failure_raises: "sdk_failure A api (SdkError k m) = e \<Longrightarrow> \<not> blank api \<Longrightarrow> adapter_raises A e"
  by (cases k) (auto intro!: adapter_raises_own(3) simp: not_space)

lemma openai_raises:
  assumes "openai_invoke V P request w = (Inl e, w')"
  shows "adapter_raises OpenAI e \<or> sdk_passes (sp_client P) e"
proof (cases "openai_request V (sp_model P) request")
  case (Inl e')
  then have "told (AdapterError OpenAI AnyFailure) e'"
    by (auto simp: openai_request_def rbind_def split: sum.splits dest: messages_error max_tokens_error tools_error)
  moreover have "e = e'" using assms Inl by (simp add: openai_invoke_def bnd_def)
  ultimately show ?thesis by (simp add: adapter_raises_own)
next
  case (Inr q)
  obtain x v where x: "sp_client P q w = (x, v)" by (cases "sp_client P q w")
  show ?thesis
  proof (cases x)
    case (Inl r)
    then have e: "e = sdk_failure OpenAI ''OpenAI'' r"
      using assms Inr x by (simp add: openai_invoke_def sdk_request_def bnd_def)
    show ?thesis
    proof (cases r)
      case (SdkError k m)
      with e sdk_failure_raises[of OpenAI "''OpenAI''" k m] show ?thesis by (simp add: not_space)
    next
      case (OtherRaise f)
      with e x Inl show ?thesis by (auto simp: sdk_passes_def)
    qed
  next
    case answer: (Inr c)
    have "openai_response V c = Inl e" using assms Inr x answer by (simp add: openai_invoke_def sdk_request_def bnd_def)
    then show ?thesis
      by (auto simp: openai_response_def Let_def rbind_def adapter_raises_own(3) index_raises not_space split: list.splits sum.splits if_splits
          dest!: tool_calls_error answered_response)
  qed
qed

lemma claude_request_told: "claude_request V m request = Inl e \<Longrightarrow> told (claude_error AnyFailure) e"
proof -
  have block: "to_anthropic_block V b = Inl e \<Longrightarrow> told (claude_error AnyFailure) e" for b e
    by (auto simp: to_anthropic_block_def Let_def not_space split: pyval.splits if_splits)
  have message: "to_anthropic_message V m = Inl e \<Longrightarrow> told (claude_error AnyFailure) e" for m e
    by (auto simp: to_anthropic_message_def Let_def rbind_def not_space split: pyval.splits if_splits option.splits sum.splits
        dest!: rmap_error dest: block)
  have messages: "claude_messages_from V request = Inl e \<Longrightarrow> told (claude_error AnyFailure) e" for e
    by (auto simp: claude_messages_from_def Let_def not_space split: if_splits option.splits dest!: rmap_error dest: message)
  have tools: "claude_tools_from request = Inl e \<Longrightarrow> told (claude_error AnyFailure) e" for e
    by (auto simp: claude_tools_from_def claude_tool_def Let_def rbind_def not_space split: if_splits option.splits sum.splits pyval.splits
        dest!: rmap_error)
  show "claude_request V m request = Inl e \<Longrightarrow> told (claude_error AnyFailure) e"
    by (auto simp: claude_request_def rbind_def not_space split: sum.splits pyval.splits dest: messages max_tokens_error tools)
qed

lemma claude_raises:
  assumes "claude_invoke V P request w = (Inl e, w')"
  shows "adapter_raises Claude e \<or> sdk_passes (sp_client P) e"
proof (cases "claude_request V (sp_model P) request")
  case (Inl e')
  moreover have "e = e'" using assms Inl by (simp add: claude_invoke_def bnd_def)
  ultimately show ?thesis using claude_request_told by (simp add: adapter_raises_own)
next
  case (Inr q)
  obtain x v where x: "sp_client P q w = (x, v)" by (cases "sp_client P q w")
  show ?thesis
  proof (cases x)
    case (Inl r)
    then have e: "e = sdk_failure Claude ''Anthropic'' r"
      using assms Inr x by (simp add: claude_invoke_def sdk_request_def bnd_def)
    show ?thesis
    proof (cases r)
      case (SdkError k m)
      with e sdk_failure_raises[of Claude "''Anthropic''" k m] show ?thesis by (simp add: not_space)
    next
      case (OtherRaise f)
      with e x Inl show ?thesis by (auto simp: sdk_passes_def)
    qed
  next
    case answer: (Inr c)
    have run: "claude_response c = Inl e" using assms Inr x answer by (simp add: claude_invoke_def sdk_request_def bnd_def)
    have call: "block_call b = Some (Inl e) \<Longrightarrow> answered (AdapterError Claude Response) e" for b e
      by (cases b) (auto dest: tool_call_answered)
    show ?thesis using run
      by (auto simp: claude_response_def Let_def rbind_def adapter_raises_own(3) index_raises not_space List.map_filter_def split: sum.splits if_splits
          dest!: rmap_error call answered_response)
  qed
qed

lemma gemini_raises:
  assumes "gemini_invoke P request w = (Inl e, w')"
  shows "adapter_raises Gemini e \<or> gemini_passes (gm_client P) e"
proof (cases "gemini_request (gm_model P) request")
  case (Inl e')
  have entry: "translate_entry m = Inl e \<Longrightarrow> told (gemini_error AnyFailure) e" for m e
    by (auto simp: translate_entry_def Let_def not_space split: pyval.splits if_splits option.splits)
  have messages: "translate_messages m = Inl e \<Longrightarrow> told (gemini_error AnyFailure) e" for m e
    by (auto simp: translate_messages_def Let_def rbind_def not_space simp del: rmap.simps split: pyval.splits list.splits if_splits sum.splits
        dest!: rmap_error dest: entry)
  have "told (gemini_error AnyFailure) e'" using Inl
    by (auto simp: gemini_request_def rbind_def split: sum.splits prod.splits dest: messages max_tokens_error)
  moreover have "e = e'" using assms Inl by (simp add: gemini_invoke_def bnd_def)
  ultimately show ?thesis by (simp add: adapter_raises_own)
next
  case (Inr q)
  obtain x v where x: "gm_client P q w = (x, v)" by (cases "gm_client P q w")
  show ?thesis
  proof (cases x)
    case (Inl r)
    have e: "e = gemini_failure r" using assms Inr x Inl by (simp add: gemini_invoke_def bnd_def)
    show ?thesis
    proof (cases "\<exists>d. r = GeminiOther d")
      case True
      with e x Inl show ?thesis by (auto simp: gemini_passes_def)
    next
      case False
      with e have "adapter_raises Gemini e" by (cases r) (auto intro!: adapter_raises_own(3) simp: not_space)
      then show ?thesis ..
    qed
  next
    case answer: (Inr c)
    have "gemini_answer (gm_model P) c = Inl e" using assms Inr x answer by (simp add: gemini_invoke_def bnd_def)
    then show ?thesis
      by (auto simp: gemini_answer_def not_space intro!: adapter_raises_own(3) split: list.splits if_splits)
  qed
qed

lemma local_request_told: "local_request m V request = Inl e \<Longrightarrow> told (local_error AnyFailure) e"
  by (auto simp: local_request_def Let_def rbind_def not_space split: if_splits sum.splits
      dest: messages_error max_tokens_error tools_error)

lemma token_count_answered: "token_count v field = Inl e \<Longrightarrow> answered (local_error Response) e"
  by (auto simp: token_count_def not_space split: pyval.splits if_splits)

lemma local_choice_answered: "local_choice V p = Inl e \<Longrightarrow> answered (local_error Response) e"
  by (auto simp: local_choice_def Let_def rbind_def not_space split: pyval.splits list.splits if_splits sum.splits
      dest: tool_calls_error)

lemma normalize_response_answered:
  assumes "normalize_response V r = Inl e"
  shows "answered (local_error Response) e \<or> hr_json r = Inl e \<and> \<not> is_value_error e"
proof (cases "hr_json r")
  case (Inl f)
  with assms show ?thesis by (auto simp: normalize_response_def not_space split: if_splits)
next
  case (Inr v)
  show ?thesis
  proof (cases "\<exists>d. v = PDict d")
    case True
    then obtain d where "v = PDict d" by blast
    with assms Inr show ?thesis
      by (auto simp: normalize_response_def Let_def rbind_def not_space split: if_splits sum.splits
          dest: local_choice_answered token_count_answered)
  next
    case False
    with assms Inr show ?thesis by (cases v) (auto simp: normalize_response_def not_space)
  qed
qed

lemma local_raises:
  assumes "0 \<le> pc_retries (hp_configuration P)" and "local_invoke V P request w = (Inl e, w')"
  shows "adapter_raises Local e \<or> http_passes (hp_client P) e"
proof (cases "local_request (hp_model P) V request")
  case (Inl e')
  moreover have "e = e'" using assms(2) Inl by (simp add: local_invoke_def bnd_def)
  ultimately show ?thesis using local_request_told by (simp add: adapter_raises_own)
next
  case (Inr payload)
  let ?send = "hp_client P (hp_endpoint P) payload (hp_headers P)"
  obtain t u n where post: "local_post P payload
      = post_attempts (Exn (local_error Timeout) (''Local'' @ t)) (Exn (local_error Connection) (''Could'' @ u)) ?send (Suc n)"
    unfolding local_post_def Let_def attempts_of_Suc[OF assms(1)] by auto
  obtain x v where x: "local_post P payload w = (x, v)" by fastforce
  note cases = post_attempts_cases[OF x[unfolded post]]
  show ?thesis
  proof (cases x)
    case (Inl e')
    have "e = e'" using assms(2) Inr x Inl by (simp add: local_invoke_def bnd_def)
    then show ?thesis using cases Inl by (auto intro!: adapter_raises_own(3) dest: http_passesI(1) simp: not_space)
  next
    case answer: (Inr r)
    then obtain u u' where sent: "?send u = (Inr r, u')" using cases by auto
    have "local_answer V r = Inl e" using assms(2) Inr x answer by (simp add: local_invoke_def bnd_def lift_res_def)
    then consider "normalize_response V r = Inl e" | f m where "e = Exn (local_error f) (CHR ''L'' # m)"
      by (auto simp: local_answer_def split: if_splits)
    then show ?thesis
    proof cases
      case 1
      then consider "answered (local_error Response) e" | "hr_json r = Inl e" "\<not> is_value_error e"
        using normalize_response_answered by blast
      then show ?thesis by cases (metis answered_response, metis sent http_passesI(2))
    qed (auto intro: adapter_raises_own(3) simp: not_space)
  qed
qed

section \<open>Time goes forward\<close>

text \<open>An operation under which a clock never goes back.\<close>

definition keeps_time :: "('w \<Rightarrow> real) \<Rightarrow> ('w \<Rightarrow> 'x \<times> 'w) \<Rightarrow> bool" where
  "keeps_time now f \<longleftrightarrow> (\<forall>w. now w \<le> now (snd (f w)))"

lemma keeps_time_ret [intro]: "keeps_time now (ret x)" "keeps_time now (throw e)" "keeps_time now (lift_res r)"
  by (simp_all add: keeps_time_def ret_def throw_def lift_res_def)

lemma keeps_time_bnd [intro]: "keeps_time now m \<Longrightarrow> (\<And>x. keeps_time now (f x)) \<Longrightarrow> keeps_time now (bnd m f)"
  unfolding keeps_time_def bnd_def
  by (auto split: prod.splits sum.splits) (metis order_trans snd_conv)+

lemma keeps_time_posts: "keeps_time now send \<Longrightarrow> keeps_time now (post_attempts t u send n)"
proof (induction n)
  case (Suc n)
  show ?case unfolding keeps_time_def
  proof
    fix w
    obtain x v where x: "send w = (x, v)" by fastforce
    have "now w \<le> now v" "now v \<le> now (snd (post_attempts t u send n v))"
      using Suc x unfolding keeps_time_def by (metis snd_conv)+
    then show "now w \<le> now (snd (post_attempts t u send (Suc n) w))"
      by (auto simp: x post_attempts.simps split: sum.splits http_raise.splits)
  qed
qed (simp add: post_attempts.simps keeps_time_ret)

lemma keeps_time_sdk: "keeps_time now (client q) \<Longrightarrow> keeps_time now (sdk_request A api client q)"
  by (auto simp: keeps_time_def sdk_request_def split: prod.splits sum.splits) (metis snd_conv)+

lemma keeps_time_gemini: "(\<And>q. keeps_time now (gm_client P q)) \<Longrightarrow> keeps_time now (gemini_invoke P request)"
  unfolding gemini_invoke_def
  by (intro keeps_time_bnd keeps_time_ret) (auto simp: keeps_time_def split: prod.splits sum.splits, (metis snd_conv)+)

section \<open>The shipped adapters\<close>

text \<open>A provider of one of the four adapters; what its client raises beyond the errors the adapter
  translates is an \<open>Exception\<close> with a text, and the client does not turn the clock back.\<close>

inductive shipped :: "('w \<Rightarrow> real) \<Rightarrow> 'w provider \<Rightarrow> bool" for now where
  OpenAI: "(\<And>e. sdk_passes (sp_client P) e \<Longrightarrow> contained e) \<Longrightarrow> (\<And>q. keeps_time now (sp_client P q))
    \<Longrightarrow> shipped now (openai_provider V P)"
| Claude: "(\<And>e. sdk_passes (sp_client P) e \<Longrightarrow> contained e) \<Longrightarrow> (\<And>q. keeps_time now (sp_client P q))
    \<Longrightarrow> shipped now (claude_provider V P)"
| Gemini: "(\<And>e. gemini_passes (gm_client P) e \<Longrightarrow> contained e) \<Longrightarrow> (\<And>q. keeps_time now (gm_client P q))
    \<Longrightarrow> shipped now (gemini_provider P)"
| Local: "(\<And>e. http_passes (hp_client P) e \<Longrightarrow> contained e) \<Longrightarrow> (\<And>u p h. keeps_time now (hp_client P u p h))
    \<Longrightarrow> 0 \<le> pc_retries (hp_configuration P) \<Longrightarrow> shipped now (local_provider V P)"

lemma shipped_raises:
  assumes "shipped now p" and "prov_invoke p request w = (Inl e, w')"
  shows "contained e"
  using assms
proof cases
  case (OpenAI P V)
  with assms(2) have "openai_invoke V P request w = (Inl e, w')" by (simp add: openai_provider_def)
  from openai_raises[OF this] OpenAI show ?thesis using adapter_raises_contained by blast
next
  case (Claude P V)
  with assms(2) have "claude_invoke V P request w = (Inl e, w')" by (simp add: claude_provider_def)
  from claude_raises[OF this] Claude show ?thesis using adapter_raises_contained by blast
next
  case (Gemini P)
  with assms(2) have "gemini_invoke P request w = (Inl e, w')" by (simp add: gemini_provider_def)
  from gemini_raises[OF this] Gemini show ?thesis using adapter_raises_contained by blast
next
  case (Local P V)
  with assms(2) have "local_invoke V P request w = (Inl e, w')" by (simp add: local_provider_def)
  from local_raises[OF _ this] Local show ?thesis using adapter_raises_contained by blast
qed

lemma shipped_keeps_time: "shipped now p \<Longrightarrow> keeps_time now (prov_invoke p request)"
  by (cases rule: shipped.cases)
    (auto simp: openai_provider_def claude_provider_def gemini_provider_def local_provider_def openai_invoke_def
      claude_invoke_def local_invoke_def local_post_def Let_def intro!: keeps_time_bnd keeps_time_ret keeps_time_sdk
      keeps_time_gemini keeps_time_posts)

lemma shipped_contained:
  assumes "shipped now p" and "\<And>w. fst (env_perf E w) = now w" and "keeps_time now (env_perf E)"
  shows "provider_contained E p"
  unfolding provider_contained_def
proof (intro conjI allI impI)
  fix request w e w'
  assume raised: "prov_invoke p request w = (Inl e, w')"
  show "exn_is_exception e" and "\<not> blank (exn_text e)" using shipped_raises[OF assms(1) raised] by (simp_all add: contained_def)
next
  fix request w a w1 x w2 b w3
  assume steps: "env_perf E w = (a, w1)" "prov_invoke p request w1 = (x, w2)" "env_perf E w2 = (b, w3)"
  have "now w \<le> now w1" using assms(3) steps(1) unfolding keeps_time_def by (metis snd_conv)
  also have "now w1 \<le> now w2" using shipped_keeps_time[OF assms(1)] steps(2) unfolding keeps_time_def by (metis snd_conv)
  finally show "a \<le> b" using assms(2)[of w] assms(2)[of w2] steps(1,3) by simp
qed

text \<open>C13 With the shipped adapters behind it the dispatcher answers every provider request with a
  well-formed result: whatever the payload and whatever the services answer or fail with, nothing
  leaves it as an exception. Of the clients it needs that what they raise beyond the errors the
  adapters translate is an \<open>Exception\<close> with a text, and that they do not turn the clock back.\<close>

theorem adapters_dispatched:
  assumes "\<And>p. provider_get (xr_operation request) (dp_providers D w) = Inr p \<Longrightarrow> shipped now p"
    and "\<And>w. fst (env_perf (dp_env D) w) = now w" and "keeps_time now (env_perf (dp_env D))"
  shows "\<exists>r w'. dispatch_to_provider D request w = (Inr r, w') \<and> exec_result_ok r"
  using dispatch_provider_returns[of request D w] shipped_contained[OF assms(1) assms(2,3)] by blast

section \<open>What a successful response holds\<close>

lemma map_filter_tool_calls:
  assumes "\<forall>c \<in> set cs. \<exists>t. as_tool_call c = Some t \<and> tool_call_ok t"
  shows "map as_tool_call cs = map Some (List.map_filter as_tool_call cs) \<and> list_all tool_call_ok (List.map_filter as_tool_call cs)"
  using assms by (induction cs) (auto simp: List.map_filter_simps)

text \<open>The response carries a text and tool calls, which the loop reads without dropping one, and not
  both are empty.\<close>

definition response_held :: "payload \<Rightarrow> bool" where
  "response_held out \<longleftrightarrow> (\<exists>text calls vs. parse_response out = (text, calls) \<and> (text \<noteq> [] \<or> calls \<noteq> [])
     \<and> map_of out ''text'' = Some (PStr text) \<and> get_or out ''tool_calls'' (PTuple []) = PTuple vs
     \<and> map as_tool_call vs = map Some calls \<and> list_all tool_call_ok calls)"

lemma response_heldI:
  assumes "\<forall>c \<in> set vs. \<exists>t. as_tool_call c = Some t \<and> tool_call_ok t" and "\<not> (text = [] \<and> vs = [])"
  shows "response_held ((''text'', PStr text) # (''tool_calls'', PTuple vs) # rest)"
proof -
  note calls = map_filter_tool_calls[OF assms(1)]
  from calls have "vs \<noteq> [] \<Longrightarrow> List.map_filter as_tool_call vs \<noteq> []" by (metis map_is_Nil_conv)
  with calls assms(2) show ?thesis by (auto simp: response_held_def parse_response_def get_or_def)
qed

lemma openai_response_held:
  assumes "openai_response V c = Inr out"
  shows "response_held out"
proof (cases "co_choices c")
  case Nil
  with assms show ?thesis by (simp add: openai_response_def)
next
  case (Cons choice rest)
  obtain calls where calls: "tool_calls_from_chat V (openai_error Response) (cc_tool_calls choice) = Inr calls"
    using assms by (auto simp: openai_response_def Cons Let_def rbind_Inr_iff)
  have "\<forall>x \<in> set calls. \<exists>t. as_tool_call x = Some t \<and> tool_call_ok t" using tool_calls_made[OF calls] by blast
  with assms show ?thesis
    by (auto simp: openai_response_def Cons Let_def calls intro!: response_heldI split: if_splits)
qed

lemma tool_call_made: "mk_tool_call i n a = Inr v \<Longrightarrow> \<exists>t. as_tool_call v = Some t \<and> tool_call_ok t"
  by (auto simp: mk_tool_call_iff tool_call_ok_def)

lemma block_call_made: "block_call b = Some (Inr v) \<Longrightarrow> \<exists>t. as_tool_call v = Some t \<and> tool_call_ok t"
  by (cases b) (auto dest: tool_call_made)

lemma claude_response_held:
  assumes "claude_response m = Inr out"
  shows "response_held out"
proof -
  obtain calls where calls: "rmap id (List.map_filter block_call (am_content m)) = Inr calls"
    using assms by (auto simp: claude_response_def Let_def rbind_Inr_iff)
  have "\<exists>t. as_tool_call x = Some t \<and> tool_call_ok t" if made: "x \<in> set calls" for x
  proof -
    obtain y where "y \<in> set (List.map_filter block_call (am_content m))" "id y = Inr x"
      using list_all2_source[OF calls[unfolded rmap_Inr_iff] made] by blast
    then obtain b where "block_call b = Some (Inr x)" by (auto simp: List.map_filter_def)
    then show ?thesis by (rule block_call_made)
  qed
  with assms show ?thesis
    by (auto simp: claude_response_def Let_def calls intro!: response_heldI split: if_splits)
qed

lemma gemini_answer_held: "gemini_answer model r = Inr out \<Longrightarrow> response_held out"
  by (auto simp: gemini_answer_def response_held_def parse_response_def get_or_def List.map_filter_simps split: if_splits list.splits)

lemma local_answer_held:
  assumes "local_answer V r = Inr out"
  shows "response_held out"
proof -
  have n: "normalize_response V r = Inr out" using assms by (simp add: local_answer_def split: if_splits)
  obtain payload where payload: "hr_json r = Inr (PDict payload)"
    using n by (cases "hr_json r"; cases "projr (hr_json r)") (simp_all add: normalize_response_def)
  obtain choice reply calls where c: "local_choice V payload = Inr (choice, reply, calls)"
    using n by (auto simp: normalize_response_def payload rbind_Inr_iff)
  obtain raw where raw: "tool_calls_from_chat V (local_error Response) raw = Inr calls" "\<not> (reply = [] \<and> calls = [])"
    using c by (auto simp: local_choice_def Let_def rbind_Inr_iff split: pyval.splits list.splits if_splits)
  have "\<forall>x \<in> set calls. \<exists>t. as_tool_call x = Some t \<and> tool_call_ok t" using tool_calls_made[OF raw(1)] by blast
  from response_heldI[OF this raw(2)] n show ?thesis
    by (auto simp: normalize_response_def payload c Let_def rbind_Inr_iff split: if_splits)
qed

text \<open>C12 What a shipped adapter answers is what the tool loop reads: the payload has a string under
  \<open>text\<close>, a tuple of tool calls (or none) that are all well-formed and of which the loop's parsing
  drops none, and it never is a reply with neither text nor calls.\<close>

theorem adapter_responses_typed:
  assumes "shipped now p" and "prov_invoke p request w = (Inr out, w')"
  shows "response_held out"
  using assms
proof cases
  case (OpenAI P V)
  with assms(2) show ?thesis
    by (auto simp: openai_provider_def openai_invoke_def bnd_def lift_res_def split: prod.splits sum.splits dest: openai_response_held)
next
  case (Claude P V)
  with assms(2) show ?thesis
    by (auto simp: claude_provider_def claude_invoke_def bnd_def lift_res_def split: prod.splits sum.splits dest: claude_response_held)
next
  case (Gemini P)
  with assms(2) show ?thesis
    by (auto simp: gemini_provider_def gemini_invoke_def bnd_def lift_res_def split: prod.splits sum.splits dest: gemini_answer_held)
next
  case (Local P V)
  with assms(2) show ?thesis
    by (auto simp: local_provider_def local_invoke_def bnd_def lift_res_def split: prod.splits sum.splits dest: local_answer_held)
qed

text \<open>A Claude adapter whose service asks for one tool call, and its dispatcher.\<close>

definition calling_claude :: "(nat, claude_message) sdk_provider" where
  "calling_claude = \<lparr>sp_configuration = \<lparr>pc_name = ''claude'', pc_model = Some ''m'', pc_api_key = Some ''k'', pc_base_url = None,
       pc_timeout = Fin 30, pc_retries = 2, pc_extra = []\<rparr>, sp_model = ''m'',
     sp_client = (\<lambda>q w. (if cq_max_tokens q = 1 then Inl (SdkError SdkTimeout ''slow'') else Inr \<lparr>am_content = [TextBlock ''now'', ToolUseBlock ''c1'' ''echo'' PNone],
       am_model = ''m'', am_stop = Some ''tool_use'', am_input_tokens = 3, am_output_tokens = 5\<rparr>, Suc w))\<rparr>"

lemma calling_claude_shipped: "(\<And>w. now w \<le> now (Suc w)) \<Longrightarrow> shipped now (claude_provider demo_chat calling_claude)"
  by (rule shipped.Claude) (auto simp: calling_claude_def sdk_passes_def keeps_time_def split: if_splits)

lemma calling_claude_answers:
  "prov_invoke (claude_provider demo_chat calling_claude) [(''prompt'', PStr ''hi'')] w =
    (Inr [(''text'', PStr ''now''), (''tool_calls'', PTuple [PToolCall ''c1'' ''echo'' []]), (''model'', PStr ''m''),
      (''stop_reason'', PStr ''tool_use''), (''input_tokens'', PInt 3), (''output_tokens'', PInt 5)], Suc w)"
  by (simp add: claude_provider_def claude_invoke_def claude_request_def claude_messages_from_def claude_tools_from_def
      max_tokens_of_def default_max_tokens_def calling_claude_def sdk_request_def claude_response_def List.map_filter_simps
      mk_tool_call_def opt_str_def positive_int_def get_or_def as_dict_def bnd_def lift_res_def py_isspace_def Let_def)

lemma adapter_responses_typed_witness:
  "fst (prov_invoke (claude_provider demo_chat calling_claude) [(''prompt'', PStr ''hi'')] 0) =
      Inr [(''text'', PStr ''now''), (''tool_calls'', PTuple [PToolCall ''c1'' ''echo'' []]), (''model'', PStr ''m''),
        (''stop_reason'', PStr ''tool_use''), (''input_tokens'', PInt 3), (''output_tokens'', PInt 5)]
    \<and> response_held [(''text'', PStr ''now''), (''tool_calls'', PTuple [PToolCall ''c1'' ''echo'' []]), (''model'', PStr ''m''),
        (''stop_reason'', PStr ''tool_use''), (''input_tokens'', PInt 3), (''output_tokens'', PInt 5)]"
  using adapter_responses_typed[OF calling_claude_shipped[of real] calling_claude_answers[of 0]]
  by (simp add: calling_claude_answers)

definition claude_dispatcher :: "nat dispatcher" where
  "claude_dispatcher = \<lparr>dp_env = counting_env, dp_tools = (\<lambda>_. []), dp_providers = (\<lambda>_. [(''claude'', claude_provider demo_chat calling_claude)])\<rparr>"

lemma adapters_dispatched_witness:
  "\<exists>r w'. dispatch_to_provider claude_dispatcher \<lparr>xr_target = PROVIDER, xr_operation = ''claude'',
      xr_payload = [(''prompt'', PStr ''hi''), (''max_tokens'', PInt 1)], xr_id = ''r''\<rparr> 0 = (Inr r, w') \<and> exec_result_ok r"
proof (rule adapters_dispatched[where now = real])
  fix p
  assume "provider_get (xr_operation \<lparr>xr_target = PROVIDER, xr_operation = ''claude'',
      xr_payload = [(''prompt'', PStr ''hi''), (''max_tokens'', PInt 1)], xr_id = ''r''\<rparr>) (dp_providers claude_dispatcher 0) = Inr p"
  then have "p = claude_provider demo_chat calling_claude"
    by (simp add: claude_dispatcher_def provider_get_def split: if_splits)
  then show "shipped real p" using calling_claude_shipped by simp
qed (simp_all add: claude_dispatcher_def counting_env_def keeps_time_def)

section \<open>A round of the loop on the wire\<close>

definition wire_result :: "tool_result_block \<Rightarrow> pyval" where
  "wire_result b = PDict [(''role'', PStr ''tool''), (''tool_call_id'', PStr (trb_call_id b)),
     (''content'', PStr (if trb_is_error b then ''Error: '' @ trb_content b else trb_content b))]"

lemma result_blocks_to_chat: "blocks_to_chat V error (map tool_result_entry bs) = Inr ([], [], map wire_result bs)"
  by (induction bs) (simp_all add: block_to_chat_def tool_result_entry_def wire_result_def get_or_def py_str_def Let_def)

lemma block_message_to_chat:
  assumes "blocks \<noteq> []" and "role \<in> set allowed_roles"
  shows "message_to_chat V error (PDict [(''role'', PStr role), (''content'', PTuple blocks)])
    = rbind (blocks_to_chat V error blocks) (blocks_message error role)"
proof -
  have "nonempty_items (PTuple blocks) = Some blocks" using assms(1) by (cases blocks) (simp_all add: nonempty_items_def)
  with assms(2) show ?thesis by (simp add: message_to_chat_def get_or_def Let_def)
qed

definition wire_call :: "chat_env \<Rightarrow> tool_call \<Rightarrow> pyval" where
  "wire_call V c = chat_tool_call (call_id c) (call_name c)
     (projr (dumps (cv_json V) False (Some (cv_str V)) (PDict (call_arguments c))))"

definition written :: "chat_env \<Rightarrow> tool_call \<Rightarrow> bool" where
  "written V c \<longleftrightarrow> (\<exists>t. dumps (cv_json V) False (Some (cv_str V)) (PDict (call_arguments c)) = Inr t)"

lemma call_blocks_written:
  "list_all (written V) calls \<Longrightarrow> blocks_to_chat V error (map tool_use_block calls) = Inr ([], map (wire_call V) calls, [])"
proof (induction calls)
  case (Cons c calls)
  then obtain t where t: "dumps (cv_json V) False (Some (cv_str V)) (PDict (call_arguments c)) = Inr t"
    by (auto simp: written_def)
  then have "block_to_chat V error (tool_use_block c) = Inr ([], [wire_call V c], [])"
    by (simp add: block_to_chat_def tool_use_block_def wire_call_def get_or_def py_str_def as_dict_def del: dumps.simps)
  with Cons show ?case by simp
qed simp

lemma assistant_written:
  assumes "list_all (written V) calls" and "calls \<noteq> []"
  shows "message_to_chat V error (PDict (assistant_message reply calls)) =
    Inr [PDict [(''role'', PStr ''assistant''), (''content'', if reply = [] then PNone else PStr reply),
                (''tool_calls'', PList (map (wire_call V) calls))]]"
proof -
  let ?blocks = "(if reply \<noteq> [] then [PDict [(''type'', PStr ''text''), (''text'', PStr reply)]] else []) @ map tool_use_block calls"
  have "block_to_chat V error (PDict [(''type'', PStr ''text''), (''text'', PStr reply)]) = Inr ([reply], [], [])"
    by (simp add: block_to_chat_def get_or_def py_str_def)
  with call_blocks_written[OF assms(1)]
  have "blocks_to_chat V error ?blocks = Inr (if reply = [] then [] else [reply], map (wire_call V) calls, [])" by simp
  moreover have "?blocks \<noteq> []" using assms(2) by simp
  ultimately show ?thesis using block_message_to_chat[of ?blocks "''assistant''" V error] assms(2)
    by (simp add: assistant_message_def allowed_roles_def blocks_message_def)
qed

text \<open>C15 A round of the tool loop as the service sees it: the assistant's message with its tool calls is
  followed by exactly one \<open>tool\<close> message for each call, in the order of the calls, under the id the
  service gave the call, with what was recorded for it, marked as an error when it did not succeed.
  The translation refuses neither message, provided the arguments of the calls can be written as JSON.\<close>

theorem rounds_on_the_wire:
  assumes "handle_calls L allowed opts ctx granted i k calls records w = (Inr (bs, records'), w')"
    and "tool_results_message bs = Inr m" and "list_all (written V) calls"
  shows "\<exists>rs. records' = records @ rs \<and> length rs = length calls
    \<and> messages_to_chat V error (PList [PDict (assistant_message reply calls), PDict m]) PNone =
        Inr (PDict [(''role'', PStr ''assistant''), (''content'', if reply = [] then PNone else PStr reply),
                    (''tool_calls'', PList (map (wire_call V) calls))]
          # map2 (\<lambda>c r. PDict [(''role'', PStr ''tool''), (''tool_call_id'', PStr (call_id c)),
              (''content'', PStr (if rc_success r then rc_result r else ''Error: '' @ rc_result r))]) calls rs)"
proof -
  obtain rs where rs: "records' = records @ rs" "length rs = length calls" "length bs = length calls"
      "\<forall>j < length calls. answers allowed (calls ! j) (rs ! j) (bs ! j)"
    using handle_calls_answers[OF assms(1)] by blast
  have m: "bs \<noteq> []" "m = [(''role'', PStr ''user''), (''content'', PTuple (map tool_result_entry bs))]"
    using assms(2) by (auto simp: tool_results_message_def split: if_splits)
  then have "calls \<noteq> []" using rs(3) by auto
  note assistant = assistant_written[OF assms(3) this, of error reply]
  have "map wire_result bs \<noteq> []" using m(1) by simp
  then have user: "message_to_chat V error (PDict m) = Inr (map wire_result bs)"
    using block_message_to_chat[of "map tool_result_entry bs" "''user''" V error] m
    by (simp add: result_blocks_to_chat blocks_message_def allowed_roles_def)
  have "map wire_result bs = map2 (\<lambda>c r. PDict [(''role'', PStr ''tool''), (''tool_call_id'', PStr (call_id c)),
      (''content'', PStr (if rc_success r then rc_result r else ''Error: '' @ rc_result r))]) calls rs"
    using rs(2-4) by (intro nth_equalityI) (auto simp: wire_result_def answers_def)
  with assistant user rs(1,2) show ?thesis
    by (intro exI[of _ rs]) (simp add: messages_to_chat_def nonempty_items_def)
qed

lemma rounds_on_the_wire_witness:
  "\<exists>bs records w' m. handle_calls demo_loop [''echo''] default_loop_options demo_exec_context [] ''l'' 1
        [demo_call, demo_call\<lparr>call_id := ''c2'', call_name := ''rm''\<rparr>] [] 0 = (Inr (bs, records), w')
    \<and> tool_results_message bs = Inr m \<and> length records = 2
    \<and> messages_to_chat demo_chat (AdapterError OpenAI AnyFailure)
        (PList [PDict (assistant_message [] [demo_call, demo_call\<lparr>call_id := ''c2'', call_name := ''rm''\<rparr>]), PDict m]) PNone =
      Inr (PDict [(''role'', PStr ''assistant''), (''content'', PNone),
             (''tool_calls'', PList (map (wire_call demo_chat) [demo_call, demo_call\<lparr>call_id := ''c2'', call_name := ''rm''\<rparr>]))]
        # map2 (\<lambda>c r. PDict [(''role'', PStr ''tool''), (''tool_call_id'', PStr (call_id c)),
            (''content'', PStr (if rc_success r then rc_result r else ''Error: '' @ rc_result r))])
          [demo_call, demo_call\<lparr>call_id := ''c2'', call_name := ''rm''\<rparr>] records)"
proof -
  let ?calls = "[demo_call, demo_call\<lparr>call_id := ''c2'', call_name := ''rm''\<rparr>]"
  obtain bs records' w' where run: "handle_calls demo_loop [''echo''] default_loop_options demo_exec_context [] ''l'' 1 ?calls [] 0
      = (Inr (bs, records'), w')" "bs \<noteq> []"
    by (simp add: handle_call_def run_call_def reject_call_def allow_def loop_publish_def demo_loop_def default_loop_options_def demo_call_def
        new_request_def check_exec_request_def mk_tool_result_block_def render_payload_def reading_def counting_env_def
        bnd_def ret_def andthen_def lift_res_def py_isspace_def Let_def)
  from run(2) obtain m where m: "tool_results_message bs = Inr m" by (simp add: tool_results_message_def)
  have ok: "list_all (written demo_chat) ?calls"
    by (simp add: written_def demo_call_def demo_chat_def json_int_def max_int_digits_def nat_str.simps)
  from rounds_on_the_wire[OF run(1) m ok, of "AdapterError OpenAI AnyFailure" "[]"]
  have "length records' = 2 \<and> messages_to_chat demo_chat (AdapterError OpenAI AnyFailure)
        (PList [PDict (assistant_message [] ?calls), PDict m]) PNone =
      Inr (PDict [(''role'', PStr ''assistant''), (''content'', PNone), (''tool_calls'', PList (map (wire_call demo_chat) ?calls))]
        # map2 (\<lambda>c r. PDict [(''role'', PStr ''tool''), (''tool_call_id'', PStr (call_id c)),
            (''content'', PStr (if rc_success r then rc_result r else ''Error: '' @ rc_result r))]) ?calls records')"
    by auto
  then show ?thesis using run(1) m by blast
qed

end
