(* ===== verification/Log_Records.thy ===== *)
theory Log_Records
  imports Timestamps Json Floats
begin

text \<open>
  The JSON log formatter (\<open>core/logging.py\<close>). A record comes with what the \<open>logging\<close> library made of
  it: the time of its creation, its level and logger names, its message (whose formatting may raise)
  and, for a record of an exception, the text of its traceback.
\<close>

section \<open>From a time stamp to a datetime\<close>

definition year_days :: "nat \<Rightarrow> nat" where
  "year_days y = (if leap_year y then 366 else 365)"

text \<open>Years and months peeled off a number of days.\<close>

function split_year :: "nat \<Rightarrow> nat \<Rightarrow> nat \<times> nat" where
  "split_year y n = (if n < year_days y then (y, n) else split_year (Suc y) (n - year_days y))"
  by auto

termination by (relation "measure snd") (auto simp: year_days_def split: if_splits)

function split_month :: "nat \<Rightarrow> nat \<Rightarrow> nat \<Rightarrow> nat \<times> nat" where
  "split_month y m n = (if n < days_in_month y m \<or> 12 \<le> m then (m, n) else split_month y (Suc m) (n - days_in_month y m))"
  by auto

termination by (relation "measure (\<lambda>(y, m, n). 12 - m)") auto

declare split_year.simps [simp del] split_month.simps [simp del]

text \<open>The date a number of days after 1 January of year 1, by whole cycles of 400 years.\<close>

definition date_of_days :: "int \<Rightarrow> int \<times> nat \<times> nat" where
  "date_of_days n =
     (let (y, r) = split_year 1 (nat (n mod 146097)); (m, d) = split_month y 1 r
      in (400 * (n div 146097) + int y, m, d + 1))"

text \<open>
  \<open>datetime.fromtimestamp(t, tz=UTC)\<close> for a finite \<open>t\<close>: the fraction of a second in microseconds is a
  float product, rounded half to even.
\<close>

definition timestamp_micros :: "real \<Rightarrow> int" where
  "timestamp_micros t =
     (let whole = (if 0 \<le> t then \<lfloor>t\<rfloor> else \<lceil>t\<rceil>)
      in whole * 1000000 + half_even (finite_part (float_mul (Fin (t - of_int whole)) (Fin 1000000))))"

definition from_micros :: "int \<Rightarrow> datetime res" where
  "from_micros us =
     (let seconds = us div 1000000; (y, m, d) = date_of_days (seconds div 86400 + 719162); s = nat (seconds mod 86400) in
      if 2 ^ 63 \<le> \<bar>seconds\<bar> then Inl (Exn (ForeignException ''OverflowError'') ''timestamp out of range for platform time_t'')
      else if 2 ^ 31 \<le> \<bar>y - 1900\<bar>
      then Inl (Exn (ForeignException ''OSError'') ''[Errno 75] Value too large for defined data type'')
      else if y < 1 \<or> 9999 < y then Inl (Exn (ForeignException ''ValueError'') (''year '' @ int_str y @ '' is out of range''))
      else Inr \<lparr>dt_year = nat y, dt_month = m, dt_day = d, dt_hour = s div 3600, dt_minute = s div 60 mod 60,
        dt_second = s mod 60, dt_micro = nat (us mod 1000000), dt_offset = Some 0\<rparr>)"

definition from_timestamp :: "real \<Rightarrow> datetime res" where
  "from_timestamp t = from_micros (timestamp_micros t)"

section \<open>The formatter\<close>

record log_record =
  lg_created :: real
  lg_level :: string
  lg_name :: string
  lg_message :: "string res"
  lg_exc :: "string option"

definition log_payload :: "log_record \<Rightarrow> datetime \<Rightarrow> string \<Rightarrow> payload" where
  "log_payload r created message =
     [(''timestamp'', PStr (isoformat created)), (''level'', PStr (lg_level r)), (''logger'', PStr (lg_name r)),
      (''message'', PStr message)] @ (case lg_exc r of Some t \<Rightarrow> [(''exc_info'', PStr t)] | None \<Rightarrow> [])"

definition structured_format :: "json_lib \<Rightarrow> (pyval \<Rightarrow> string) \<Rightarrow> log_record \<Rightarrow> string res" where
  "structured_format J str r =
     rbind (from_timestamp (lg_created r)) (\<lambda>created.
     rbind (lg_message r) (\<lambda>message. dumps J True (Some str) (PDict (log_payload r created message))))"

section \<open>The calendar\<close>

lemma days_before_Suc: "1 \<le> y \<Longrightarrow> days_before_year (Suc y) = days_before_year y + year_days y"
proof -
  assume "1 \<le> y"
  then obtain p where y: "y = Suc p" by (cases y) auto
  have less: "p div 100 \<le> p div 4" by (rule div_le_mono2) simp_all
  show ?thesis using less
    by (auto simp: y days_before_year_def year_days_def leap_year_def Let_def div_Suc) presburger+
qed

lemma days_before_mono: "1 \<le> y \<Longrightarrow> y \<le> z \<Longrightarrow> days_before_year y \<le> days_before_year z"
proof -
  assume "1 \<le> y" and "y \<le> z"
  from \<open>y \<le> z\<close> show ?thesis
  proof (induction rule: dec_induct)
    case (step z)
    with \<open>1 \<le> y\<close> show ?case by (simp add: days_before_Suc)
  qed simp
qed

lemma days_before_cycles: "1 \<le> y \<Longrightarrow> days_before_year (400 * k + y) = 146097 * k + days_before_year y"
proof -
  assume "1 \<le> y"
  then obtain p where y: "y = Suc p" by (cases y) auto
  have less: "p div 100 \<le> p div 4" by (rule div_le_mono2) simp_all
  have "(400 * k + p) div 4 = 100 * k + p div 4" "(400 * k + p) div 100 = 4 * k + p div 100" "(400 * k + p) div 400 = k + p div 400"
    by simp_all
  moreover have "a + (b + (c + d)) - e = a + (b + c + d - e)" if "e \<le> c" for a b c d e :: nat using that by simp
  ultimately show ?thesis using less by (simp add: y days_before_year_def Let_def add.assoc)
qed

lemma leap_cycles: "leap_year (400 * k + y) = leap_year y"
proof -
  have "(400 * k + y) mod 4 = y mod 4" using mod_mult_self4[of 4 "100 * k" y] by simp
  moreover have "(400 * k + y) mod 100 = y mod 100" using mod_mult_self4[of 100 "4 * k" y] by simp
  moreover have "(400 * k + y) mod 400 = y mod 400" by simp
  ultimately show ?thesis by (simp add: leap_year_def)
qed

lemma split_year_days:
  "1 \<le> y \<Longrightarrow> split_year y n = (y', r) \<Longrightarrow> days_before_year y' + r = days_before_year y + n \<and> r < year_days y' \<and> y \<le> y'"
proof (induction y n rule: split_year.induct)
  case (1 y n)
  show ?case
  proof (cases "n < year_days y")
    case True
    with 1 show ?thesis by (simp add: split_year.simps[of y n])
  next
    case False
    with "1.prems" have "split_year (Suc y) (n - year_days y) = (y', r)" by (simp add: split_year.simps[of y n])
    with "1.IH"[OF False] "1.prems"(1) False show ?thesis by (simp add: days_before_Suc)
  qed
qed

lemma split_month_days:
  "1 \<le> m \<Longrightarrow> m \<le> 12 \<Longrightarrow> n < sum_list (map (days_in_month y) [m ..< 13]) \<Longrightarrow> split_month y m n = (m', r) \<Longrightarrow>
    sum_list (map (days_in_month y) [1 ..< m']) + r = sum_list (map (days_in_month y) [1 ..< m]) + n
    \<and> r < days_in_month y m' \<and> 1 \<le> m' \<and> m' \<le> 12"
proof (induction y m n rule: split_month.induct)
  case (1 y m n)
  have upto: "[m ..< 13] = m # [Suc m ..< 13]" using "1.prems"(2) by (simp add: upt_rec)
  show ?case
  proof (cases "n < days_in_month y m \<or> 12 \<le> m")
    case True
    have "n < days_in_month y m"
    proof (cases "n < days_in_month y m")
      case False
      with True "1.prems"(2) have "m = 12" by simp
      with "1.prems"(3) show ?thesis by (simp add: upt_rec)
    qed
    with True "1.prems" show ?thesis by (simp add: split_month.simps[of y m n])
  next
    case False
    with "1.prems"(4) have rest: "split_month y (Suc m) (n - days_in_month y m) = (m', r)" by (simp add: split_month.simps[of y m n])
    have "n - days_in_month y m < sum_list (map (days_in_month y) [Suc m ..< 13])"
      using False "1.prems"(3) unfolding upto by (simp add: less_diff_conv2)
    from "1.IH"[OF False _ _ this rest] False "1.prems"(1) show ?thesis by simp
  qed
qed

lemma year_months: "sum_list (map (days_in_month y) [1 ..< 13]) = year_days y"
  by (simp add: upt_rec days_in_month_def year_days_def)

lemma date_of_days_correct:
  assumes "0 \<le> n" and "date_of_days n = (y, m, d)"
  shows "days_before_year (nat y) + sum_list (map (days_in_month (nat y)) [1 ..< m]) + d = nat n + 1
    \<and> 1 \<le> y \<and> 1 \<le> m \<and> m \<le> 12 \<and> 1 \<le> d \<and> d \<le> days_in_month (nat y) m"
proof -
  obtain y0 r where y0: "split_year 1 (nat (n mod 146097)) = (y0, r)" by fastforce
  obtain m0 d0 where m0: "split_month y0 1 r = (m0, d0)" by fastforce
  have r: "days_before_year y0 + r = nat (n mod 146097)" "r < year_days y0" "1 \<le> y0"
    using split_year_days[OF _ y0] by (simp_all add: days_before_year_def)
  have md: "sum_list (map (days_in_month y0) [1 ..< m0]) + d0 = r" "d0 < days_in_month y0 m0" "1 \<le> m0" "m0 \<le> 12"
    using split_month_days[OF _ _ _ m0] r(2) year_months[of y0] by simp_all
  define k where "k = nat (n div 146097)"
  have k: "int k = n div 146097" using assms(1) by (simp add: k_def pos_imp_zdiv_nonneg_iff)
  have res: "y = 400 * int k + int y0" "m = m0" "d = d0 + 1" using assms(2) y0 m0 by (simp_all add: date_of_days_def k)
  then have y: "nat y = 400 * k + y0" by simp
  have months: "days_in_month (400 * k + y0) = days_in_month y0" by (rule ext) (simp add: days_in_month_def leap_cycles)
  have "nat n = 146097 * k + nat (n mod 146097)"
    using assms(1) k mult_div_mod_eq[of 146097 n] pos_mod_sign[of 146097 n] by linarith
  with r md res y show ?thesis by (simp add: months days_before_cycles)
qed

section \<open>The time of a record\<close>

text \<open>The start of 1970 and of the year 10000, in microseconds of \<open>dt_instant\<close> and of a time stamp.\<close>

definition unix_epoch :: int where
  "unix_epoch = 719163 * 86400000000"

definition last_second :: int where
  "last_second = 253402300800"

lemma day_split:
  fixes q s t u :: int
  assumes "q * 86400 + s = t"
  shows "(q + 719163) * 86400000000 + s * 1000000 + u = t * 1000000 + u + unix_epoch"
  by (simp add: unix_epoch_def distrib_right flip: assms)

lemma from_micros_correct:
  assumes "0 \<le> us" and "us < last_second * 1000000"
  shows "\<exists>dt. from_micros us = Inr dt \<and> datetime_ok dt \<and> dt_offset dt = Some 0 \<and> dt_instant dt = us + unix_epoch"
proof -
  define seconds where "seconds = us div 1000000"
  define s where "s = nat (seconds mod 86400)"
  have sec: "0 \<le> seconds" "seconds < last_second" using assms by (auto simp: seconds_def last_second_def)
  obtain y m d where date: "date_of_days (seconds div 86400 + 719162) = (y, m, d)" by (rule prod_cases3)
  have days: "0 \<le> seconds div 86400 + 719162" "seconds div 86400 + 719162 < 3652059" using sec by (auto simp: last_second_def)
  note cal = date_of_days_correct[OF days(1) date]
  have year: "y \<le> 9999"
  proof (rule ccontr)
    assume "\<not> y \<le> 9999"
    then have "days_before_year 10000 \<le> days_before_year (nat y)" by (intro days_before_mono) simp_all
    moreover have "days_before_year 10000 = 3652059" by (simp add: days_before_year_def)
    moreover have "days_before_year (nat y) \<le> nat (seconds div 86400 + 719162)" using cal by linarith
    ultimately show False using days by linarith
  qed
  have "\<bar>y - 1900\<bar> \<le> 10000" using cal year by (auto simp: abs_le_iff)
  then have near: "\<not> 2 ^ 31 \<le> \<bar>y - 1900\<bar>" by simp
  define dt where "dt = \<lparr>dt_year = nat y, dt_month = m, dt_day = d, dt_hour = s div 3600, dt_minute = s div 60 mod 60,
        dt_second = s mod 60, dt_micro = nat (us mod 1000000), dt_offset = Some (0 :: int)\<rparr>"
  have s: "s < 86400" "int s = seconds mod 86400" by (simp_all add: s_def nat_less_iff)
  have run: "from_micros us = Inr dt"
    using sec date cal year near by (simp add: from_micros_def Let_def seconds_def[symmetric] s_def[symmetric] dt_def last_second_def)
  have "nat (us mod 1000000) < 1000000" "s div 3600 < 24" "nat y \<le> 9999" "1 \<le> nat y"
    using s(1) year cal by (auto simp: nat_less_iff less_mult_imp_div_less)
  moreover have "s mod 60 \<le> 59" "s div 60 mod 60 \<le> 59"
    using mod_less_divisor[of 60 s] mod_less_divisor[of 60 "s div 60"] by linarith+
  ultimately have ok: "datetime_ok dt" using cal by (simp add: datetime_ok_def check_datetime_def dt_def Let_def day_micros_def)
  have ord: "int (dt_ordinal dt) = seconds div 86400 + 719163"
  proof -
    have "dt_ordinal dt = nat (seconds div 86400 + 719162) + 1" using cal by (simp add: dt_ordinal_def dt_def)
    with days(1) show ?thesis by simp
  qed
  have "s div 3600 = s div 60 div 60" by (simp add: div_mult2_eq[symmetric])
  then have "s = 3600 * (s div 3600) + 60 * (s div 60 mod 60) + s mod 60"
    using mult_div_mod_eq[of 60 s] mult_div_mod_eq[of 60 "s div 60"] by linarith
  then have split: "int s = 3600 * int (s div 3600) + 60 * int (s div 60 mod 60) + int (s mod 60)"
    unfolding of_nat_add[symmetric] of_nat_mult[symmetric] of_nat_numeral[where 'a = int, symmetric] of_nat_eq_iff .
  have "dt_instant dt = (seconds div 86400 + 719163) * 86400000000 + int s * 1000000 + us mod 1000000"
    unfolding dt_instant_def dt_local_def ord split by (simp add: dt_def algebra_simps del: of_nat_mod of_nat_div)
  also have "\<dots> = seconds * 1000000 + us mod 1000000 + unix_epoch"
    unfolding s(2) by (rule day_split[OF div_mult_mod_eq])
  also have "\<dots> = us + unix_epoch" unfolding seconds_def using div_mult_mod_eq[of us 1000000] by linarith
  finally show ?thesis using run ok by (auto simp: dt_def)
qed

lemma half_even_nonneg: "0 \<le> y \<Longrightarrow> 0 \<le> half_even y"
  by (auto simp: half_even_def Let_def)

lemma round64_Fin_nonneg: "0 \<le> x \<Longrightarrow> round64 x = Fin y \<Longrightarrow> 0 \<le> y"
  by (auto simp: round64_def Let_def half_even_nonneg split: if_splits)

lemma timestamp_micros_nonneg: "0 \<le> t \<Longrightarrow> 0 \<le> timestamp_micros t"
proof -
  assume t: "0 \<le> t"
  let ?x = "(t - of_int \<lfloor>t\<rfloor>) * 1000000"
  have "0 \<le> finite_part (round64 ?x)"
    using round64_Fin_nonneg[of ?x] by (cases "round64 ?x") (simp_all add: finite_part_def)
  with t show ?thesis by (simp add: timestamp_micros_def half_even_nonneg Let_def)
qed

lemma timestamp_micros_close: "\<bar>of_int (timestamp_micros t) - t * 1000000\<bar> \<le> 1"
proof -
  define whole where "whole = (if 0 \<le> t then \<lfloor>t\<rfloor> else \<lceil>t\<rceil>)"
  define x where "x = (t - of_int whole) * 1000000"
  have "\<bar>t - of_int whole\<bar> \<le> 1" unfolding whole_def by (cases "0 \<le> t") (auto simp: abs_le_iff; linarith)+
  then have x: "\<bar>x\<bar> \<le> 1000000" by (simp add: x_def abs_mult)
  have big: "(1000000 :: real) \<le> 2 ^ 1023" using power_increasing[of 20 1023 "2 :: real"] by simp
  obtain y where y: "round64 x = Fin y" "\<bar>y - x\<bar> \<le> quantum x / 2"
    using round64_finite[of x] x big by fastforce
  have "\<bar>x\<bar> / 2 ^ 52 \<le> 1" using x by (simp add: divide_le_eq)
  with quantum_bound[of x] scale64_pos(4) have "quantum x \<le> 1" by linarith
  moreover have "timestamp_micros t = whole * 1000000 + half_even y"
    using y(1) by (simp add: timestamp_micros_def Let_def whole_def[symmetric] x_def finite_part_def)
  moreover have "\<bar>of_int (half_even y) - y\<bar> \<le> 1 / 2" by (rule half_even_error)
  moreover have "t * 1000000 = x + of_int whole * 1000000" by (simp add: x_def algebra_simps)
  ultimately show ?thesis using y(2) unfolding abs_le_iff by linarith
qed

section \<open>What a log line holds\<close>

definition printable :: "char \<Rightarrow> bool" where
  "printable c \<longleftrightarrow> 32 \<le> (of_char c :: nat) \<and> (of_char c :: nat) < 127"

lemma hex_digit_printable: "k < 16 \<Longrightarrow> printable (hex_digit k)"
  by (auto simp: hex_digit_def printable_def of_char_of take_bit_eq_mod)

lemma json_char_printable: "list_all printable (json_char True c)"
proof -
  have "(of_char c :: nat) < 256" using nat_of_char_less_256 .
  then have "(of_char c :: nat) div 16 < 16" by (simp add: less_mult_imp_div_less)
  then have "list_all printable (hex2 (of_char c))" by (simp add: hex2_def hex_digit_printable)
  then show ?thesis by (auto simp: json_char_def Let_def printable_def)
qed

lemma json_string_printable: "list_all printable (json_string True s)"
  by (induction s) (use json_char_printable in \<open>auto simp: json_string_def printable_def list_all_iff\<close>)

lemma text_members_printable:
  "dumps_members J True d (map (\<lambda>(k, s). (k, PStr s)) ms) = Inr t \<Longrightarrow> list_all printable t"
  by (induction ms arbitrary: t) (auto simp: rbind_Inr_iff json_string_printable printable_def split: if_splits)

lemma text_members_default:
  "dumps_members J a d (map (\<lambda>(k, s). (k, PStr s)) ms) = dumps_members J a None (map (\<lambda>(k, s). (k, PStr s)) ms)"
  by (induction ms) auto

lemma text_object_reads:
  assumes "distinct (map fst ms)" and "dumps_members J True d (map (\<lambda>(k, s). (k, PStr s)) ms) = Inr t"
  shows "loads J (''{'' @ t @ ''}'') = Inr (PDict (map (\<lambda>(k, s). (k, PStr s)) ms))"
proof -
  have keys: "map fst (map (\<lambda>(k, s). (k, PStr s)) ms) = map fst ms" by (simp add: case_prod_beta comp_def)
  have "dict_ok (map (\<lambda>(k, s). (k, PStr s)) ms)" unfolding dict_ok_def keys by (rule assms(1))
  then have "json_ok J (PDict (map (\<lambda>(k, s). (k, PStr s)) ms))" by (auto simp: list_all_iff)
  moreover have "dumps J True None (PDict (map (\<lambda>(k, s). (k, PStr s)) ms)) = Inr (''{'' @ t @ ''}'')"
    using assms(2) text_members_default[of J True d ms] by simp
  ultimately have "loads J (''{'' @ t @ ''}'') = Inr (json_norm (PDict (map (\<lambda>(k, s). (k, PStr s)) ms)))"
    by (intro loads_dumps)
  then show ?thesis by (simp add: case_prod_beta comp_def)
qed

definition log_fields :: "log_record \<Rightarrow> string \<Rightarrow> string \<Rightarrow> (string \<times> string) list" where
  "log_fields r stamp message =
     [(''timestamp'', stamp), (''level'', lg_level r), (''logger'', lg_name r), (''message'', message)]
       @ (case lg_exc r of Some t \<Rightarrow> [(''exc_info'', t)] | None \<Rightarrow> [])"

lemma log_payload_fields:
  "log_payload r dt message = map (\<lambda>(k, s). (k, PStr s)) (log_fields r (isoformat dt) message)"
  by (simp add: log_payload_def log_fields_def split: option.splits)

lemma text_members_written: "\<exists>t. dumps_members J a d (map (\<lambda>(k, s). (k, PStr s)) ms) = Inr t"
  by (induction ms) auto

text \<open>C32 A record created before the year 10000 whose message can be formatted is always written, on
  one line of printable ASCII: no message, logger name or traceback can break the line or forge
  another. Read back, the line is an object with exactly the record's level, logger, message and
  traceback, and its time stamp reads back as a UTC time within a microsecond of the creation time.\<close>

theorem log_lines_read_back:
  assumes "0 \<le> lg_created r" and "lg_created r < of_int last_second - 1" and "lg_message r = Inr message"
  shows "\<exists>line stamp dt. structured_format J str r = Inr line \<and> list_all printable line
    \<and> loads J line = Inr (PDict (map (\<lambda>(k, s). (k, PStr s)) (log_fields r stamp message)))
    \<and> fromisoformat stamp = Inr dt \<and> dt_offset dt = Some 0
    \<and> \<bar>of_int (dt_instant dt - unix_epoch) - lg_created r * 1000000\<bar> \<le> 1"
proof -
  let ?us = "timestamp_micros (lg_created r)"
  note close = timestamp_micros_close[of "lg_created r"]
  have "of_int ?us < (of_int (last_second * 1000000) :: real)" using close assms(2) by (simp add: abs_le_iff)
  then have below: "?us < last_second * 1000000" by (simp only: of_int_less_iff)
  have above: "0 \<le> ?us" using assms(1) by (rule timestamp_micros_nonneg)
  obtain dt where dt: "from_timestamp (lg_created r) = Inr dt" "datetime_ok dt" "dt_offset dt = Some 0" "dt_instant dt = ?us + unix_epoch"
    using from_micros_correct[OF above below] by (auto simp: from_timestamp_def)
  let ?fields = "log_fields r (isoformat dt) message"
  obtain t where t: "dumps_members J True (Some str) (map (\<lambda>(k, s). (k, PStr s)) ?fields) = Inr t"
    using text_members_written by blast
  then have line: "structured_format J str r = Inr (''{'' @ t @ ''}'')"
    by (simp add: structured_format_def dt(1) assms(3) log_payload_fields)
  have "list_all printable (''{'' @ t @ ''}'')" using text_members_printable[OF t] by (simp add: printable_def)
  moreover have "loads J (''{'' @ t @ ''}'') = Inr (PDict (map (\<lambda>(k, s). (k, PStr s)) ?fields))"
    by (rule text_object_reads[OF _ t]) (simp add: log_fields_def split: option.splits)
  moreover have "fromisoformat (isoformat dt) = Inr dt" by (rule isoformat_roundtrip[OF dt(2)])
  ultimately show ?thesis using line dt(3,4) close by (intro exI[of _ "''{'' @ t @ ''}''"] exI[of _ "isoformat dt"] exI[of _ dt]) simp
qed

definition demo_record :: log_record where
  "demo_record = \<lparr>lg_created = 0, lg_level = ''INFO'', lg_name = ''mellivor_kernel'',
     lg_message = Inr [CHR ''a'', CHR 0x0A, CHR 0x22], lg_exc = None\<rparr>"

lemma log_lines_read_back_witness:
  "\<exists>line stamp. structured_format demo_json (\<lambda>_. []) demo_record = Inr line \<and> list_all printable line
    \<and> loads demo_json line = Inr (PDict [(''timestamp'', PStr stamp), (''level'', PStr ''INFO''), (''logger'', PStr ''mellivor_kernel''),
        (''message'', PStr [CHR ''a'', CHR 0x0A, CHR 0x22])])"
proof -
  have "0 \<le> lg_created demo_record" "lg_created demo_record < of_int last_second - 1"
    "lg_message demo_record = Inr [CHR ''a'', CHR 0x0A, CHR 0x22]"
    by (simp_all add: demo_record_def last_second_def)
  from log_lines_read_back[OF this, of demo_json "\<lambda>_. []"] show ?thesis
    by (auto simp: log_fields_def demo_record_def)
qed

end
