(* ===== verification/Observability.thy ===== *)
theory Observability
  imports Values Text
begin

text \<open>
  The observability foundation (\<open>observability/\<close>): contexts, structured events, the recorders that do
  nothing and the composition that falls back to them. A recorder is what its methods do to the world.
\<close>

section \<open>Contexts and events\<close>

record observation_context =
  oc_correlation :: string
  oc_trace :: "string option"
  oc_span :: "string option"
  oc_attributes :: payload

text \<open>\<open>f"corr-{uuid4().hex}"\<close>: the identifier without its dashes.\<close>

definition mint_correlation :: "'w env \<Rightarrow> ('w, string) py" where
  "mint_correlation E = bnd (reading (env_uuid E)) (\<lambda>u. ret (''corr-'' @ filter (\<lambda>c. c \<noteq> CHR ''-'') u))"

definition new_observation_context ::
  "'w env \<Rightarrow> string option \<Rightarrow> string option \<Rightarrow> string option \<Rightarrow> payload option \<Rightarrow> ('w, observation_context) py" where
  "new_observation_context E correlation trace_id span_id attributes =
     bnd (case correlation of Some (c # cs) \<Rightarrow> ret (c # cs) | _ \<Rightarrow> mint_correlation E) (\<lambda>i.
       ret \<lparr>oc_correlation = i, oc_trace = trace_id, oc_span = span_id,
         oc_attributes = (case attributes of Some d \<Rightarrow> d | None \<Rightarrow> [])\<rparr>)"

record observation_event =
  oe_name :: string
  oe_message :: string
  oe_context :: observation_context
  oe_attributes :: payload

definition event_to_dict :: "observation_event \<Rightarrow> payload" where
  "event_to_dict e =
     [(''name'', PStr (oe_name e)), (''message'', PStr (oe_message e)),
      (''context'', PDict [(''correlation_id'', PStr (oc_correlation (oe_context e))), (''trace_id'', opt_str (oc_trace (oe_context e))),
        (''span_id'', opt_str (oc_span (oe_context e))), (''attributes'', PDict (oc_attributes (oe_context e)))]),
      (''attributes'', PDict (oe_attributes e))]"

section \<open>Recorders\<close>

text \<open>A span is what ending it does.\<close>

type_synonym 'w metrics_recorder = "string \<Rightarrow> pyfloat \<Rightarrow> observation_context option \<Rightarrow> ('w, unit) py"
type_synonym 'w trace_recorder = "string \<Rightarrow> observation_context option \<Rightarrow> ('w, ('w, unit) py) py"
type_synonym 'w event_sink = "observation_event \<Rightarrow> ('w, unit) py"

definition noop_metrics :: "'w metrics_recorder" where
  "noop_metrics name v context = ret ()"

definition noop_span :: "('w, unit) py" where
  "noop_span = ret ()"

definition noop_tracing :: "'w trace_recorder" where
  "noop_tracing name context = ret noop_span"

definition noop_sink :: "'w event_sink" where
  "noop_sink e = ret ()"

record 'w observability =
  ob_metrics :: "'w metrics_recorder"
  ob_tracing :: "'w trace_recorder"
  ob_events :: "'w event_sink"

text \<open>\<open>given or NoOp()\<close>: an object comes with its truth value, and one that is false is replaced.\<close>

definition given_or :: "(bool \<times> 'a) option \<Rightarrow> 'a \<Rightarrow> 'a" where
  "given_or given noop = (case given of Some (truth, x) \<Rightarrow> if truth then x else noop | None \<Rightarrow> noop)"

definition new_observability ::
  "(bool \<times> 'w metrics_recorder) option \<Rightarrow> (bool \<times> 'w trace_recorder) option \<Rightarrow> (bool \<times> 'w event_sink) option \<Rightarrow> 'w observability" where
  "new_observability metrics tracing events =
     \<lparr>ob_metrics = given_or metrics noop_metrics, ob_tracing = given_or tracing noop_tracing, ob_events = given_or events noop_sink\<rparr>"

section \<open>What observing does\<close>

text \<open>A context always has a correlation id, the given one unless that is empty.\<close>

lemma context_correlated:
  "\<exists>c w'. new_observation_context E i t s a w = (Inr c, w') \<and> oc_correlation c \<noteq> []
    \<and> (\<forall>x. i = Some x \<longrightarrow> x \<noteq> [] \<longrightarrow> oc_correlation c = x \<and> w' = w)"
  by (auto simp: new_observation_context_def mint_correlation_def bnd_def ret_def reading_def split: option.splits list.splits prod.splits)

text \<open>Unless it is given recorders, observing does nothing and never fails.\<close>

lemma default_observability_silent:
  "ob_metrics (new_observability None None None) n v c w = (Inr (), w)"
  "ob_events (new_observability None None None) e w = (Inr (), w)"
  "bnd (ob_tracing (new_observability None None None) n c) (\<lambda>end_span. end_span) w = (Inr (), w)"
  by (simp_all add: new_observability_def given_or_def noop_metrics_def noop_sink_def noop_tracing_def noop_span_def bnd_def ret_def)

text \<open>A recorder whose truth value is false, such as a sink that counts its events and has none yet, is
  dropped without a sign.\<close>

lemma falsy_sink_dropped: "ob_events (new_observability m t (Some (False, sink))) e w = (Inr (), w)"
  by (simp add: new_observability_def given_or_def noop_sink_def)

end
