(* ===== verification/Spec2Isabelle.thy ===== *)
theory Spec2Isabelle
  imports Container Runtime Tools Events Providers Memory Execution Authorization Security
    Tool_Loop Worker_Pool Workflow Workflow_Runs Agents Plugins Plugin_Lifecycle Bootstrap
    Json Timestamps Sqlite_Store Plugin_Discovery Plugin_Sdk System_Info Ai_Engine Vector_Store
    Adapters Log_Records Observability
begin

text \<open>
  Verification of the Mellivor kernel (\<open>src/mellivor_kernel/\<close>), a Python library for building AI
  applications: tools, providers, memory, events and plugins are registered with a kernel, and one
  execution engine runs every request under an authorizer.

  \<^bold>\<open>The program.\<close> A request names a tool or a provider. \<open>execution/engine.py\<close> publishes that it
  started, asks the authorizer (\<open>authorization/engine.py\<close>), hands a granted request to the dispatcher
  (\<open>execution/dispatch.py\<close>), which runs the tool through \<open>tools/pipeline.py\<close> or calls the provider,
  publishes and observes the outcome and remembers it in a store. On the engine stand the tool loop
  (\<open>execution/tool_loop.py\<close>: a conversation with a provider that may call tools), the workflow engine
  (\<open>workflow/\<close>: steps in sequence or in parallel groups on a thread pool) and, on that, the agent
  engine (\<open>agents/\<close>). Plugins are loaded from manifests (\<open>plugins/\<close>, \<open>plugin_discovery/\<close>,
  \<open>plugin_sdk/\<close>); \<open>bootstrap/\<close> assembles container, registries and kernel from environment variables,
  and \<open>ai_engine/\<close> composes everything behind one facade.

  \<^bold>\<open>How it is modelled.\<close> A computation is a function from a world to a result and a world, where a
  result is an exception (\<open>Inl\<close>) or a value (\<open>Inr\<close>): type \<open>py\<close> in \<open>Prelude\<close>, with \<open>bnd\<close>, \<open>ret\<close>,
  \<open>throw\<close> and \<open>attempt\<close> for \<open>try\<close>/\<open>except\<close>; pure checks are \<open>res\<close>. Every \<open>raise\<close> and every early
  return is a branch. Exceptions carry their class, with the code's hierarchy, and their text.
  Classes are records, enums datatypes, dictionaries association lists in insertion order, objects
  of any type the datatype \<open>pyval\<close> with Python's truth value, \<open>==\<close> and \<open>isinstance\<close> tests. Integers
  are unbounded, as in Python; floats that are computed with are rounded to binary64 in \<open>Floats\<close>.
  What the kernel calls but does not own is a parameter: the clock and \<open>uuid4\<close> (record \<open>env\<close>),
  consumers' tools, hooks, factories, handlers and providers (functions over the world that may
  raise), the file system, the import system and failing SQL statements, SDK and HTTP clients. Laws
  assumed of a parameter are hypotheses of the theorems that need them.

  \<^bold>\<open>The theories\<close>, from the bottom. \<open>Prelude\<close>, \<open>Values\<close>: computations, dictionaries, Python values,
  datetimes. \<open>Text\<close>, \<open>Regex\<close>, \<open>Json\<close>, \<open>Timestamps\<close>, \<open>Floats\<close>: the parts of the standard library
  the kernel relies on. \<open>json.dumps\<close> and \<open>loads\<close>, \<open>isoformat\<close> and \<open>fromisoformat\<close> are proved inverse,
  the regular-expression matcher correct, and the rounding of floats bounded. \<open>Registries\<close>: locales for
  the contract all registries share, interpreted in \<open>Tools\<close>, \<open>Providers\<close> and \<open>Plugins\<close>.

  \<^item> \<open>Container\<close> (\<open>core/container.py\<close>), \<open>Runtime\<close> (\<open>core/runtime.py\<close>, handlers of
    \<open>core/logging.py\<close>), \<open>Log_Records\<close> (its JSON formatter), \<open>Observability\<close> (\<open>observability/\<close>):
    over every history of registrations and resolutions a singleton is constructed once, provided no
    factory comes back to its own service (a lemma shows what happens when one does); the kernel's
    state machine and its health report; every log line is one printable line that reads back.
  \<^item> \<open>Tools\<close> (\<open>tools/\<close>), \<open>Events\<close> (\<open>events/\<close> and the event classes), \<open>Memory\<close> (\<open>memory/\<close>),
    \<open>Providers\<close> (\<open>providers/\<close>), \<open>Security\<close> (\<open>security/\<close>): each with its checks and registry; the
    permission gate and totality of the pipeline; delivery on the bus whatever handlers raise; the
    store, secret-provider and bus contracts as locales, interpreted on the shipped implementations.
  \<^item> \<open>Execution\<close> (\<open>execution/\<close>) and \<open>Authorization\<close> (\<open>authorization/\<close>): what \<open>execute\<close> returns,
    publishes and never does, where only what is handed to the engine is assumed silent; what the
    authorization engine decides, and that the pipeline behind it decides the same. The locale \<open>exec_collaborators\<close> states what the engine needs of bus,
    sink, store and authorizer to be total; it is interpreted on a plain engine and on the
    authorized one.
  \<^item> \<open>Tool_Loop\<close>: what a finished loop has done, and that it never leaves the offered set.
  \<^item> \<open>Worker_Pool\<close>, \<open>Workflow\<close>, \<open>Workflow_Runs\<close> (\<open>workflow/\<close>): the futures of a parallel group as a
    step relation over every interleaving, with its invariant and the termination of every
    schedule; the run that stops at the first stopping failure; the engine composed with the
    authorized execution engine is total. \<open>Agents\<close> (\<open>agents/\<close>) mirrors the workflow it starts.
  \<^item> \<open>Plugins\<close>, \<open>Plugin_Lifecycle\<close>, \<open>Plugin_Discovery\<close>, \<open>Plugin_Sdk\<close>, \<open>System_Info\<close>: versions,
    manifests, loading, guarded transitions of a plugin, discovery over a file system, the SDK's
    agreement with the runtime's own constructors, the builtin plugin.
  \<^item> \<open>Bootstrap\<close> (\<open>config/\<close>, \<open>bootstrap/\<close>), \<open>Ai_Engine\<close> (\<open>ai_engine/\<close>): configuration from environment
    variables, the boot sequence with its failures, exclusive ownership of plugin registries and
    the fleet of plugin lifecycles.
  \<^item> \<open>Sqlite_Store\<close> (\<open>memory/sqlite_store.py\<close>): refines the in-memory store over sequences of calls
    with failing statements and reopening, and raises \<open>MemoryError\<close> with one exception that is
    stated. \<open>Cosine\<close>, \<open>Vector_Store\<close> (\<open>memory/_vector/\<close>): refines a
    map whatever objects it is given, returns the best matches, and its scores are accurate in binary64.
  \<^item> \<open>Chat_Completions\<close>, \<open>Sdk_Adapters\<close>, \<open>Http_Adapters\<close>, \<open>Embeddings\<close>, \<open>Adapters\<close> (the modules
    \<open>_chat_completions\<close>, \<open>openai\<close>, \<open>claude\<close>, \<open>gemini\<close>, \<open>local\<close> and \<open>_embeddings\<close> of \<open>providers/\<close>): requests, responses,
    retries and errors of the shipped providers. A turn with tool calls survives the wire format;
    posts are retried as configured; embeddings come back in the order of the texts; what the
    adapters raise is contained by the dispatcher and what they return is what the tool loop reads.

  \<^bold>\<open>Properties.\<close> Theorems marked C1 to C40 are the claims about the program; each with a hypothesis
  is followed by a witness that applies it to a concrete run. The other lemmas carry them.

  \<^bold>\<open>Bounds and fuel.\<close> Container resolution recurses through consumers' factories and is bounded by
  the interpreter's recursion limit, an argument of \<open>resolve\<close>; \<open>Container\<close> shows how deep a limit is
  enough for factories that depend on each other without a cycle: the length of the longest chain of
  dependencies below the service (the hypothesis \<open>call_below\<close> of C29). The tool loop recurses on
  \<open>max_iterations\<close>, retries on \<open>max_retries\<close>, the JSON reader on the length of its text (which is
  enough for every text that was written), the executor of the thread pool on its schedule, and every
  schedule ends within a bound that is proved. Integers of more than 4300 digits have no decimal text,
  as in the interpreter.

  \<^bold>\<open>Not modelled.\<close> The dispatcher's optional argument \<open>tool_pipeline\<close>: it is left at its default, the
  pipeline of the tools package. Characters beyond U+00FF, and with them surrogate escapes in JSON. Signs of zeros
  and payloads of NaN. Threads other than those of a parallel group; within one, the effects of a task
  happen at the instant it ends. Event ids and times, since nothing reads them. Object identity, but
  for plugin registries and engines. \<open>logging\<close> records and handlers beyond level, marker, and the
  texts a record is formatted to; the traceback's rendering. Inside \<open>urlsplit\<close>, the checks of a
  bracketed host and of compatibility characters. Package initialisers, protocols and abstract
  base classes have no behaviour of their own: they are the types of the functions that stand for
  them. Examples and tests are not part of the library.
\<close>

end
